(* ===== verification/Prelude.thy ===== *)
theory Prelude
  imports Main "HOL-Library.Multiset" "HOL-Library.AList"
begin

text \<open>
  Shared vocabulary of the development.  It holds the theorem collections the component
  theories extend, the type synonyms for identifiers, times and results, the
  SQL-style table operations (a table is the list of its rows), and the
  generic list lemmas used by more than one component.
\<close>

section \<open>Collections and types\<close>

named_theorems table_simps \<open>rewrite rules for rows after an UPDATE or INSERT\<close>
named_theorems step_defs \<open>definitions of the operations of a state machine\<close>
named_theorems inv_intros \<open>preservation lemmas of an invariant\<close>

type_synonym uuid = string
type_synonym uri = string
type_synonym seconds = int
type_synonym ('e, 'a) result = "'e + 'a"

section \<open>Strings\<close>

text \<open>ASCII white space as Go's \<^verbatim>\<open>strings.TrimSpace\<close> and \<^verbatim>\<open>bytes.TrimSpace\<close> cut it.\<close>

definition is_space :: "char \<Rightarrow> bool" where
  "is_space c \<longleftrightarrow> (let n = (of_char c :: nat) in n = 32 \<or> (9 \<le> n \<and> n \<le> 13))"

definition TrimSpace :: "string \<Rightarrow> string" where
  "TrimSpace s = rev (dropWhile is_space (rev (dropWhile is_space s)))"

section \<open>Tables\<close>

definition select_where :: "('r \<Rightarrow> bool) \<Rightarrow> 'r list \<Rightarrow> 'r list" where
  "select_where P rs = filter P rs"

definition count_where :: "('r \<Rightarrow> bool) \<Rightarrow> 'r list \<Rightarrow> nat" where
  "count_where P rs = length (filter P rs)"

definition update_where :: "('r \<Rightarrow> bool) \<Rightarrow> ('r \<Rightarrow> 'r) \<Rightarrow> 'r list \<Rightarrow> 'r list" where
  "update_where P f rs = map (\<lambda>r. if P r then f r else r) rs"

fun find_row :: "('r \<Rightarrow> bool) \<Rightarrow> 'r list \<Rightarrow> 'r option" where
  "find_row P [] = None"
| "find_row P (r # rs) = (if P r then Some r else find_row P rs)"

lemma set_select_where [simp]: "set (select_where P rs) = {r \<in> set rs. P r}"
  by (simp add: select_where_def)

lemma set_update_where [simp]:
  "set (update_where P f rs) = (\<lambda>r. if P r then f r else r) ` set rs"
  by (simp add: update_where_def)

lemma update_where_memE:
  assumes "r \<in> set (update_where P f rs)"
  obtains q where "q \<in> set rs" "r = (if P q then f q else q)"
  using assms unfolding set_update_where by (rule imageE) (rule that)

lemma update_where_memI: "q \<in> set rs \<Longrightarrow> (if P q then f q else q) \<in> set (update_where P f rs)"
  unfolding set_update_where by (rule imageI)

lemma length_update_where [simp]: "length (update_where P f rs) = length rs"
  by (simp add: update_where_def)

lemma count_where_0_iff [simp]: "count_where P rs = 0 \<longleftrightarrow> (\<forall>r\<in>set rs. \<not> P r)"
  by (simp add: count_where_def filter_empty_conv)

lemma count_where_pos_iff [simp]: "0 < count_where P rs \<longleftrightarrow> (\<exists>r\<in>set rs. P r)"
  unfolding neq0_conv [symmetric] count_where_0_iff by blast

lemma count_where_Nil [simp]: "count_where P [] = 0"
  by (simp add: count_where_def)

lemma count_where_Cons [simp]:
  "count_where P (r # rs) = (if P r then Suc (count_where P rs) else count_where P rs)"
  by (simp add: count_where_def)

lemma count_where_append [simp]: "count_where P (rs @ qs) = count_where P rs + count_where P qs"
  by (simp add: count_where_def)

lemma count_where_update:
  "count_where P (update_where Q f rs) = count_where (\<lambda>r. P (if Q r then f r else r)) rs"
  by (simp add: update_where_def count_where_def filter_map comp_def)

lemma count_where_mono:
  "\<forall>r\<in>set rs. P r \<longrightarrow> Q r \<Longrightarrow> count_where P rs \<le> count_where Q rs"
  by (induction rs) auto

lemma count_where_cong:
  "\<forall>r\<in>set rs. P r \<longleftrightarrow> Q r \<Longrightarrow> count_where P rs = count_where Q rs"
  by (induction rs) auto

lemma find_row_SomeD: "find_row P rs = Some r \<Longrightarrow> r \<in> set rs \<and> P r"
  by (induction rs) (auto split: if_splits)

lemma find_row_None_iff: "find_row P rs = None \<longleftrightarrow> (\<forall>r\<in>set rs. \<not> P r)"
  by (induction rs) auto

lemma find_row_update:
  "(\<And>x. P x \<Longrightarrow> P (f x)) \<Longrightarrow> find_row P (update_where P f rs) = map_option f (find_row P rs)"
  by (induction rs) (simp_all add: update_where_def)

section \<open>Rows with a primary key\<close>

text \<open>
  What a component relies on when it updates rows of a keyed table: the
  updates it issues leave the key alone.  The laws below (an UPDATE keeps keys
  unique, a row is found by its key) are proved once and used for the job,
  task and attempt tables.
\<close>

locale keyed_rows =
  fixes key :: "'r \<Rightarrow> 'k"
    and upd :: "('r \<Rightarrow> 'r) \<Rightarrow> bool"
  assumes upd_key: "upd f \<Longrightarrow> key (f r) = key r"
begin

lemma update_keys: "upd f \<Longrightarrow> map key (update_where P f rs) = map key rs"
  by (simp add: update_where_def upd_key)

lemma update_distinct:
  "upd f \<Longrightarrow> distinct (map key rs) \<Longrightarrow> distinct (map key (update_where P f rs))"
  by (simp add: update_keys)

lemma key_unique:
  "distinct (map key rs) \<Longrightarrow> r \<in> set rs \<Longrightarrow> r' \<in> set rs \<Longrightarrow> key r = key r' \<Longrightarrow> r = r'"
  by (simp add: distinct_map inj_on_def)

lemma find_key:
  "distinct (map key rs) \<Longrightarrow> r \<in> set rs \<Longrightarrow> find_row (\<lambda>x. key x = key r) rs = Some r"
  by (induction rs) (auto simp: image_iff)

lemma find_key_iff:
  "distinct (map key rs) \<Longrightarrow> find_row (\<lambda>x. key x = k) rs = Some r \<longleftrightarrow> r \<in> set rs \<and> key r = k"
  by (auto dest: find_row_SomeD find_key)

lemma find_update_same:
  assumes "distinct (map key rs)" "r \<in> set rs" "upd f"
  shows "find_row (\<lambda>x. key x = key r) (update_where (\<lambda>x. key x = key r) f rs) = Some (f r)"
proof -
  have "f r \<in> set (update_where (\<lambda>x. key x = key r) f rs)"
    using assms(2) by force
  from find_key [OF update_distinct [OF assms(3,1)] this] show ?thesis
    unfolding upd_key [OF assms(3)] .
qed

end

section \<open>Sorting\<close>

text \<open>
  What a component relies on when it sorts by a key: the result holds the same
  elements with ascending keys.  Elements with equal keys come in any order.
\<close>

locale sorting =
  fixes key :: "'a \<Rightarrow> 'k :: linorder"
    and srt :: "'a list \<Rightarrow> 'a list"
  assumes srt_mset: "mset (srt xs) = mset xs"
    and srt_sorted: "sorted (map key (srt xs))"
begin

lemma srt_set: "set (srt xs) = set xs"
  by (metis srt_mset set_mset_mset)

lemma srt_Nil_iff: "srt xs = [] \<longleftrightarrow> xs = []"
  by (metis srt_set set_empty)

lemma srt_unique: "inj_on key (set xs) \<Longrightarrow> srt xs = sort_key key xs"
  by (metis srt_mset srt_sorted sort_key_inj_key_eq)

end

section \<open>Transition systems\<close>

inductive reach :: "('s \<Rightarrow> bool) \<Rightarrow> ('s \<Rightarrow> 's \<Rightarrow> bool) \<Rightarrow> 's \<Rightarrow> bool"
  for I :: "'s \<Rightarrow> bool" and R :: "'s \<Rightarrow> 's \<Rightarrow> bool" where
  reach_init: "I s \<Longrightarrow> reach I R s"
| reach_step: "reach I R s \<Longrightarrow> R s s' \<Longrightarrow> reach I R s'"

text \<open>
  The contract between a state machine and the lemmas about its reachable
  states: the initial states satisfy the invariant and every step keeps it.
\<close>

locale invariant_system =
  fixes I :: "'s \<Rightarrow> bool" and R :: "'s \<Rightarrow> 's \<Rightarrow> bool" and inv :: "'s \<Rightarrow> bool"
  assumes inv_init: "I s \<Longrightarrow> inv s"
    and inv_step: "inv s \<Longrightarrow> R s s' \<Longrightarrow> inv s'"
begin

lemma reach_inv: "reach I R s \<Longrightarrow> inv s"
  by (induction rule: reach.induct) (auto intro: inv_init inv_step)

lemma reach_from: "reach I R s \<Longrightarrow> R\<^sup>*\<^sup>* s s' \<Longrightarrow> reach I R s' \<and> inv s'"
proof -
  assume r: "reach I R s" and s: "R\<^sup>*\<^sup>* s s'"
  from s r have "reach I R s'"
    by (induction rule: rtranclp_induct) (auto intro: reach_step)
  then show ?thesis using reach_inv by blast
qed

end

section \<open>Lists\<close>

lemma sorted_wrt_snoc [simp]:
  "sorted_wrt R (xs @ [y]) \<longleftrightarrow> sorted_wrt R xs \<and> (\<forall>x\<in>set xs. R x y)"
  by (simp add: sorted_wrt_append)

lemma sort_key_ConsD:
  assumes "sort_key k xs = x # ys"
  shows "x \<in> set xs \<and> (\<forall>y\<in>set xs. k x \<le> k y)"
proof -
  have "set (x # ys) = set xs" by (metis assms set_sort)
  moreover have "sorted (map k (x # ys))" by (metis assms sorted_sort_key)
  ultimately show ?thesis by auto
qed

lemma sort_key_Nil_iff [simp]: "sort_key k xs = [] \<longleftrightarrow> xs = []"
  by (metis set_empty set_sort)

lemma dropWhile_length_le: "length (dropWhile P xs) \<le> length xs"
  by (induction xs) auto

lemma takeWhile_drop: "drop (length (takeWhile P xs)) xs = dropWhile P xs"
  by (induction xs) auto

end
