(* ===== verification/Job_Transitions.thy ===== *)
theory Job_Transitions
  imports Prelude
begin

text \<open>
  The job life cycle of \<^verbatim>\<open>manager-service/internal/manager/job_transitions.go\<close> and the
  status constants of \<^verbatim>\<open>task_tracker.go\<close>.  The allowed edges are the map
  \<^verbatim>\<open>allowedJobTransitions\<close>; \<^verbatim>\<open>ValidateJobTransition\<close> is the guard every transition that
  goes through \<^verbatim>\<open>applyJobTransitionTx\<close> passes.  The lemmas show that the machine
  is acyclic, that terminal states are dead ends and that they are reached
  through \<^verbatim>\<open>Cleaning\<close> only.
\<close>

section \<open>States\<close>

datatype JobState =
  JobPending | JobRunning | JobCleaning | JobCompleted | JobFailed | JobCancelled

datatype TaskState = Idle | InProgress | Completed | Failed

datatype TaskType = MapTask | ReduceTask

definition JobState_String :: "JobState \<Rightarrow> string" where
  "JobState_String s = (case s of
     JobPending \<Rightarrow> ''Pending'' | JobRunning \<Rightarrow> ''Running'' | JobCleaning \<Rightarrow> ''Cleaning''
   | JobCompleted \<Rightarrow> ''Completed'' | JobFailed \<Rightarrow> ''Failed'' | JobCancelled \<Rightarrow> ''Cancelled'')"

definition TaskState_String :: "TaskState \<Rightarrow> string" where
  "TaskState_String s = (case s of
     Idle \<Rightarrow> ''Idle'' | InProgress \<Rightarrow> ''InProgress'' | Completed \<Rightarrow> ''Completed'' | Failed \<Rightarrow> ''Failed'')"

definition TaskType_String :: "TaskType \<Rightarrow> string" where
  "TaskType_String t = (case t of MapTask \<Rightarrow> ''MapTask'' | ReduceTask \<Rightarrow> ''ReduceTask'')"

section \<open>Edges\<close>

definition allowedJobTransitions :: "string \<Rightarrow> string list" where
  "allowedJobTransitions from =
    (if from = ''Pending'' then [''Running'', ''Cleaning'']
     else if from = ''Running'' then [''Cleaning'']
     else if from = ''Cleaning'' then [''Completed'', ''Failed'', ''Cancelled'']
     else [])"

datatype transition_error = ErrForbiddenTransition string string

definition ValidateJobTransition :: "string \<Rightarrow> string \<Rightarrow> (transition_error, unit) result" where
  "ValidateJobTransition from to =
    (if to \<in> set (allowedJobTransitions from) then Inr ()
     else Inl (ErrForbiddenTransition from to))"

text \<open>The edge relation between job states that the guard permits.\<close>

definition job_edge :: "JobState \<Rightarrow> JobState \<Rightarrow> bool" where
  "job_edge s t \<longleftrightarrow> ValidateJobTransition (JobState_String s) (JobState_String t) = Inr ()"

definition terminal_state :: "JobState \<Rightarrow> bool" where
  "terminal_state s \<longleftrightarrow> s \<in> {JobCompleted, JobFailed, JobCancelled}"

fun job_rank :: "JobState \<Rightarrow> nat" where
  "job_rank JobPending = 0"
| "job_rank JobRunning = 1"
| "job_rank JobCleaning = 2"
| "job_rank _ = 3"

section \<open>Lemmas\<close>

lemma JobState_String_inject [simp]: "JobState_String s = JobState_String t \<longleftrightarrow> s = t"
  by (cases s; cases t) (simp_all add: JobState_String_def)

lemma job_edge_iff:
  "job_edge s t \<longleftrightarrow> (s = JobPending \<and> t \<in> {JobRunning, JobCleaning})
      \<or> (s = JobRunning \<and> t = JobCleaning) \<or> (s = JobCleaning \<and> terminal_state t)"
  by (cases s; cases t)
    (simp_all add: job_edge_def ValidateJobTransition_def allowedJobTransitions_def
      JobState_String_def terminal_state_def)

lemma job_edge_rank: "job_edge s t \<Longrightarrow> job_rank s < job_rank t"
  by (cases s; cases t) (simp_all add: job_edge_iff terminal_state_def)

lemma terminal_no_edge: "terminal_state s \<Longrightarrow> \<not> job_edge s t"
  by (auto simp: job_edge_iff terminal_state_def)

lemma job_edge_trancl_rank: "job_edge\<^sup>+\<^sup>+ s t \<Longrightarrow> job_rank s < job_rank t"
  by (induction rule: tranclp_induct) (auto dest: job_edge_rank)

lemma job_path_from_terminal: "job_edge\<^sup>*\<^sup>* s t \<Longrightarrow> terminal_state s \<Longrightarrow> t = s"
  by (induction rule: rtranclp_induct) (auto dest: terminal_no_edge)

lemma job_path_to_terminal:
  "job_edge\<^sup>*\<^sup>* s t \<Longrightarrow> terminal_state t \<Longrightarrow> \<not> terminal_state s
    \<Longrightarrow> job_edge\<^sup>*\<^sup>* s JobCleaning \<and> job_edge JobCleaning t"
proof (induction rule: rtranclp_induct)
  case (step y z)
  then show ?case
    by (cases "y = JobCleaning") (auto simp: job_edge_iff terminal_state_def)
qed simp

end
