(* ===== verification/Events.thy ===== *)
theory Events
  imports Job_Transitions
begin

text \<open>
  The event envelope of \<^verbatim>\<open>manager-service/internal/events/schema.go\<close> and the factory
  methods of \<^verbatim>\<open>manager-service/internal/manager/event_emitter.go\<close>.  The values of
  \<^verbatim>\<open>uuid.New()\<close> and \<^verbatim>\<open>time.Now()\<close> are arguments of the builders.
\<close>

section \<open>Schema\<close>

definition SchemaVersion :: int where "SchemaVersion = 1"

datatype EventType =
  JobSubmitted | JobStateChanged | JobCancelRequested
| TaskIdleDetected | TaskAssigned | TaskHeartbeatReceived | TaskAttemptCompleted
| TaskAttemptFailed | TaskReaped
| SystemConfigUpdated | SystemReconcileTick
| EventDeadLetter | EventReplayRequested

definition EventType_String :: "EventType \<Rightarrow> string" where
  "EventType_String e = (case e of
     JobSubmitted \<Rightarrow> ''jobs.submitted''
   | JobStateChanged \<Rightarrow> ''jobs.state.changed''
   | JobCancelRequested \<Rightarrow> ''jobs.cancel.requested''
   | TaskIdleDetected \<Rightarrow> ''tasks.idle.detected''
   | TaskAssigned \<Rightarrow> ''tasks.assigned''
   | TaskHeartbeatReceived \<Rightarrow> ''tasks.heartbeat.received''
   | TaskAttemptCompleted \<Rightarrow> ''tasks.attempt.completed''
   | TaskAttemptFailed \<Rightarrow> ''tasks.attempt.failed''
   | TaskReaped \<Rightarrow> ''tasks.reaped''
   | SystemConfigUpdated \<Rightarrow> ''system.config.updated''
   | SystemReconcileTick \<Rightarrow> ''system.reconcile.tick''
   | EventDeadLetter \<Rightarrow> ''events.deadletter''
   | EventReplayRequested \<Rightarrow> ''events.replay.requested'')"

datatype AggregateType = AggregateTypeJob | AggregateTypeTask | AggregateTypeSystem

definition AggregateType_String :: "AggregateType \<Rightarrow> string" where
  "AggregateType_String a = (case a of
     AggregateTypeJob \<Rightarrow> ''job'' | AggregateTypeTask \<Rightarrow> ''task'' | AggregateTypeSystem \<Rightarrow> ''system'')"

text \<open>
  Payload structs, one constructor each; fields the builders never set keep
  their zero value and are given as arguments in the source's order.
\<close>

datatype payload =
  EmptyPayload
| JobSubmittedPayload uuid uri int int uri uri uri
| JobStateChangedPayload string string
| TaskAssignedPayload string string int "uri list"
| TaskAttemptCompletedPayload string "uri list" "int option"
| TaskAttemptFailedPayload string string
| TaskReapedPayload string string

record EventEnvelope =
  EventID :: uuid
  EvType :: EventType
  EvAggregateType :: AggregateType
  AggregateID :: uuid
  EvJobID :: uuid
  EvAttemptID :: "uuid option"
  EvLeaseID :: "uuid option"
  Sequence :: int
  EmittedAt :: seconds
  Producer :: string
  EvSchemaVersion :: int
  Payload :: payload

section \<open>Builders\<close>

definition job_event :: "string \<Rightarrow> EventType \<Rightarrow> uuid \<Rightarrow> seconds \<Rightarrow> uuid \<Rightarrow> payload \<Rightarrow> EventEnvelope" where
  "job_event producer ty eid now jobID p =
    \<lparr> EventID = eid, EvType = ty, EvAggregateType = AggregateTypeJob, AggregateID = jobID,
      EvJobID = jobID, EvAttemptID = None, EvLeaseID = None, Sequence = 0, EmittedAt = now,
      Producer = producer, EvSchemaVersion = SchemaVersion, Payload = p \<rparr>"

definition task_event ::
  "string \<Rightarrow> EventType \<Rightarrow> uuid \<Rightarrow> seconds \<Rightarrow> uuid \<Rightarrow> uuid \<Rightarrow> uuid option \<Rightarrow> payload \<Rightarrow> EventEnvelope" where
  "task_event producer ty eid now taskID jobID attemptID p =
    \<lparr> EventID = eid, EvType = ty, EvAggregateType = AggregateTypeTask, AggregateID = taskID,
      EvJobID = jobID, EvAttemptID = attemptID, EvLeaseID = None, Sequence = 0, EmittedAt = now,
      Producer = producer, EvSchemaVersion = SchemaVersion, Payload = p \<rparr>"

definition sched_producer :: string where "sched_producer = ''manager-scheduler''"

definition jobSubmitted :: "uuid \<Rightarrow> seconds \<Rightarrow> uuid \<Rightarrow> uuid \<Rightarrow> uri \<Rightarrow> int \<Rightarrow> int \<Rightarrow> EventEnvelope" where
  "jobSubmitted eid now jobID userID inputURI mTasks rTasks =
    job_event sched_producer JobSubmitted eid now jobID
      (JobSubmittedPayload userID inputURI mTasks rTasks [] [] [])"

definition jobStateChanged :: "uuid \<Rightarrow> seconds \<Rightarrow> uuid \<Rightarrow> string \<Rightarrow> string \<Rightarrow> EventEnvelope" where
  "jobStateChanged eid now jobID oldStatus newStatus =
    job_event sched_producer JobStateChanged eid now jobID (JobStateChangedPayload oldStatus newStatus)"

definition jobCancelRequested :: "uuid \<Rightarrow> seconds \<Rightarrow> uuid \<Rightarrow> EventEnvelope" where
  "jobCancelRequested eid now jobID =
    job_event sched_producer JobCancelRequested eid now jobID EmptyPayload"

definition taskAssigned :: "uuid \<Rightarrow> seconds \<Rightarrow> uuid \<Rightarrow> uuid \<Rightarrow> string \<Rightarrow> string \<Rightarrow> int \<Rightarrow> EventEnvelope" where
  "taskAssigned eid now taskID jobID taskType workerID leaseTTL =
    task_event sched_producer TaskAssigned eid now taskID jobID None
      (TaskAssignedPayload taskType workerID leaseTTL [])"

definition heartbeatReceived :: "uuid \<Rightarrow> seconds \<Rightarrow> uuid \<Rightarrow> uuid \<Rightarrow> uuid \<Rightarrow> EventEnvelope" where
  "heartbeatReceived eid now taskID jobID attemptID =
    task_event sched_producer TaskHeartbeatReceived eid now taskID jobID (Some attemptID) EmptyPayload"

definition attemptCompleted :: "uuid \<Rightarrow> seconds \<Rightarrow> uuid \<Rightarrow> uuid \<Rightarrow> uuid \<Rightarrow> string \<Rightarrow> EventEnvelope" where
  "attemptCompleted eid now taskID jobID attemptID workerID =
    task_event sched_producer TaskAttemptCompleted eid now taskID jobID (Some attemptID)
      (TaskAttemptCompletedPayload workerID [] None)"

definition attemptFailed :: "uuid \<Rightarrow> seconds \<Rightarrow> uuid \<Rightarrow> uuid \<Rightarrow> uuid \<Rightarrow> string \<Rightarrow> string \<Rightarrow> EventEnvelope" where
  "attemptFailed eid now taskID jobID attemptID workerID reason =
    task_event sched_producer TaskAttemptFailed eid now taskID jobID (Some attemptID)
      (TaskAttemptFailedPayload workerID reason)"

definition taskReaped :: "uuid \<Rightarrow> seconds \<Rightarrow> uuid \<Rightarrow> uuid \<Rightarrow> uuid \<Rightarrow> string \<Rightarrow> EventEnvelope" where
  "taskReaped eid now taskID jobID attemptID reason =
    task_event sched_producer TaskReaped eid now taskID jobID (Some attemptID)
      (TaskReapedPayload [] reason)"

end
