(* ===== verification/DDS.thy ===== *)
theory DDS
  imports Events "HOL-Library.List_Lexorder" "HOL-Library.Char_ord" "HOL-Library.Product_Lexorder"
begin

text \<open>
  The distributed data store: the tables of \<^verbatim>\<open>migrations/0001_initial_schema.sql\<close>
  with the row structs of \<^verbatim>\<open>manager-service/internal/models/dds.go\<close>, and one
  definition per SQL constant of \<^verbatim>\<open>manager-service/internal/manager/queries.go\<close> that
  the scheduler runs.  A table is the list of its rows in insertion order
  (which is the order of the serial keys), an UPDATE is
  \<^const>\<open>update_where\<close>, a COUNT is \<^const>\<open>count_where\<close>, and \<^verbatim>\<open>NOW()\<close> is the argument
  \<^verbatim>\<open>now\<close>.
\<close>

section \<open>Rows\<close>

datatype AttemptStatus = AttemptRunning | AttemptSuccess | AttemptFailed

record job_row =
  job_id :: uuid
  user_id :: uuid
  job_status :: JobState
  created_at :: seconds
  updated_at :: seconds
  job_replica :: int

record job_config =
  cfg_job :: uuid
  cfg_input_uri :: uri
  mapper_uri :: uri
  reducer_uri :: uri
  combiner_uri :: uri
  m_tasks :: int
  r_tasks :: int
  cfg_input_checksum :: string

record task_row =
  task_id :: uuid
  task_job :: uuid
  task_type :: TaskType
  task_status :: TaskState
  replica_index :: int
  current_attempt_id :: "uuid option"

record input_row =
  input_task :: uuid
  input_uri :: uri
  byte_start :: int
  byte_end :: int
  split_checksum :: string

record attempt_row =
  attempt_id :: uuid
  attempt_task :: uuid
  worker_id :: string
  lease_id :: uuid
  last_renewed_at :: seconds
  lease_ttl :: int
  start_time :: seconds
  end_time :: "seconds option"
  attempt_status :: AttemptStatus

record output_row =
  output_task :: uuid
  partition_index :: "int option"
  output_uri :: uri
  checksum :: string

record system_config =
  max_concurrent_pods :: int
  cpu_limit :: string
  memory_limit :: string
  worker_replicas :: int
  max_jobs_per_node :: int
  locality_key :: string
  locality_label_selector :: string
  config_updated_at :: seconds

record dds =
  jobs :: "job_row list"
  job_configs :: "job_config list"
  tasks :: "task_row list"
  task_inputs :: "input_row list"
  attempts :: "attempt_row list"
  task_outputs :: "output_row list"
  config :: "system_config option"
  outbox :: "EventEnvelope list"

text \<open>\<^verbatim>\<open>Job.IsTerminal\<close> of \<^verbatim>\<open>dds.go\<close>.\<close>

definition IsTerminal :: "job_row \<Rightarrow> bool" where
  "IsTerminal j \<longleftrightarrow>
    job_status j = JobCompleted \<or> job_status j = JobFailed \<or> job_status j = JobCancelled"

section \<open>Scheduling queries\<close>

definition QueryGetMaxConcurrentPods :: "dds \<Rightarrow> int option" where
  "QueryGetMaxConcurrentPods db = map_option max_concurrent_pods (config db)"

definition QueryCountRunningAttempts :: "dds \<Rightarrow> nat" where
  "QueryCountRunningAttempts db = count_where (\<lambda>a. attempt_status a = AttemptRunning) (attempts db)"

definition QueryCountFailedTasks :: "uuid \<Rightarrow> dds \<Rightarrow> nat" where
  "QueryCountFailedTasks j db = count_where (\<lambda>t. task_job t = j \<and> task_status t = Failed) (tasks db)"

definition idle_candidate :: "uuid \<Rightarrow> int \<Rightarrow> TaskType \<Rightarrow> task_row \<Rightarrow> bool" where
  "idle_candidate j r ty t \<longleftrightarrow>
    task_job t = j \<and> task_status t = Idle \<and> task_type t = ty \<and> (ty = ReduceTask \<or> replica_index t = r)"

definition QuerySelectIdleTask :: "uuid \<Rightarrow> int \<Rightarrow> TaskType \<Rightarrow> dds \<Rightarrow> task_row option" where
  "QuerySelectIdleTask j r ty db =
    (case sort_key (\<lambda>t. (replica_index t, task_id t)) (select_where (idle_candidate j r ty) (tasks db)) of
       [] \<Rightarrow> None
     | t # _ \<Rightarrow> Some t)"

definition QueryCountPendingTasksByType :: "uuid \<Rightarrow> TaskType \<Rightarrow> dds \<Rightarrow> nat" where
  "QueryCountPendingTasksByType j ty db =
    count_where (\<lambda>t. task_job t = j \<and> task_type t = ty \<and> task_status t \<noteq> Completed) (tasks db)"

definition QueryCountAllPendingTasks :: "uuid \<Rightarrow> dds \<Rightarrow> nat" where
  "QueryCountAllPendingTasks j db =
    count_where (\<lambda>t. task_job t = j \<and> task_status t \<noteq> Completed) (tasks db)"

section \<open>Task mutation queries\<close>

definition upd_tasks :: "(task_row \<Rightarrow> bool) \<Rightarrow> (task_row \<Rightarrow> task_row) \<Rightarrow> dds \<Rightarrow> dds" where
  "upd_tasks P f db = db\<lparr>tasks := update_where P f (tasks db)\<rparr>"

definition upd_attempts :: "(attempt_row \<Rightarrow> bool) \<Rightarrow> (attempt_row \<Rightarrow> attempt_row) \<Rightarrow> dds \<Rightarrow> dds" where
  "upd_attempts P f db = db\<lparr>attempts := update_where P f (attempts db)\<rparr>"

definition upd_jobs :: "(job_row \<Rightarrow> bool) \<Rightarrow> (job_row \<Rightarrow> job_row) \<Rightarrow> dds \<Rightarrow> dds" where
  "upd_jobs P f db = db\<lparr>jobs := update_where P f (jobs db)\<rparr>"

definition QueryUpdateTaskInProgress :: "uuid \<Rightarrow> uuid \<Rightarrow> dds \<Rightarrow> nat \<times> dds" where
  "QueryUpdateTaskInProgress aid tid db =
    (count_where (\<lambda>t. task_id t = tid \<and> task_status t = Idle) (tasks db),
     upd_tasks (\<lambda>t. task_id t = tid \<and> task_status t = Idle)
       (\<lambda>t. t\<lparr>task_status := InProgress, current_attempt_id := Some aid\<rparr>) db)"

definition QueryInsertAttempt ::
  "uuid \<Rightarrow> uuid \<Rightarrow> string \<Rightarrow> uuid \<Rightarrow> int \<Rightarrow> seconds \<Rightarrow> dds \<Rightarrow> dds option" where
  "QueryInsertAttempt aid tid w lid ttl now db =
    (if aid \<in> set (map attempt_id (attempts db)) \<or> \<not> ttl > 0 then None
     else Some (db\<lparr>attempts := attempts db @
       [\<lparr> attempt_id = aid, attempt_task = tid, worker_id = w, lease_id = lid,
          last_renewed_at = now, lease_ttl = ttl, start_time = now, end_time = None,
          attempt_status = AttemptRunning \<rparr>]\<rparr>))"

definition QueryCompleteTask :: "uuid \<Rightarrow> dds \<Rightarrow> dds" where
  "QueryCompleteTask tid =
    upd_tasks (\<lambda>t. task_id t = tid) (\<lambda>t. t\<lparr>task_status := Completed, current_attempt_id := None\<rparr>)"

definition QuerySucceedAttempt :: "uuid \<Rightarrow> seconds \<Rightarrow> dds \<Rightarrow> dds" where
  "QuerySucceedAttempt aid now =
    upd_attempts (\<lambda>a. attempt_id a = aid)
      (\<lambda>a. a\<lparr>attempt_status := AttemptSuccess, end_time := Some now\<rparr>)"

definition QueryFailAttempt :: "uuid \<Rightarrow> seconds \<Rightarrow> dds \<Rightarrow> dds" where
  "QueryFailAttempt aid now =
    upd_attempts (\<lambda>a. attempt_id a = aid)
      (\<lambda>a. a\<lparr>attempt_status := AttemptFailed, end_time := Some now\<rparr>)"

definition QueryUpdateTaskStatus :: "TaskState \<Rightarrow> uuid \<Rightarrow> dds \<Rightarrow> dds" where
  "QueryUpdateTaskStatus s tid =
    upd_tasks (\<lambda>t. task_id t = tid) (\<lambda>t. t\<lparr>task_status := s, current_attempt_id := None\<rparr>)"

definition QueryBulkFailNonCompletedTasksByJob :: "uuid \<Rightarrow> dds \<Rightarrow> dds" where
  "QueryBulkFailNonCompletedTasksByJob j =
    upd_tasks (\<lambda>t. task_job t = j \<and> task_status t \<noteq> Completed) (\<lambda>t. t\<lparr>task_status := Failed\<rparr>)"

text \<open>
  \<^verbatim>\<open>QueryInsertOutputBulkBase\<close> followed by the value tuples built in
  \<^verbatim>\<open>CompleteTask\<close>: the \<^verbatim>\<open>i\<close>-th URI gets partition index \<^verbatim>\<open>i\<close>.
\<close>

definition QueryInsertOutputBulk :: "uuid \<Rightarrow> uri list \<Rightarrow> string list \<Rightarrow> dds \<Rightarrow> dds" where
  "QueryInsertOutputBulk tid uris checksums db =
    db\<lparr>task_outputs := task_outputs db @
      map (\<lambda>i. \<lparr> output_task = tid, partition_index = Some (int i),
                 output_uri = uris ! i, checksum = checksums ! i \<rparr>) [0..<length uris]\<rparr>"

section \<open>Shuffle input queries\<close>

definition map_done :: "dds \<Rightarrow> uuid \<Rightarrow> output_row \<Rightarrow> bool" where
  "map_done db j o1 \<longleftrightarrow>
    (\<exists>m\<in>set (tasks db). task_id m = output_task o1 \<and> task_job m = j \<and> task_type m = MapTask
        \<and> task_status m = Completed)"

definition feeds :: "dds \<Rightarrow> task_row \<Rightarrow> output_row \<Rightarrow> bool" where
  "feeds db rt o1 \<longleftrightarrow>
    map_done db (task_job rt) o1
    \<and> (partition_index o1 = None \<or> partition_index o1 = Some (replica_index rt))"

definition QueryGetReduceTaskInputs :: "task_row \<Rightarrow> dds \<Rightarrow> (int \<times> uri \<times> string) list" where
  "QueryGetReduceTaskInputs rt db =
    map (\<lambda>o1. (case partition_index o1 of None \<Rightarrow> 0 | Some p \<Rightarrow> p, output_uri o1, checksum o1))
      (select_where (feeds db rt) (task_outputs db))"

definition empty_reduce :: "dds \<Rightarrow> uuid \<Rightarrow> task_row \<Rightarrow> bool" where
  "empty_reduce db j t \<longleftrightarrow>
    task_job t = j \<and> task_type t = ReduceTask \<and> task_status t = Idle
    \<and> \<not> (\<exists>o1\<in>set (task_outputs db). feeds db t o1)"

definition QueryCompleteEmptyReduceTasks :: "uuid \<Rightarrow> dds \<Rightarrow> uuid list \<times> dds" where
  "QueryCompleteEmptyReduceTasks j db =
    (map task_id (select_where (empty_reduce db j) (tasks db)),
     upd_tasks (empty_reduce db j) (\<lambda>t. t\<lparr>task_status := Completed, current_attempt_id := None\<rparr>) db)"

definition QueryGetTaskInputs :: "uuid \<Rightarrow> dds \<Rightarrow> input_row list" where
  "QueryGetTaskInputs tid db = select_where (\<lambda>i. input_task i = tid) (task_inputs db)"

definition QueryGetJobConfigByTask :: "uuid \<Rightarrow> dds \<Rightarrow> job_config option" where
  "QueryGetJobConfigByTask tid db =
    find_row (\<lambda>c. \<exists>t\<in>set (tasks db). task_job t = cfg_job c \<and> task_id t = tid) (job_configs db)"

definition outputs_of_type :: "TaskType \<Rightarrow> uuid \<Rightarrow> dds \<Rightarrow> uri list" where
  "outputs_of_type ty j db = map output_uri (select_where
    (\<lambda>o1. \<exists>t\<in>set (tasks db). task_id t = output_task o1 \<and> task_job t = j \<and> task_type t = ty
        \<and> task_status t = Completed) (task_outputs db))"

definition QueryGetMapOutputs :: "uuid \<Rightarrow> dds \<Rightarrow> uri list" where
  "QueryGetMapOutputs = outputs_of_type MapTask"

definition QueryGetReduceOutputs :: "uuid \<Rightarrow> dds \<Rightarrow> uri list" where
  "QueryGetReduceOutputs = outputs_of_type ReduceTask"

section \<open>Lease queries\<close>

definition QuerySelectTaskForUpdate :: "uuid \<Rightarrow> dds \<Rightarrow> task_row option" where
  "QuerySelectTaskForUpdate tid db = find_row (\<lambda>t. task_id t = tid) (tasks db)"

definition QueryCheckLeaseValid :: "uuid \<Rightarrow> uuid \<Rightarrow> int \<Rightarrow> seconds \<Rightarrow> dds \<Rightarrow> bool option" where
  "QueryCheckLeaseValid aid lid skew now db =
    map_option (\<lambda>a. lease_id a = lid \<and> last_renewed_at a + (lease_ttl a + skew) \<ge> now)
      (find_row (\<lambda>a. attempt_id a = aid) (attempts db))"

definition QueryRenewLease :: "uuid \<Rightarrow> seconds \<Rightarrow> dds \<Rightarrow> dds" where
  "QueryRenewLease aid now =
    upd_attempts (\<lambda>a. attempt_id a = aid) (\<lambda>a. a\<lparr>last_renewed_at := now\<rparr>)"

definition QueryCountAttemptsByTask :: "uuid \<Rightarrow> dds \<Rightarrow> nat" where
  "QueryCountAttemptsByTask tid db = count_where (\<lambda>a. attempt_task a = tid) (attempts db)"

section \<open>Recovery queries\<close>

definition task_in_job :: "dds \<Rightarrow> uuid \<Rightarrow> attempt_row \<Rightarrow> bool" where
  "task_in_job db j a \<longleftrightarrow> (\<exists>t\<in>set (tasks db). task_id t = attempt_task a \<and> task_job t = j)"

definition job_on_replica :: "dds \<Rightarrow> int \<Rightarrow> uuid \<Rightarrow> bool" where
  "job_on_replica db r j \<longleftrightarrow> (\<exists>jr\<in>set (jobs db). job_id jr = j \<and> job_replica jr = r)"

definition QuerySelectRunningAttemptIDsByJob :: "uuid \<Rightarrow> dds \<Rightarrow> uuid list" where
  "QuerySelectRunningAttemptIDsByJob j db =
    map attempt_id (select_where (\<lambda>a. task_in_job db j a \<and> attempt_status a = AttemptRunning) (attempts db))"

definition QueryFailRunningAttemptsByJob :: "uuid \<Rightarrow> seconds \<Rightarrow> dds \<Rightarrow> dds" where
  "QueryFailRunningAttemptsByJob j now db =
    upd_attempts (\<lambda>a. task_in_job db j a \<and> attempt_status a = AttemptRunning)
      (\<lambda>a. a\<lparr>attempt_status := AttemptFailed, end_time := Some now\<rparr>) db"

definition QueryFailRunningAttemptsByReplica :: "int \<Rightarrow> seconds \<Rightarrow> dds \<Rightarrow> dds" where
  "QueryFailRunningAttemptsByReplica r now db =
    upd_attempts (\<lambda>a. attempt_status a = AttemptRunning
        \<and> (\<exists>t\<in>set (tasks db). task_id t = attempt_task a \<and> job_on_replica db r (task_job t)))
      (\<lambda>a. a\<lparr>attempt_status := AttemptFailed, end_time := Some now\<rparr>) db"

definition QueryResetTasksForReplica :: "int \<Rightarrow> dds \<Rightarrow> dds" where
  "QueryResetTasksForReplica r db =
    upd_tasks (\<lambda>t. task_status t = InProgress \<and> job_on_replica db r (task_job t))
      (\<lambda>t. t\<lparr>task_status := Idle, current_attempt_id := None\<rparr>) db"

record staleRec =
  sr_task :: uuid
  sr_attempt :: uuid
  sr_job :: uuid
  sr_attemptCount :: nat
  sr_lastRenewedAt :: seconds
  sr_leaseTTL :: int

definition QuerySelectStaleTasks :: "int \<Rightarrow> dds \<Rightarrow> staleRec list" where
  "QuerySelectStaleTasks r db = concat (map (\<lambda>t. concat (map (\<lambda>a.
      if current_attempt_id t = Some (attempt_id a) \<and> task_status t = InProgress
         \<and> attempt_status a = AttemptRunning \<and> job_on_replica db r (task_job t)
      then [\<lparr> sr_task = task_id t, sr_attempt = attempt_id a, sr_job = task_job t,
              sr_attemptCount = QueryCountAttemptsByTask (task_id t) db,
              sr_lastRenewedAt = last_renewed_at a, sr_leaseTTL = lease_ttl a \<rparr>]
      else []) (attempts db))) (tasks db))"

section \<open>Job queries\<close>

definition find_job :: "uuid \<Rightarrow> dds \<Rightarrow> job_row option" where
  "find_job j db = find_row (\<lambda>r. job_id r = j) (jobs db)"

definition QueryGetJobStatusForUpdate :: "uuid \<Rightarrow> dds \<Rightarrow> JobState option" where
  "QueryGetJobStatusForUpdate j db = map_option job_status (find_job j db)"

definition QueryUpdateJobStatus :: "uuid \<Rightarrow> JobState \<Rightarrow> seconds \<Rightarrow> dds \<Rightarrow> dds" where
  "QueryUpdateJobStatus j s now =
    upd_jobs (\<lambda>r. job_id r = j) (\<lambda>r. r\<lparr>job_status := s, updated_at := now\<rparr>)"

definition QuerySelectCleaningJobs :: "dds \<Rightarrow> uuid list" where
  "QuerySelectCleaningJobs db = map job_id (select_where (\<lambda>r. job_status r = JobCleaning) (jobs db))"

definition QueryInsertJob :: "uuid \<Rightarrow> uuid \<Rightarrow> int \<Rightarrow> seconds \<Rightarrow> dds \<Rightarrow> dds" where
  "QueryInsertJob j u r now db =
    (if j \<in> set (map job_id (jobs db)) then db
     else db\<lparr>jobs := jobs db @ [\<lparr> job_id = j, user_id = u, job_status = JobPending,
            created_at = now, updated_at = now, job_replica = r \<rparr>]\<rparr>)"

definition QueryInsertJobConfig :: "job_config \<Rightarrow> dds \<Rightarrow> dds" where
  "QueryInsertJobConfig c db =
    (if cfg_job c \<in> set (map cfg_job (job_configs db)) then db
     else db\<lparr>job_configs := job_configs db @ [c]\<rparr>)"

text \<open>
  The inserts below can violate a constraint of the schema (a duplicate key, a
  negative replica index, an inverted byte range); the statement then fails.
\<close>

definition QueryInsertTask :: "uuid \<Rightarrow> uuid \<Rightarrow> TaskType \<Rightarrow> int \<Rightarrow> dds \<Rightarrow> dds option" where
  "QueryInsertTask tid j ty r db =
    (if tid \<in> set (map task_id (tasks db)) \<or> r < 0 then None
     else Some (db\<lparr>tasks := tasks db @
       [\<lparr> task_id = tid, task_job = j, task_type = ty, task_status = Idle, replica_index = r,
          current_attempt_id = None \<rparr>]\<rparr>))"

definition QueryInsertTaskInput :: "input_row \<Rightarrow> dds \<Rightarrow> dds option" where
  "QueryInsertTaskInput i db =
    (if byte_start i < 0 \<or> byte_end i < byte_start i then None
     else Some (db\<lparr>task_inputs := task_inputs db @ [i]\<rparr>))"

definition QueryUpsertSystemConfig :: "system_config \<Rightarrow> dds \<Rightarrow> dds option" where
  "QueryUpsertSystemConfig c db =
    (if max_concurrent_pods c > 0 \<and> worker_replicas c > 0 \<and> max_jobs_per_node c > 0
     then Some (db\<lparr>config := Some c\<rparr>) else None)"

definition emit :: "EventEnvelope \<Rightarrow> dds \<Rightarrow> dds" where
  "emit e db = db\<lparr>outbox := outbox db @ [e]\<rparr>"

section \<open>Row lookup by key\<close>

interpretation task_tab: keyed_rows task_id "\<lambda>f. \<forall>t. task_id (f t) = task_id t"
  by unfold_locales simp

interpretation attempt_tab: keyed_rows attempt_id "\<lambda>f. \<forall>a. attempt_id (f a) = attempt_id a"
  by unfold_locales simp

interpretation job_tab: keyed_rows job_id "\<lambda>f. \<forall>r. job_id (f r) = job_id r"
  by unfold_locales simp

lemma idle_task_SomeD:
  "QuerySelectIdleTask j r ty db = Some t \<Longrightarrow> t \<in> set (tasks db) \<and> idle_candidate j r ty t"
  by (auto simp: QuerySelectIdleTask_def dest: sort_key_ConsD split: list.splits)

lemma idle_task_None_iff:
  "QuerySelectIdleTask j r ty db = None \<longleftrightarrow> (\<forall>t\<in>set (tasks db). \<not> idle_candidate j r ty t)"
proof -
  have "QuerySelectIdleTask j r ty db = None \<longleftrightarrow>
      sort_key (\<lambda>t. (replica_index t, task_id t))
        (select_where (idle_candidate j r ty) (tasks db)) = []"
    unfolding QuerySelectIdleTask_def by (simp del: sort_key_Nil_iff split: list.split)
  then show ?thesis by (simp add: select_where_def filter_empty_conv)
qed

lemma idle_task_least:
  "QuerySelectIdleTask j r ty db = Some t \<Longrightarrow> u \<in> set (tasks db) \<Longrightarrow> idle_candidate j r ty u
    \<Longrightarrow> (replica_index t, task_id t) \<le> (replica_index u, task_id u)"
  by (fastforce simp: QuerySelectIdleTask_def dest: sort_key_ConsD split: list.splits)

end
