(* ===== verification/Routing.thy ===== *)
theory Routing
  imports Prelude "HOL-Library.Word" "HOL-Library.Signed_Division"
begin

text \<open>
  The two uses of the 32-bit FNV-1a hash: \<^verbatim>\<open>ComputeReplicaIndex\<close> of
  \<^verbatim>\<open>manager-service/internal/manager/routing.go\<close> picks the manager replica of a job, and
  \<^verbatim>\<open>hashPartition\<close> of \<^verbatim>\<open>worker-service/internal/worker/map.go\<close> picks the reduce
  partition of a record key.  All arithmetic is kept at its width.
\<close>

unbundle bit_operations_syntax

section \<open>Definitions\<close>

definition fnv_offset :: "32 word" where "fnv_offset = 2166136261"
definition fnv_prime :: "32 word" where "fnv_prime = 16777619"

text \<open>One round of the loop body of \<^verbatim>\<open>hashPartition\<close> (and of \<^verbatim>\<open>fnv.New32a().Write\<close>).\<close>

definition fnv_step :: "32 word \<Rightarrow> char \<Rightarrow> 32 word" where
  "fnv_step h c = (h XOR of_nat (of_char c)) * fnv_prime"

definition fnv1a :: "string \<Rightarrow> 32 word" where
  "fnv1a key = foldl fnv_step fnv_offset key"

datatype route_error = ErrTotalReplicas | DivideByZero

definition ComputeReplicaIndex :: "string \<Rightarrow> int \<Rightarrow> (route_error, int) result" where
  "ComputeReplicaIndex jobID totalReplicas =
    (if totalReplicas \<le> 0 then Inl ErrTotalReplicas
     else let n = (word_of_int totalReplicas :: 32 word) in
       if n = 0 then Inl DivideByZero
       else Inr (uint (fnv1a jobID mod n)))"

definition hashPartition :: "string \<Rightarrow> int \<Rightarrow> (route_error, int) result" where
  "hashPartition key R =
    (if R = 0 then Inl DivideByZero
     else Inr (uint (fnv1a key AND 0x7FFFFFFF) smod R))"

section \<open>Lemmas\<close>

lemma fnv1a_Nil [simp]: "fnv1a [] = fnv_offset"
  by (simp add: fnv1a_def)

lemma fnv1a_snoc: "fnv1a (k @ [c]) = fnv_step (fnv1a k) c"
  by (simp add: fnv1a_def)

lemma uint_mod_less: "n \<noteq> 0 \<Longrightarrow> uint ((h::32 word) mod n) < uint n"
  by (metis word_mod_less_divisor word_greater_zero_iff word_less_def)

lemma uint_of_small_int: "0 < n \<Longrightarrow> n < 2 ^ 32 \<Longrightarrow> uint (word_of_int n :: 32 word) = n"
  by (simp add: uint_word_of_int)

lemma smod_nonneg: "0 \<le> (a::int) \<Longrightarrow> 0 < b \<Longrightarrow> a smod b = a mod b"
  by (cases "a = 0") (simp_all add: signed_modulo_int_def)

lemma mask31: "uint ((h::32 word) AND 0x7FFFFFFF) = uint h mod 2 ^ 31"
proof -
  have "h AND 0x7FFFFFFF = take_bit 31 h"
    by (simp add: take_bit_eq_mask mask_eq_exp_minus_1)
  then show ?thesis
    by (metis unsigned_take_bit_eq take_bit_eq_mod)
qed

end
