(* ===== verification/Scheduler.thy ===== *)
theory Scheduler
  imports DDS Routing
begin

text \<open>
  The scheduler of \<^verbatim>\<open>manager-service/internal/manager/scheduler.go\<close>.  The record
  \<^verbatim>\<open>scheduler\<close> is the struct \<^verbatim>\<open>Scheduler\<close> of one manager replica; every method is
  a function of that record and of the shared store.  A method that returns an
  error before its commit leaves the store as it was (\<^verbatim>\<open>defer tx.Rollback()\<close>).
  The arguments \<^verbatim>\<open>now\<close> and \<^verbatim>\<open>ids\<close> are the clock and the successive values of
  \<^verbatim>\<open>uuid.New()\<close>; \<^verbatim>\<open>parse\<close> is \<^verbatim>\<open>uuid.Parse\<close> of the package google/uuid.  Calls to the
  worker orchestrator are recorded in the field \<^verbatim>\<open>orch_calls\<close>.
\<close>

section \<open>State\<close>

definition MaxTaskAttempts :: nat where "MaxTaskAttempts = 3"
definition defaultReaperPoolSize :: int where "defaultReaperPoolSize = 4"
definition DefaultMaxConcurrentPods :: int where "DefaultMaxConcurrentPods = 10"
definition cleanupReconcileBatchSize :: int where "cleanupReconcileBatchSize = 64"
definition maxCleanupRetries :: nat where "maxCleanupRetries = 10"

datatype sched_error =
  ErrNoIdleTasks | ErrJobCompleted | ErrTaskNotFound | ErrInvalidStateTransition | ErrJobCancelling
| ErrEmptyJobID | ErrEmptyWorkerID | ErrStaleAttempt | ErrExpiredLease | ErrOutputMismatch
| ErrJobFailed | ErrQuotaExceeded
| ErrTransition transition_error | ErrInvalidID string | ErrWrongReplica int int | ErrUnexpectedJob uuid
| ErrNoRows | ErrConstraint | ErrInvalidRequest string | ErrRoute route_error

datatype orch_call = OrchCancelJob uuid | OrchEnsureWorkerPool uuid int string

record scheduler =
  replicaIndex :: int
  totalReplicas :: int
  managerAddr :: string
  leaseTTL :: int
  leaseClockSkewSeconds :: int
  staging :: bool
  pendingCleanup :: "(uuid \<times> JobState option) list"
  cleanupRetries :: "uuid \<Rightarrow> nat"
  heartbeats :: "uuid \<rightharpoonup> seconds"
  heartbeatEventSampleN :: nat
  heartbeatEventCounter :: "64 word"
  orch_calls :: "orch_call list"

definition NewScheduler ::
  "bool \<Rightarrow> int \<Rightarrow> int \<Rightarrow> bool \<Rightarrow> bool \<Rightarrow> string \<Rightarrow> int \<Rightarrow> bool \<Rightarrow> (sched_error, scheduler) result" where
  "NewScheduler dbNil replica nrep orchNil dispNil addr ttl stg =
    (if dbNil then Inl (ErrInvalidRequest ''db cannot be nil'')
     else let total' = (if nrep \<le> 0 then 1 else nrep) in
     if orchNil then Inl (ErrInvalidRequest ''orchestrator cannot be nil'')
     else if dispNil then Inl (ErrInvalidRequest ''dispatcher cannot be nil'')
     else Inr \<lparr> replicaIndex = replica, totalReplicas = total', managerAddr = addr,
        leaseTTL = (if ttl \<le> 0 then 30 else ttl), leaseClockSkewSeconds = 5, staging = stg,
        pendingCleanup = [], cleanupRetries = (\<lambda>_. 0), heartbeats = Map.empty,
        heartbeatEventSampleN = 0, heartbeatEventCounter = 0, orch_calls = [] \<rparr>)"

definition SetLeaseClockSkewSeconds :: "int \<Rightarrow> scheduler \<Rightarrow> scheduler" where
  "SetLeaseClockSkewSeconds n s = s\<lparr>leaseClockSkewSeconds := (if n < 0 then 0 else n)\<rparr>"

definition SetHeartbeatEventSampleN :: "int \<Rightarrow> scheduler \<Rightarrow> scheduler" where
  "SetHeartbeatEventSampleN n s = s\<lparr>heartbeatEventSampleN := nat (if n < 1 then 1 else n)\<rparr>"

definition shouldEmitHeartbeatEvent :: "scheduler \<Rightarrow> bool \<times> scheduler" where
  "shouldEmitHeartbeatEvent s =
    (let n = heartbeatEventSampleN s in
     if n \<le> 1 then (True, s)
     else let c = heartbeatEventCounter s + 1 in
       (unat c mod n = 0, s\<lparr>heartbeatEventCounter := c\<rparr>))"

record TaskInputSplit =
  is_InputURI :: uri
  is_ByteStart :: int
  is_ByteEnd :: int
  is_SplitChecksum :: string

record TaskOutputRef =
  or_PartitionIndex :: int
  or_OutputURI :: uri
  or_Checksum :: string

record Task =
  t_ID :: uuid
  t_JobID :: uuid
  t_Type :: TaskType
  t_State :: TaskState
  t_workerID :: string
  t_InputFile :: uri
  t_ByteStart :: int
  t_ByteEnd :: int
  t_CodeURI :: uri
  t_CombinerURI :: uri
  t_InputChecksum :: string
  t_InputSplits :: "TaskInputSplit list"
  t_ShuffleInputs :: "TaskOutputRef list"
  t_ReplicaIndex :: int
  t_ReducePartition :: int
  t_TotalReducers :: int
  t_startTime :: seconds
  t_ActiveAttemptID :: uuid
  t_LeaseID :: uuid
  t_LastHeartbeat :: seconds

definition zero_Task :: Task where
  "zero_Task = \<lparr> t_ID = [], t_JobID = [], t_Type = MapTask, t_State = Idle, t_workerID = [],
     t_InputFile = [], t_ByteStart = 0, t_ByteEnd = 0, t_CodeURI = [], t_CombinerURI = [],
     t_InputChecksum = [], t_InputSplits = [], t_ShuffleInputs = [], t_ReplicaIndex = 0,
     t_ReducePartition = 0, t_TotalReducers = 0, t_startTime = 0, t_ActiveAttemptID = [],
     t_LeaseID = [], t_LastHeartbeat = 0 \<rparr>"

section \<open>Quota\<close>

record QuotaSnapshot =
  MaxPods :: int
  ActivePods :: int
  Available :: int

definition readQuotaSnapshotTx :: "dds \<Rightarrow> QuotaSnapshot" where
  "readQuotaSnapshotTx db =
    (let m = (case QueryGetMaxConcurrentPods db of None \<Rightarrow> DefaultMaxConcurrentPods | Some m \<Rightarrow> m);
         a = int (QueryCountRunningAttempts db)
     in \<lparr> MaxPods = m, ActivePods = a, Available = (if m > a then m - a else 0) \<rparr>)"

definition enforceQuotaTx :: "dds \<Rightarrow> (sched_error, unit) result" where
  "enforceQuotaTx db =
    (if Available (readQuotaSnapshotTx db) \<le> 0 then Inl ErrQuotaExceeded else Inr ())"

section \<open>Assignment\<close>

definition hydrateTaskMetadata :: "task_row \<Rightarrow> Task \<Rightarrow> dds \<Rightarrow> (sched_error, Task) result" where
  "hydrateTaskMetadata row t db =
    (case QueryGetJobConfigByTask (t_ID t) db of
       None \<Rightarrow> Inl ErrNoRows
     | Some c \<Rightarrow>
       let t1 = t\<lparr> t_TotalReducers := r_tasks c, t_CombinerURI := combiner_uri c,
                   t_InputChecksum := cfg_input_checksum c,
                   t_CodeURI := (if t_Type t = MapTask then mapper_uri c else reducer_uri c) \<rparr>
       in if t_Type t = ReduceTask then
            Inr (t1\<lparr> t_ShuffleInputs := map (\<lambda>(p, u, k).
                   \<lparr> or_PartitionIndex = p, or_OutputURI = u, or_Checksum = k \<rparr>)
                 (QueryGetReduceTaskInputs row db) \<rparr>)
          else let splits = map (\<lambda>i. \<lparr> is_InputURI = input_uri i, is_ByteStart = byte_start i,
                   is_ByteEnd = byte_end i, is_SplitChecksum = split_checksum i \<rparr>)
                 (QueryGetTaskInputs (t_ID t) db);
                 t2 = t1\<lparr> t_InputSplits := splits \<rparr>
          in Inr (case splits of [] \<Rightarrow> t2
             | s0 # _ \<Rightarrow> t2\<lparr> t_InputFile := is_InputURI s0, t_ByteStart := is_ByteStart s0,
                            t_ByteEnd := is_ByteEnd s0 \<rparr>))"

definition tryAssignTask ::
  "scheduler \<Rightarrow> dds \<Rightarrow> seconds \<Rightarrow> (nat \<Rightarrow> uuid) \<Rightarrow> uuid \<Rightarrow> string \<Rightarrow> TaskType
    \<Rightarrow> (sched_error, Task \<times> scheduler \<times> dds) result" where
  "tryAssignTask s db now ids j w ty =
    (case QuerySelectIdleTask j (replicaIndex s) ty db of
       None \<Rightarrow> Inl ErrNoIdleTasks
     | Some row \<Rightarrow>
       let aid = ids 0; lid = ids 1;
           t = zero_Task\<lparr> t_ID := task_id row, t_JobID := task_job row, t_ReplicaIndex := replica_index row,
                 t_Type := task_type row,
                 t_ReducePartition := (if task_type row = ReduceTask then replica_index row else 0),
                 t_ActiveAttemptID := aid, t_LeaseID := lid, t_State := InProgress,
                 t_startTime := now, t_LastHeartbeat := now \<rparr>
       in if task_job row \<noteq> j then Inl (ErrUnexpectedJob (task_job row))
       else case hydrateTaskMetadata row t db of
         Inl e \<Rightarrow> Inl e
       | Inr t1 \<Rightarrow>
         (case enforceQuotaTx db of
            Inl e \<Rightarrow> Inl e
          | Inr _ \<Rightarrow>
            let (n, db1) = QueryUpdateTaskInProgress aid (task_id row) db in
            if n = 0 then Inl ErrInvalidStateTransition
            else case QueryInsertAttempt aid (task_id row) w lid (leaseTTL s) now db1 of
              None \<Rightarrow> Inl ErrConstraint
            | Some db2 \<Rightarrow> Inr (t1, s\<lparr>heartbeats := (heartbeats s)(aid \<mapsto> now)\<rparr>, db2)))"

definition autoCompleteEmptyReducesTx :: "dds \<Rightarrow> seconds \<Rightarrow> uuid \<Rightarrow> bool \<times> dds" where
  "autoCompleteEmptyReducesTx db now j =
    (let (done, db1) = QueryCompleteEmptyReduceTasks j db in
     if length done = 0 then (False, db1)
     else if QueryCountAllPendingTasks j db1 = 0 then (True, QueryUpdateJobStatus j JobCleaning now db1)
     else (False, db1))"

definition enqueueCleanup :: "uuid \<Rightarrow> JobState option \<Rightarrow> scheduler \<Rightarrow> scheduler" where
  "enqueueCleanup j st s =
    (if TrimSpace j = [] then s
     else s\<lparr> pendingCleanup := AList.update j st (pendingCleanup s),
             cleanupRetries := (cleanupRetries s)(j := cleanupRetries s j + 1) \<rparr>)"

definition GetNextTask ::
  "(string \<Rightarrow> uuid option) \<Rightarrow> scheduler \<Rightarrow> dds \<Rightarrow> seconds \<Rightarrow> (nat \<Rightarrow> uuid) \<Rightarrow> string \<Rightarrow> string
    \<Rightarrow> (sched_error, Task) result \<times> scheduler \<times> dds" where
  "GetNextTask parse s db now ids jobID w =
    (if jobID = [] then (Inl ErrEmptyJobID, s, db)
     else case parse jobID of None \<Rightarrow> (Inl (ErrInvalidID jobID), s, db)
     | Some j \<Rightarrow>
     if w = [] then (Inl ErrEmptyWorkerID, s, db)
     else if QueryCountFailedTasks j db > 0 then (Inl ErrJobFailed, s, db)
     else case find_job j db of None \<Rightarrow> (Inl ErrNoRows, s, db)
     | Some jr \<Rightarrow>
     if job_replica jr \<noteq> replicaIndex s then (Inl (ErrWrongReplica (job_replica jr) (replicaIndex s)), s, db)
     else case tryAssignTask s db now ids j w MapTask of
       Inr (t, s1, db1) \<Rightarrow>
         (Inr t, s1,
          emit (taskAssigned (ids 2) now (t_ID t) (t_JobID t)
                  (if t_Type t = ReduceTask then ''Reduce'' else ''Map'') w (leaseTTL s))
            (QueryUpdateJobStatus j JobRunning now db1))
     | Inl e \<Rightarrow>
     if e \<noteq> ErrNoIdleTasks then (Inl e, s, db)
     else if QueryCountPendingTasksByType j MapTask db > 0 then (Inl ErrNoIdleTasks, s, db)
     else let (nowDone, db1) = autoCompleteEmptyReducesTx db now j in
     case tryAssignTask s db1 now ids j w ReduceTask of
       Inr (t, s2, db2) \<Rightarrow> (Inr t, s2, QueryUpdateJobStatus j JobRunning now db2)
     | Inl e2 \<Rightarrow>
     if e2 \<noteq> ErrNoIdleTasks then (Inl e2, s, db)
     else
       ((if QueryCountPendingTasksByType j ReduceTask db1 > 0 then Inl ErrNoIdleTasks else Inl ErrJobCompleted),
        (if nowDone then enqueueCleanup j (Some JobCompleted) s else s), db1))"

section \<open>Scheduling a job\<close>

record ScheduleTask =
  st_TaskID :: string
  st_TaskType :: string
  st_ReplicaIndex :: int
  st_InputSplits :: "TaskInputSplit list"

record ScheduleJobRequest =
  rq_JobID :: string
  rq_UserID :: string
  rq_InputURI :: uri
  rq_MapperURI :: uri
  rq_ReducerURI :: uri
  rq_CombinerURI :: uri
  rq_MTasks :: int
  rq_RTasks :: int
  rq_InputChecksum :: string
  rq_Tasks :: "ScheduleTask list"

definition ValidateScheduleJobRequest ::
  "(string \<Rightarrow> uuid option) \<Rightarrow> ScheduleJobRequest \<Rightarrow> (sched_error, unit) result" where
  "ValidateScheduleJobRequest parse req =
    (let mapCount = count_where (\<lambda>t. st_TaskType t = ''Map'') (rq_Tasks req);
         reduceCount = count_where (\<lambda>t. st_TaskType t = ''Reduce'') (rq_Tasks req) in
     if parse (rq_JobID req) = None then Inl (ErrInvalidRequest ''invalid job id'')
     else if parse (rq_UserID req) = None then Inl (ErrInvalidRequest ''invalid user id'')
     else if TrimSpace (rq_InputURI req) = [] then Inl (ErrInvalidRequest ''input URI cannot be empty'')
     else if TrimSpace (rq_MapperURI req) = [] then Inl (ErrInvalidRequest ''mapper URI cannot be empty'')
     else if TrimSpace (rq_ReducerURI req) = [] then Inl (ErrInvalidRequest ''reducer URI cannot be empty'')
     else if rq_MTasks req < 1 \<or> rq_RTasks req < 1 then
       Inl (ErrInvalidRequest ''task counts must be strictly positive'')
     else if int (length (rq_Tasks req)) \<noteq> rq_MTasks req + rq_RTasks req then
       Inl (ErrInvalidRequest ''tasks must contain exactly mTasks + rTasks entries'')
     else if int mapCount \<noteq> rq_MTasks req then Inl (ErrInvalidRequest ''unexpected number of Map tasks'')
     else if int reduceCount \<noteq> rq_RTasks req then Inl (ErrInvalidRequest ''unexpected number of Reduce tasks'')
     else Inr ())"

definition ExtractMapTaskIDs :: "ScheduleTask list \<Rightarrow> string list" where
  "ExtractMapTaskIDs ts = map st_TaskID (filter (\<lambda>t. st_TaskType t = ''Map'') ts)"

fun insert_splits :: "uuid \<Rightarrow> TaskInputSplit list \<Rightarrow> dds \<Rightarrow> dds option" where
  "insert_splits tid [] db = Some db"
| "insert_splits tid (s # ss) db =
    (case QueryInsertTaskInput \<lparr> input_task = tid, input_uri = is_InputURI s, byte_start = is_ByteStart s,
        byte_end = is_ByteEnd s, split_checksum = is_SplitChecksum s \<rparr> db of
       None \<Rightarrow> None | Some db1 \<Rightarrow> insert_splits tid ss db1)"

fun insert_tasks ::
  "(string \<Rightarrow> uuid option) \<Rightarrow> uuid \<Rightarrow> int \<Rightarrow> ScheduleTask list \<Rightarrow> dds \<Rightarrow> (sched_error, dds) result" where
  "insert_tasks parse j r [] db = Inr db"
| "insert_tasks parse j r (t # ts) db =
    (case parse (st_TaskID t) of None \<Rightarrow> Inl (ErrInvalidID (st_TaskID t))
     | Some tid \<Rightarrow>
     if TrimSpace (st_TaskType t) = [] then Inl (ErrInvalidRequest ''task type cannot be empty'')
     else if st_TaskType t \<noteq> ''Map'' \<and> st_TaskType t \<noteq> ''Reduce'' then
       Inl (ErrInvalidRequest ''invalid task type'')
     else let ri = (if st_TaskType t = ''Map'' then r else st_ReplicaIndex t) in
     case QueryInsertTask tid j (if st_TaskType t = ''Map'' then MapTask else ReduceTask) ri db of
       None \<Rightarrow> Inl ErrConstraint
     | Some db1 \<Rightarrow>
       (case insert_splits tid (st_InputSplits t) db1 of
          None \<Rightarrow> Inl ErrConstraint
        | Some db2 \<Rightarrow> insert_tasks parse j r ts db2))"

definition ScheduleJob ::
  "(string \<Rightarrow> uuid option) \<Rightarrow> scheduler \<Rightarrow> dds \<Rightarrow> seconds \<Rightarrow> (nat \<Rightarrow> uuid) \<Rightarrow> ScheduleJobRequest
    \<Rightarrow> (sched_error, unit) result \<times> scheduler \<times> dds" where
  "ScheduleJob parse s db now ids req =
    (case ValidateScheduleJobRequest parse req of Inl e \<Rightarrow> (Inl e, s, db)
     | Inr _ \<Rightarrow>
     let j = the (parse (rq_JobID req)); u = the (parse (rq_UserID req)) in
     case ComputeReplicaIndex (rq_JobID req) (totalReplicas s) of
       Inl e \<Rightarrow> (Inl (ErrRoute e), s, db)
     | Inr r \<Rightarrow>
     let db1 = QueryInsertJobConfig \<lparr> cfg_job = j, cfg_input_uri = rq_InputURI req,
                 mapper_uri = rq_MapperURI req, reducer_uri = rq_ReducerURI req,
                 combiner_uri = rq_CombinerURI req, m_tasks = rq_MTasks req, r_tasks = rq_RTasks req,
                 cfg_input_checksum = rq_InputChecksum req \<rparr> (QueryInsertJob j u r now db) in
     case insert_tasks parse j r (rq_Tasks req) db1 of
       Inl e \<Rightarrow> (Inl e, s, db)
     | Inr db2 \<Rightarrow>
       (Inr (),
        s\<lparr>orch_calls := orch_calls s @ [OrchEnsureWorkerPool (rq_JobID req)
            (if rq_MTasks req < defaultReaperPoolSize then rq_MTasks req else defaultReaperPoolSize)
            (managerAddr s)]\<rparr>,
        emit (jobSubmitted (ids 0) now j u (rq_InputURI req) (rq_MTasks req) (rq_RTasks req)) db2))"

end
