(* ===== verification/Task_Lifecycle.thy ===== *)
theory Task_Lifecycle
  imports Scheduler
begin

text \<open>
  The rest of \<^verbatim>\<open>scheduler.go\<close>: the fenced operations a worker calls
  (\<^verbatim>\<open>CompleteTask\<close>, \<^verbatim>\<open>RenewLease\<close>, \<^verbatim>\<open>FailTask\<close>), cancellation, the active reaper
  \<^verbatim>\<open>FailStaleTasks\<close>, crash recovery and the cleanup reconciler that moves a job
  from \<^verbatim>\<open>Cleaning\<close> to its terminal state.
\<close>

section \<open>Transitions and leases\<close>

definition applyJobTransitionTx ::
  "dds \<Rightarrow> seconds \<Rightarrow> uuid \<Rightarrow> JobState \<Rightarrow> (sched_error, JobState \<times> dds) result" where
  "applyJobTransitionTx db now j to =
    (case QueryGetJobStatusForUpdate j db of
       None \<Rightarrow> Inl ErrTaskNotFound
     | Some current \<Rightarrow>
       if current = to then Inr (current, db)
       else case ValidateJobTransition (JobState_String current) (JobState_String to) of
         Inl e \<Rightarrow> Inl (ErrTransition e)
       | Inr _ \<Rightarrow> Inr (current, QueryUpdateJobStatus j to now db))"

definition validateLeaseTx :: "scheduler \<Rightarrow> dds \<Rightarrow> seconds \<Rightarrow> uuid \<Rightarrow> uuid \<Rightarrow> (sched_error, unit) result" where
  "validateLeaseTx s db now aid lid =
    (case QueryCheckLeaseValid aid lid (leaseClockSkewSeconds s) now db of
       None \<Rightarrow> Inl ErrNoRows
     | Some valid \<Rightarrow> if valid then Inr () else Inl ErrExpiredLease)"

text \<open>The locking SELECT that \<^verbatim>\<open>CompleteTask\<close> and \<^verbatim>\<open>FailTask\<close> start with.\<close>

definition select_job_of_task :: "uuid \<Rightarrow> dds \<Rightarrow> (uuid \<times> JobState) option" where
  "select_job_of_task tid db =
    (case find_row (\<lambda>t. task_id t = tid) (tasks db) of None \<Rightarrow> None
     | Some t \<Rightarrow> map_option (\<lambda>jr. (task_job t, job_status jr)) (find_job (task_job t) db))"

text \<open>The fence shared by the three worker calls: state, attempt and lease are current.\<close>

definition fence :: "scheduler \<Rightarrow> dds \<Rightarrow> seconds \<Rightarrow> uuid \<Rightarrow> uuid \<Rightarrow> uuid \<Rightarrow> (sched_error, uuid) result" where
  "fence s db now tid aid lid =
    (case QuerySelectTaskForUpdate tid db of
       None \<Rightarrow> Inl ErrTaskNotFound
     | Some t \<Rightarrow>
       if task_status t \<noteq> InProgress then Inl ErrInvalidStateTransition
       else if current_attempt_id t \<noteq> Some aid then Inl ErrStaleAttempt
       else case validateLeaseTx s db now aid lid of
         Inl e \<Rightarrow> Inl e
       | Inr _ \<Rightarrow> Inr (task_job t))"

section \<open>Worker calls\<close>

definition CompleteTask ::
  "scheduler \<Rightarrow> dds \<Rightarrow> seconds \<Rightarrow> (nat \<Rightarrow> uuid) \<Rightarrow> uuid \<Rightarrow> uuid \<Rightarrow> uuid \<Rightarrow> uri list \<Rightarrow> string list
    \<Rightarrow> (sched_error, unit) result \<times> scheduler \<times> dds" where
  "CompleteTask s db now ids tid aid lid outputURIs outputChecksums =
    (if length outputURIs \<noteq> length outputChecksums then (Inl ErrOutputMismatch, s, db)
     else case select_job_of_task tid db of None \<Rightarrow> (Inl ErrTaskNotFound, s, db)
     | Some (j, jst) \<Rightarrow>
     if jst = JobCleaning then (Inl ErrJobCancelling, s, db)
     else if jst \<noteq> JobRunning \<and> jst \<noteq> JobPending then (Inl ErrInvalidStateTransition, s, db)
     else case fence s db now tid aid lid of Inl e \<Rightarrow> (Inl e, s, db)
     | Inr _ \<Rightarrow>
     let db1 = QuerySucceedAttempt aid now (QueryCompleteTask tid db);
         db2 = (if length outputURIs > 0 then QueryInsertOutputBulk tid outputURIs outputChecksums db1 else db1);
         jobCompleted = (QueryCountAllPendingTasks j db2 = 0);
         db3 = (if jobCompleted then QueryUpdateJobStatus j JobCleaning now db2 else db2);
         db4 = emit (attemptCompleted (ids 0) now tid j aid aid) db3;
         db5 = (if jobCompleted then emit (jobStateChanged (ids 1) now j ''Running'' ''Cleaning'') db4 else db4);
         s1 = s\<lparr>heartbeats := (heartbeats s)(aid := None)\<rparr>
     in (Inr (), (if jobCompleted then enqueueCleanup j (Some JobCompleted) s1 else s1), db5))"

definition RenewLease ::
  "scheduler \<Rightarrow> dds \<Rightarrow> seconds \<Rightarrow> (nat \<Rightarrow> uuid) \<Rightarrow> uuid \<Rightarrow> uuid \<Rightarrow> uuid
    \<Rightarrow> (sched_error, unit) result \<times> scheduler \<times> dds" where
  "RenewLease s db now ids tid aid lid =
    (case fence s db now tid aid lid of Inl e \<Rightarrow> (Inl e, s, db)
     | Inr j \<Rightarrow>
     let db1 = QueryRenewLease aid now db;
         (doEmit, s1) = shouldEmitHeartbeatEvent s;
         db2 = (if doEmit then emit (heartbeatReceived (ids 0) now tid j aid) db1 else db1)
     in (Inr (), s1\<lparr>heartbeats := (heartbeats s1)(aid \<mapsto> now)\<rparr>, db2))"

definition FailTask ::
  "scheduler \<Rightarrow> dds \<Rightarrow> seconds \<Rightarrow> (nat \<Rightarrow> uuid) \<Rightarrow> uuid \<Rightarrow> uuid \<Rightarrow> uuid \<Rightarrow> string
    \<Rightarrow> (sched_error, unit) result \<times> scheduler \<times> dds" where
  "FailTask s db now ids tid aid lid reason =
    (case select_job_of_task tid db of None \<Rightarrow> (Inl ErrTaskNotFound, s, db)
     | Some (j, jst) \<Rightarrow>
     if jst \<noteq> JobRunning \<and> jst \<noteq> JobPending then (Inl ErrInvalidStateTransition, s, db)
     else case fence s db now tid aid lid of Inl e \<Rightarrow> (Inl e, s, db)
     | Inr _ \<Rightarrow>
     let newState = (if QueryCountAttemptsByTask tid db \<ge> MaxTaskAttempts then Failed else Idle);
         db1 = QueryFailAttempt aid now (QueryUpdateTaskStatus newState tid db);
         db2 = (if newState = Failed then QueryUpdateJobStatus j JobCleaning now db1 else db1);
         db3 = emit (attemptFailed (ids 0) now tid j aid [] reason) db2;
         db4 = (if newState = Failed then emit (jobStateChanged (ids 1) now j ''Running'' ''Cleaning'') db3 else db3);
         s1 = s\<lparr>heartbeats := (heartbeats s)(aid := None)\<rparr>
     in (Inr (), (if newState = Failed then enqueueCleanup j (Some JobFailed) s1 else s1), db4))"

section \<open>Cancellation\<close>

definition CancelJob ::
  "scheduler \<Rightarrow> dds \<Rightarrow> seconds \<Rightarrow> (nat \<Rightarrow> uuid) \<Rightarrow> uuid \<Rightarrow> (sched_error, unit) result \<times> scheduler \<times> dds" where
  "CancelJob s db now ids j =
    (case applyJobTransitionTx db now j JobCleaning of
       Inl (ErrTransition _) \<Rightarrow> (Inr (), s, db)
     | Inl e \<Rightarrow> (Inl e, s, db)
     | Inr (oldStatus, db1) \<Rightarrow>
       let attemptIDs = QuerySelectRunningAttemptIDsByJob j db1;
           db2 = QueryFailRunningAttemptsByJob j now (QueryBulkFailNonCompletedTasksByJob j db1);
           db3 = emit (jobStateChanged (ids 1) now j (JobState_String oldStatus) ''Cleaning'')
                   (emit (jobCancelRequested (ids 0) now j) db2);
           s1 = s\<lparr>heartbeats := (\<lambda>a. if a \<in> set attemptIDs then None else heartbeats s a)\<rparr>
       in (Inr (), enqueueCleanup j (Some JobCancelled) s1, db3))"

section \<open>The active reaper\<close>

record reap =
  rp_db :: dds
  rp_recovered :: nat
  rp_respawn :: "uuid list"
  rp_failedJobs :: "uuid list"

definition reap_fresh :: "scheduler \<Rightarrow> seconds \<Rightarrow> staleRec \<Rightarrow> bool" where
  "reap_fresh s now rec \<longleftrightarrow>
    (let heartbeatTime = (case heartbeats s (sr_attempt rec) of Some hb \<Rightarrow> hb | None \<Rightarrow> sr_lastRenewedAt rec)
     in now - heartbeatTime < sr_leaseTTL rec + leaseClockSkewSeconds s)"

definition reap_one :: "scheduler \<Rightarrow> seconds \<Rightarrow> staleRec \<Rightarrow> reap \<Rightarrow> reap" where
  "reap_one s now rec r =
    (if reap_fresh s now rec then r
     else let newState = (if sr_attemptCount rec \<ge> MaxTaskAttempts then Failed else Idle);
              db1 = QueryFailAttempt (sr_attempt rec) now (QueryUpdateTaskStatus newState (sr_task rec) (rp_db r))
     in if newState = Failed then
          r\<lparr> rp_db := QueryUpdateJobStatus (sr_job rec) JobCleaning now db1,
             rp_failedJobs := List.insert (sr_job rec) (rp_failedJobs r),
             rp_recovered := rp_recovered r + 1 \<rparr>
        else
          r\<lparr> rp_db := db1, rp_respawn := List.insert (sr_job rec) (rp_respawn r),
             rp_recovered := rp_recovered r + 1 \<rparr>)"

definition emit_reaped :: "(nat \<Rightarrow> uuid) \<Rightarrow> seconds \<Rightarrow> staleRec list \<Rightarrow> dds \<Rightarrow> dds" where
  "emit_reaped ids now recs db =
    fold (\<lambda>(i, rec). emit (taskReaped (ids i) now (sr_task rec) (sr_job rec) (sr_attempt rec) ''lease expired''))
      (zip [0..<length recs] recs) db"

definition emit_failed_jobs :: "(nat \<Rightarrow> uuid) \<Rightarrow> nat \<Rightarrow> seconds \<Rightarrow> uuid list \<Rightarrow> dds \<Rightarrow> dds" where
  "emit_failed_jobs ids k now js db =
    fold (\<lambda>(i, j). emit (jobStateChanged (ids (k + i)) now j ''Running'' ''Cleaning''))
      (zip [0..<length js] js) db"

definition respawn_job :: "seconds \<Rightarrow> uuid \<Rightarrow> scheduler \<times> dds \<Rightarrow> scheduler \<times> dds" where
  "respawn_job now j sd =
    (let (s, db) = sd in
     (s\<lparr>orch_calls := orch_calls s @
         [OrchCancelJob j, OrchEnsureWorkerPool j defaultReaperPoolSize (managerAddr s)]\<rparr>,
      QueryFailRunningAttemptsByJob j now db))"

definition FailStaleTasks ::
  "scheduler \<Rightarrow> dds \<Rightarrow> seconds \<Rightarrow> (nat \<Rightarrow> uuid) \<Rightarrow> nat \<times> scheduler \<times> dds" where
  "FailStaleTasks s db now ids =
    (let stales = QuerySelectStaleTasks (replicaIndex s) db;
         r = fold (reap_one s now) stales \<lparr> rp_db = db, rp_recovered = 0, rp_respawn = [], rp_failedJobs = [] \<rparr>;
         db1 = emit_failed_jobs ids (length stales) now (rp_failedJobs r) (emit_reaped ids now stales (rp_db r));
         s1 = fold (\<lambda>j. enqueueCleanup j (Some JobFailed)) (rp_failedJobs r) s;
         (s2, db2) = fold (respawn_job now) (rp_respawn r) (s1, db1)
     in (rp_recovered r, s2, db2))"

section \<open>Recovery\<close>

definition Recover :: "scheduler \<Rightarrow> dds \<Rightarrow> seconds \<Rightarrow> scheduler \<times> dds" where
  "Recover s db now =
    (let db1 = QueryFailRunningAttemptsByReplica (replicaIndex s) now db;
         db2 = QueryResetTasksForReplica (replicaIndex s) db1;
         jobIDs = map job_id (select_where (\<lambda>r. job_status r = JobRunning \<and> job_replica r = replicaIndex s) (jobs db2))
     in (s\<lparr>orch_calls := orch_calls s @ concat (map (\<lambda>j.
            [OrchCancelJob j, OrchEnsureWorkerPool j 4 (managerAddr s)]) jobIDs)\<rparr>, db2))"

section \<open>Cleanup\<close>

text \<open>
  \<^verbatim>\<open>popPendingCleanup\<close> ranges over a Go map, whose order is not specified: the
  argument \<^verbatim>\<open>order\<close> is the order in which the run visits the keys.
\<close>

definition popPendingCleanup ::
  "int \<Rightarrow> uuid list \<Rightarrow> scheduler \<Rightarrow> (uuid \<times> JobState option) list \<times> scheduler" where
  "popPendingCleanup limit order s =
    (if pendingCleanup s = [] then ([], s)
     else let n = length (pendingCleanup s);
              lim = (if limit \<le> 0 \<or> limit > int n then n else nat limit);
              ks = take lim order
     in (map (\<lambda>k. (k, the (map_of (pendingCleanup s) k))) ks,
         s\<lparr>pendingCleanup := filter (\<lambda>(k, _). k \<notin> set ks) (pendingCleanup s)\<rparr>))"

definition determineCleaningTerminalState :: "dds \<Rightarrow> uuid \<Rightarrow> JobState" where
  "determineCleaningTerminalState db j =
    (if count_where (\<lambda>t. task_job t = j \<and> task_status t = Failed) (tasks db) > 0 then JobFailed
     else if count_where (\<lambda>t. task_job t = j \<and> task_status t \<noteq> Completed) (tasks db) > 0 then JobFailed
     else JobCompleted)"

text \<open>
  Outcomes of the external calls of \<^verbatim>\<open>finalizeJob\<close>: the object store delete, the
  begin and commit of the transaction, the Kubernetes delete.
\<close>

record finalize_env =
  stagingOk :: bool
  beginOk :: bool
  commitOk :: bool
  k8sOk :: bool

definition finalizeJob ::
  "finalize_env \<Rightarrow> scheduler \<Rightarrow> dds \<Rightarrow> seconds \<Rightarrow> uuid \<Rightarrow> JobState \<Rightarrow> scheduler \<times> dds" where
  "finalizeJob env s db now j terminalState =
    (if staging s \<and> cleanupRetries s j < maxCleanupRetries \<and> \<not> stagingOk env
     then (enqueueCleanup j (Some terminalState) s, db)
     else if \<not> beginOk env then (enqueueCleanup j (Some terminalState) s, db)
     else case applyJobTransitionTx db now j terminalState of
       Inl _ \<Rightarrow> (enqueueCleanup j (Some terminalState) s, db)
     | Inr (_, db1) \<Rightarrow>
     if \<not> commitOk env then (enqueueCleanup j (Some terminalState) s, db)
     else let s1 = s\<lparr>orch_calls := orch_calls s @ [OrchCancelJob j]\<rparr> in
     if \<not> k8sOk env then (enqueueCleanup j (Some terminalState) s1, db1)
     else (s1\<lparr>cleanupRetries := (cleanupRetries s1)(j := 0)\<rparr>, db1))"

definition StartCleanupReconciler_recover :: "scheduler \<Rightarrow> dds \<Rightarrow> scheduler" where
  "StartCleanupReconciler_recover s db =
    fold (\<lambda>j. enqueueCleanup j (Some (determineCleaningTerminalState db j))) (QuerySelectCleaningJobs db) s"

text \<open>The body run for one popped entry; an empty terminal state is derived first.\<close>

definition reconcile_one ::
  "finalize_env \<Rightarrow> scheduler \<Rightarrow> dds \<Rightarrow> seconds \<Rightarrow> uuid \<times> JobState option \<Rightarrow> scheduler \<times> dds" where
  "reconcile_one env s db now e =
    (let (j, st) = e in
     finalizeJob env s db now j (case st of Some t \<Rightarrow> t | None \<Rightarrow> determineCleaningTerminalState db j))"

definition reconcile_tick ::
  "finalize_env \<Rightarrow> uuid list \<Rightarrow> scheduler \<Rightarrow> dds \<Rightarrow> seconds \<Rightarrow> scheduler \<times> dds" where
  "reconcile_tick env order s db now =
    (let (popped, s1) = popPendingCleanup cleanupReconcileBatchSize order s in
     foldl (\<lambda>(s, db) e. reconcile_one env s db now e) (s1, db) popped)"

section \<open>Configuration and read-only calls\<close>

definition GetSystemConfig :: "dds \<Rightarrow> system_config" where
  "GetSystemConfig db = (case config db of Some c \<Rightarrow> c
   | None \<Rightarrow> \<lparr> max_concurrent_pods = DefaultMaxConcurrentPods, cpu_limit = ''500m'', memory_limit = ''1Gi'',
       worker_replicas = 1, max_jobs_per_node = 1, locality_key = ''topology.kubernetes.io/zone'',
       locality_label_selector = ''app.kubernetes.io/name=minio'', config_updated_at = 0 \<rparr>)"

definition UpsertSystemConfig :: "system_config \<Rightarrow> dds \<Rightarrow> (sched_error, unit) result \<times> dds" where
  "UpsertSystemConfig c db =
    (case QueryUpsertSystemConfig c db of None \<Rightarrow> (Inl ErrConstraint, db) | Some db1 \<Rightarrow> (Inr (), db1))"

definition GetMapOutputs :: "dds \<Rightarrow> uuid \<Rightarrow> uri list" where
  "GetMapOutputs db j = QueryGetMapOutputs j db"

definition GetReduceOutputs :: "dds \<Rightarrow> uuid \<Rightarrow> uri list" where
  "GetReduceOutputs db j = QueryGetReduceOutputs j db"

definition AllMapTasksCompleted :: "dds \<Rightarrow> uuid \<Rightarrow> bool" where
  "AllMapTasksCompleted db j \<longleftrightarrow> QueryCountPendingTasksByType j MapTask db = 0"

definition IsJobFinished :: "dds \<Rightarrow> uuid \<Rightarrow> bool" where
  "IsJobFinished db j \<longleftrightarrow> QueryCountAllPendingTasks j db = 0"

definition GetTaskStatus :: "dds \<Rightarrow> uuid \<Rightarrow> (sched_error, TaskState) result" where
  "GetTaskStatus db tid =
    (case find_row (\<lambda>t. task_id t = tid) (tasks db) of None \<Rightarrow> Inl ErrTaskNotFound
     | Some t \<Rightarrow> Inr (task_status t))"

definition GetTaskByID :: "dds \<Rightarrow> uuid \<Rightarrow> (sched_error, Task) result" where
  "GetTaskByID db tid =
    (case find_row (\<lambda>t. task_id t = tid) (tasks db) of None \<Rightarrow> Inl ErrTaskNotFound
     | Some row \<Rightarrow>
     case hydrateTaskMetadata row (zero_Task\<lparr> t_ID := task_id row, t_JobID := task_job row,
         t_Type := task_type row, t_State := task_status row, t_ReplicaIndex := replica_index row,
         t_ReducePartition := (if task_type row = ReduceTask then replica_index row else 0) \<rparr>) db of
       Inl e \<Rightarrow> Inl e
     | Inr t \<Rightarrow>
       (case current_attempt_id row of None \<Rightarrow> Inr t
        | Some aid \<Rightarrow>
          (case find_row (\<lambda>a. attempt_id a = aid) (attempts db) of None \<Rightarrow> Inl ErrNoRows
           | Some a \<Rightarrow> Inr (t\<lparr> t_ActiveAttemptID := aid, t_workerID := worker_id a, t_LeaseID := lease_id a,
               t_startTime := start_time a, t_LastHeartbeat := last_renewed_at a \<rparr>))))"

end
