(* ===== verification/Scheduler_Inv.thy ===== *)
theory Scheduler_Inv
  imports Task_Lifecycle
begin

text \<open>
  The invariant of the store and its preservation by the row effects the
  scheduler's methods are made of.  \<^verbatim>\<open>rows_inv\<close> says that keys are unique,
  references resolve, a task in progress points at an attempt of its own, a
  running attempt is the one its task points at, reduce work starts only after
  the map phase, and a job that left \<^verbatim>\<open>Pending\<close> and \<^verbatim>\<open>Running\<close> has a failed
  task or only completed ones.
\<close>

section \<open>The invariant\<close>

definition keys_ok :: "job_row list \<Rightarrow> task_row list \<Rightarrow> attempt_row list \<Rightarrow> bool" where
  "keys_ok J T A \<longleftrightarrow>
    distinct (map job_id J) \<and> distinct (map task_id T) \<and> distinct (map attempt_id A)"

definition refs_ok :: "job_row list \<Rightarrow> task_row list \<Rightarrow> attempt_row list \<Rightarrow> bool" where
  "refs_ok J T A \<longleftrightarrow> (\<forall>t\<in>set T. task_job t \<in> job_id ` set J) \<and> (\<forall>a\<in>set A. attempt_task a \<in> task_id ` set T)"

definition fence_ok :: "task_row list \<Rightarrow> attempt_row list \<Rightarrow> bool" where
  "fence_ok T A \<longleftrightarrow> (\<forall>t\<in>set T.
     (task_status t = InProgress \<longrightarrow>
        (\<exists>a\<in>set A. current_attempt_id t = Some (attempt_id a) \<and> attempt_task a = task_id t))
   \<and> (task_status t \<in> {Idle, Completed} \<longrightarrow> current_attempt_id t = None))"

definition run_ok :: "task_row list \<Rightarrow> attempt_row list \<Rightarrow> bool" where
  "run_ok T A \<longleftrightarrow> (\<forall>a\<in>set A. attempt_status a = AttemptRunning \<longrightarrow>
     (\<exists>t\<in>set T. task_id t = attempt_task a \<and> task_status t = InProgress
        \<and> current_attempt_id t = Some (attempt_id a)))"

definition phase_ok :: "task_row list \<Rightarrow> bool" where
  "phase_ok T \<longleftrightarrow> (\<forall>t\<in>set T. task_type t = ReduceTask \<and> task_status t \<in> {InProgress, Completed} \<longrightarrow>
     (\<forall>m\<in>set T. task_job m = task_job t \<and> task_type m = MapTask \<longrightarrow> task_status m = Completed))"

definition settled :: "task_row list \<Rightarrow> uuid \<Rightarrow> bool" where
  "settled T j \<longleftrightarrow> (\<exists>t\<in>set T. task_job t = j \<and> task_status t = Failed)
     \<or> (\<forall>t\<in>set T. task_job t = j \<longrightarrow> task_status t = Completed)"

definition clean_ok :: "job_row list \<Rightarrow> task_row list \<Rightarrow> bool" where
  "clean_ok J T \<longleftrightarrow> (\<forall>r\<in>set J. job_status r \<notin> {JobPending, JobRunning} \<longrightarrow> settled T (job_id r))"

definition rows_inv :: "job_row list \<Rightarrow> task_row list \<Rightarrow> attempt_row list \<Rightarrow> bool" where
  "rows_inv J T A \<longleftrightarrow> keys_ok J T A \<and> refs_ok J T A \<and> fence_ok T A \<and> run_ok T A \<and> phase_ok T \<and> clean_ok J T"

definition dds_inv :: "dds \<Rightarrow> bool" where
  "dds_inv db \<longleftrightarrow> rows_inv (jobs db) (tasks db) (attempts db)"

lemmas inv_defs = keys_ok_def refs_ok_def fence_ok_def run_ok_def phase_ok_def clean_ok_def settled_def

section \<open>Field access after a query\<close>

lemma upd_sel [table_simps]:
  "jobs (upd_tasks P f db) = jobs db" "attempts (upd_tasks P f db) = attempts db"
  "tasks (upd_tasks P f db) = update_where P f (tasks db)"
  "jobs (upd_attempts Q g db) = jobs db" "tasks (upd_attempts Q g db) = tasks db"
  "attempts (upd_attempts Q g db) = update_where Q g (attempts db)"
  "tasks (upd_jobs R h db) = tasks db" "attempts (upd_jobs R h db) = attempts db"
  "jobs (upd_jobs R h db) = update_where R h (jobs db)"
  "task_outputs (upd_tasks P f db) = task_outputs db"
  "task_outputs (upd_attempts Q g db) = task_outputs db"
  "task_outputs (upd_jobs R h db) = task_outputs db"
  "config (upd_tasks P f db) = config db"
  "config (upd_attempts Q g db) = config db"
  "config (upd_jobs R h db) = config db"
  by (simp_all add: upd_tasks_def upd_attempts_def upd_jobs_def)

lemma emit_sel [table_simps]:
  "jobs (emit e db) = jobs db" "tasks (emit e db) = tasks db" "attempts (emit e db) = attempts db"
  "task_outputs (emit e db) = task_outputs db" "config (emit e db) = config db"
  by (simp_all add: emit_def)

lemma insert_output_sel [table_simps]:
  "jobs (QueryInsertOutputBulk tid us cs db) = jobs db"
  "tasks (QueryInsertOutputBulk tid us cs db) = tasks db"
  "attempts (QueryInsertOutputBulk tid us cs db) = attempts db"
  "config (QueryInsertOutputBulk tid us cs db) = config db"
  by (simp_all add: QueryInsertOutputBulk_def)

lemmas query_defs =
  QueryCompleteTask_def QuerySucceedAttempt_def QueryFailAttempt_def QueryUpdateTaskStatus_def
  QueryBulkFailNonCompletedTasksByJob_def QueryRenewLease_def QueryFailRunningAttemptsByJob_def
  QueryFailRunningAttemptsByReplica_def QueryResetTasksForReplica_def QueryUpdateJobStatus_def

section \<open>Row effects\<close>

text \<open>Setting the status of one task by key and the outcome of one attempt by key.\<close>

definition set_task :: "uuid \<Rightarrow> TaskState \<Rightarrow> task_row list \<Rightarrow> task_row list" where
  "set_task tid st = update_where (\<lambda>t. task_id t = tid) (\<lambda>t. t\<lparr>task_status := st, current_attempt_id := None\<rparr>)"

definition set_attempt :: "uuid \<Rightarrow> AttemptStatus \<Rightarrow> seconds \<Rightarrow> attempt_row list \<Rightarrow> attempt_row list" where
  "set_attempt aid st now =
    update_where (\<lambda>a. attempt_id a = aid) (\<lambda>a. a\<lparr>attempt_status := st, end_time := Some now\<rparr>)"

definition set_job :: "uuid \<Rightarrow> JobState \<Rightarrow> seconds \<Rightarrow> job_row list \<Rightarrow> job_row list" where
  "set_job j s now = update_where (\<lambda>r. job_id r = j) (\<lambda>r. r\<lparr>job_status := s, updated_at := now\<rparr>)"

lemma task_ids_update [simp]:
  "(\<And>t. task_id (f t) = task_id t) \<Longrightarrow> map task_id (update_where P f T) = map task_id T"
  by (rule task_tab.update_keys) simp

lemma attempt_ids_update [simp]:
  "(\<And>a. attempt_id (f a) = attempt_id a) \<Longrightarrow> map attempt_id (update_where P f A) = map attempt_id A"
  by (rule attempt_tab.update_keys) simp

lemma job_ids_update [simp]:
  "(\<And>r. job_id (f r) = job_id r) \<Longrightarrow> map job_id (update_where P f J) = map job_id J"
  by (rule job_tab.update_keys) simp

lemma set_eq_by_ids:
  "map task_id T' = map task_id T \<Longrightarrow> task_id ` set T' = task_id ` set T"
  by (metis set_map)

lemma set_job_inv [inv_intros]:
  assumes "rows_inv J T A" "s \<notin> {JobPending, JobRunning} \<Longrightarrow> settled T j"
  shows "rows_inv (set_job j s now J) T A"
proof -
  have ids: "map job_id (set_job j s now J) = map job_id J"
    by (simp add: set_job_def)
  then have "job_id ` set (set_job j s now J) = job_id ` set J" by (metis set_map)
  with ids assms show ?thesis
    unfolding rows_inv_def
    by (auto simp: keys_ok_def refs_ok_def clean_ok_def) (auto simp: set_job_def)
qed

text \<open>Ending the current attempt of a task in progress: complete, fail or give back.\<close>

definition same_task :: "task_row \<Rightarrow> task_row \<Rightarrow> bool" where
  "same_task t u \<longleftrightarrow> task_id t = task_id u \<and> task_job t = task_job u \<and> task_type t = task_type u
     \<and> replica_index t = replica_index u"

lemma set_task_cases:
  assumes "t \<in> set (set_task tid st T)"
  obtains (upd) u where "u \<in> set T" "task_id u = tid" "same_task t u" "task_status t = st" "current_attempt_id t = None"
  | (old) "t \<in> set T" "task_id t \<noteq> tid"
  using assms by (auto simp: set_task_def same_task_def split: if_splits)

lemma set_task_keep: "t \<in> set T \<Longrightarrow> task_id t \<noteq> tid \<Longrightarrow> t \<in> set (set_task tid st T)"
  by (force simp: set_task_def)

lemma set_attempt_cases:
  assumes "a \<in> set (set_attempt aid st now A)"
  obtains (upd) b where "b \<in> set A" "attempt_id b = aid" "attempt_id a = aid" "attempt_task a = attempt_task b" "attempt_status a = st"
  | (old) "a \<in> set A" "attempt_id a \<noteq> aid"
  using assms by (auto simp: set_attempt_def split: if_splits)

lemma set_attempt_pairs:
  "(\<exists>a\<in>set (set_attempt aid st now A). attempt_id a = i \<and> attempt_task a = k)
    \<longleftrightarrow> (\<exists>a\<in>set A. attempt_id a = i \<and> attempt_task a = k)"
  by (simp add: set_attempt_def bex_Un) blast

lemma set_task_ids [simp]: "map task_id (set_task tid st T) = map task_id T"
  by (simp add: set_task_def)

lemma set_attempt_ids [simp]: "map attempt_id (set_attempt aid st now A) = map attempt_id A"
  by (simp add: set_attempt_def)

text \<open>The situation in which the current attempt of a task ends.\<close>

definition finish_pre ::
  "job_row list \<Rightarrow> task_row list \<Rightarrow> attempt_row list \<Rightarrow> task_row \<Rightarrow> uuid \<Rightarrow> TaskState \<Rightarrow> AttemptStatus \<Rightarrow> bool" where
  "finish_pre J T A tk aid st ast \<longleftrightarrow> rows_inv J T A \<and> tk \<in> set T \<and> task_status tk = InProgress
    \<and> current_attempt_id tk = Some aid \<and> st \<noteq> InProgress \<and> ast \<noteq> AttemptRunning"

lemma finish_only:
  "finish_pre J T A tk aid st ast \<Longrightarrow> u \<in> set T \<Longrightarrow> task_id u = task_id tk \<Longrightarrow> u = tk"
  using task_tab.key_unique by (auto simp: finish_pre_def rows_inv_def keys_ok_def)

lemma finish_cases:
  assumes "finish_pre J T A tk aid st ast" "t \<in> set (set_task (task_id tk) st T)"
  obtains (upd) "same_task t tk" "task_status t = st" "current_attempt_id t = None"
  | (old) "t \<in> set T" "task_id t \<noteq> task_id tk"
  using assms(2)
proof (cases rule: set_task_cases)
  case (upd u)
  then show ?thesis using finish_only [OF assms(1)] that(1) by blast
qed (use that in blast)

lemma finish_keys_refs:
  assumes pre: "finish_pre J T A tk aid st ast"
  shows "keys_ok J (set_task (task_id tk) st T) (set_attempt aid ast now A)
    \<and> refs_ok J (set_task (task_id tk) st T) (set_attempt aid ast now A)"
proof -
  have ids: "task_id ` set (set_task (task_id tk) st T) = task_id ` set T"
    by (metis set_map set_task_ids)
  have refs: "refs_ok J T A" and keys: "keys_ok J T A" and tk: "tk \<in> set T"
    using pre by (simp_all add: finish_pre_def rows_inv_def)
  have "task_job t \<in> job_id ` set J" if "t \<in> set (set_task (task_id tk) st T)" for t
    using pre that by (cases rule: finish_cases) (use refs tk in \<open>auto simp: refs_ok_def same_task_def\<close>)
  moreover have "attempt_task a \<in> task_id ` set T" if "a \<in> set (set_attempt aid ast now A)" for a
    using that by (cases rule: set_attempt_cases) (use refs in \<open>auto simp: refs_ok_def\<close>)
  ultimately show ?thesis
    using keys by (simp add: keys_ok_def refs_ok_def ids)
qed

lemma finish_fence:
  assumes pre: "finish_pre J T A tk aid st ast"
  shows "fence_ok (set_task (task_id tk) st T) (set_attempt aid ast now A)"
  unfolding fence_ok_def
proof
  fix t assume t: "t \<in> set (set_task (task_id tk) st T)"
  have st: "st \<noteq> InProgress" and fence: "fence_ok T A"
    using pre by (simp_all add: finish_pre_def rows_inv_def)
  from pre t show "(task_status t = InProgress \<longrightarrow> (\<exists>a\<in>set (set_attempt aid ast now A).
        current_attempt_id t = Some (attempt_id a) \<and> attempt_task a = task_id t))
      \<and> (task_status t \<in> {Idle, Completed} \<longrightarrow> current_attempt_id t = None)"
  proof (cases rule: finish_cases)
    case old
    then show ?thesis
      using fence set_attempt_pairs [of aid ast now A _ "task_id t"] unfolding fence_ok_def by metis
  qed (simp add: st)
qed

lemma finish_run:
  assumes pre: "finish_pre J T A tk aid st ast"
  shows "run_ok (set_task (task_id tk) st T) (set_attempt aid ast now A)"
  unfolding run_ok_def
proof (intro ballI impI)
  fix a assume a: "a \<in> set (set_attempt aid ast now A)" "attempt_status a = AttemptRunning"
  have ast: "ast \<noteq> AttemptRunning" and run: "run_ok T A" and tk: "current_attempt_id tk = Some aid"
    using pre by (simp_all add: finish_pre_def rows_inv_def)
  from a(1) have ne: "a \<in> set A \<and> attempt_id a \<noteq> aid"
    by (cases rule: set_attempt_cases) (use a(2) ast in auto)
  with a(2) run obtain t where t: "t \<in> set T" "task_id t = attempt_task a" "task_status t = InProgress"
      "current_attempt_id t = Some (attempt_id a)"
    unfolding run_ok_def by blast
  with ne tk have "t \<noteq> tk" by auto
  then have "task_id t \<noteq> task_id tk" using finish_only [OF pre t(1)] by blast
  with t show "\<exists>t\<in>set (set_task (task_id tk) st T). task_id t = attempt_task a
      \<and> task_status t = InProgress \<and> current_attempt_id t = Some (attempt_id a)"
    using set_task_keep [of t T "task_id tk" st] by blast
qed

lemma finish_phase:
  assumes pre: "finish_pre J T A tk aid st ast"
  shows "phase_ok (set_task (task_id tk) st T)"
  unfolding phase_ok_def
proof (intro ballI impI)
  fix t m assume t: "t \<in> set (set_task (task_id tk) st T)"
    and tt: "task_type t = ReduceTask \<and> task_status t \<in> {InProgress, Completed}"
    and m: "m \<in> set (set_task (task_id tk) st T)" and mt: "task_job m = task_job t \<and> task_type m = MapTask"
  have st: "st \<noteq> InProgress" and ph: "phase_ok T" and tk: "tk \<in> set T" "task_status tk = InProgress"
    using pre by (simp_all add: finish_pre_def rows_inv_def)
  from pre t have "\<exists>t'\<in>set T. same_task t t' \<and> task_status t' \<in> {InProgress, Completed}"
  proof (cases rule: finish_cases)
    case upd
    with tk show ?thesis by (intro bexI [of _ tk]) simp_all
  next
    case old
    with tt show ?thesis by (intro bexI [of _ t]) (simp_all add: same_task_def)
  qed
  then obtain t' where t': "t' \<in> set T" "same_task t t'" "task_status t' \<in> {InProgress, Completed}"
    by blast
  from pre m show "task_status m = Completed"
  proof (cases rule: finish_cases)
    case upd
    have "task_status tk = Completed"
      using ph t' tk tt mt upd(1) unfolding phase_ok_def same_task_def by metis
    then show ?thesis using tk by simp
  next
    case old
    then show ?thesis using ph t' tt mt unfolding phase_ok_def same_task_def by metis
  qed
qed

lemma finish_settled:
  assumes pre: "finish_pre J T A tk aid st ast" and j: "settled T j"
  shows "settled (set_task (task_id tk) st T) j"
proof (cases "\<exists>t\<in>set T. task_job t = j \<and> task_status t = Failed")
  case True
  then obtain t where t: "t \<in> set T" "task_job t = j" "task_status t = Failed" by auto
  with pre have "t \<noteq> tk" by (auto simp: finish_pre_def)
  then have "task_id t \<noteq> task_id tk" using finish_only [OF pre t(1)] by blast
  with t show ?thesis using set_task_keep [of t T "task_id tk" st] unfolding settled_def by blast
next
  case False
  have tk: "tk \<in> set T" "task_status tk = InProgress"
    using pre by (simp_all add: finish_pre_def)
  have "task_status t = Completed" if "t \<in> set (set_task (task_id tk) st T)" "task_job t = j" for t
    using pre that(1)
    by (cases rule: finish_cases) (use False j that(2) tk in \<open>auto simp: settled_def same_task_def\<close>)
  then show ?thesis by (simp add: settled_def)
qed

lemma finish_inv [inv_intros]:
  assumes pre: "finish_pre J T A tk aid st ast"
  shows "rows_inv J (set_task (task_id tk) st T) (set_attempt aid ast now A)"
proof -
  have "clean_ok J T" using pre by (simp add: finish_pre_def rows_inv_def)
  then have "clean_ok J (set_task (task_id tk) st T)"
    using finish_settled [OF pre] by (auto simp: clean_ok_def)
  then show ?thesis
    using finish_keys_refs [OF pre] finish_fence [OF pre] finish_run [OF pre] finish_phase [OF pre]
    by (simp add: rows_inv_def)
qed

text \<open>An UPDATE of attempts that keeps key and task and starts nothing.\<close>

definition quiet_update :: "(attempt_row \<Rightarrow> attempt_row) \<Rightarrow> bool" where
  "quiet_update f \<longleftrightarrow> (\<forall>a. attempt_id (f a) = attempt_id a \<and> attempt_task (f a) = attempt_task a
     \<and> (attempt_status (f a) = AttemptRunning \<longrightarrow> attempt_status a = AttemptRunning))"

lemma quiet_update_mem:
  assumes "quiet_update f" "a \<in> set (update_where P f A)"
  obtains b where "b \<in> set A" "attempt_id a = attempt_id b" "attempt_task a = attempt_task b"
    "attempt_status a = AttemptRunning \<Longrightarrow> attempt_status b = AttemptRunning" "a = b \<or> P b \<and> a = f b"
proof -
  from assms(2) obtain b where b: "b \<in> set A" "a = (if P b then f b else b)"
    by (rule update_where_memE)
  with assms(1) show ?thesis
    by (cases "P b") (auto simp: quiet_update_def intro: that)
qed

lemma quiet_update_img:
  assumes "quiet_update f" "b \<in> set A"
  obtains a where "a \<in> set (update_where P f A)" "attempt_id a = attempt_id b" "attempt_task a = attempt_task b"
proof -
  have "(if P b then f b else b) \<in> set (update_where P f A)"
    using assms(2) by (rule update_where_memI)
  then show ?thesis using assms(1) that by (cases "P b") (auto simp: quiet_update_def)
qed

lemma quiet_inv [inv_intros]:
  assumes inv: "rows_inv J T A" and f: "quiet_update f"
  shows "rows_inv J T (update_where P f A)"
proof -
  have "keys_ok J T (update_where P f A)"
    using inv f attempt_tab.update_keys [of f P A] by (simp add: rows_inv_def keys_ok_def quiet_update_def)
  moreover have "refs_ok J T (update_where P f A)"
    using inv unfolding rows_inv_def refs_ok_def by (metis quiet_update_mem [OF f])
  moreover have "fence_ok T (update_where P f A)"
    using inv unfolding rows_inv_def fence_ok_def by (metis quiet_update_img [OF f])
  moreover have "run_ok T (update_where P f A)"
    using inv unfolding rows_inv_def run_ok_def by (metis quiet_update_mem [OF f])
  ultimately show ?thesis using inv by (simp add: rows_inv_def)
qed

text \<open>Assigning an idle task: it moves to progress and gets a fresh running attempt.\<close>

definition start_task :: "uuid \<Rightarrow> uuid \<Rightarrow> task_row list \<Rightarrow> task_row list" where
  "start_task aid tid = update_where (\<lambda>t. task_id t = tid \<and> task_status t = Idle)
     (\<lambda>t. t\<lparr>task_status := InProgress, current_attempt_id := Some aid\<rparr>)"

definition start_pre ::
  "job_row list \<Rightarrow> task_row list \<Rightarrow> attempt_row list \<Rightarrow> task_row \<Rightarrow> attempt_row \<Rightarrow> bool" where
  "start_pre J T A tk na \<longleftrightarrow> rows_inv J T A \<and> tk \<in> set T \<and> task_status tk = Idle
    \<and> attempt_id na \<notin> attempt_id ` set A \<and> attempt_task na = task_id tk
    \<and> (task_type tk = ReduceTask \<longrightarrow>
        (\<forall>m\<in>set T. task_job m = task_job tk \<and> task_type m = MapTask \<longrightarrow> task_status m = Completed))"

lemma start_task_ids [simp]: "map task_id (start_task aid tid T) = map task_id T"
  by (simp add: start_task_def)

lemma start_cases:
  assumes pre: "start_pre J T A tk na" and t: "t \<in> set (start_task aid (task_id tk) T)"
  obtains (upd) "same_task t tk" "task_status t = InProgress" "current_attempt_id t = Some aid"
  | (old) "t \<in> set T" "task_id t \<noteq> task_id tk"
proof -
  have d: "distinct (map task_id T)" and tk: "tk \<in> set T" "task_status tk = Idle"
    using pre by (simp_all add: start_pre_def rows_inv_def keys_ok_def)
  from t obtain u where u: "u \<in> set T" "t = (if task_id u = task_id tk \<and> task_status u = Idle
      then u\<lparr>task_status := InProgress, current_attempt_id := Some aid\<rparr> else u)"
    unfolding start_task_def by (rule update_where_memE)
  show ?thesis
  proof (cases "task_id u = task_id tk")
    case True
    then have "u = tk" using task_tab.key_unique [OF d u(1) tk(1)] by simp
    with u tk show ?thesis by (intro upd) (simp_all add: same_task_def)
  next
    case False
    with u show ?thesis by (intro old) simp_all
  qed
qed

lemma start_keep:
  "t \<in> set T \<Longrightarrow> task_id t \<noteq> tid \<Longrightarrow> t \<in> set (start_task aid tid T)"
  unfolding start_task_def set_update_where by (rule image_eqI [of _ _ t]) simp_all

lemma start_new:
  "start_pre J T A tk na \<Longrightarrow> tk\<lparr>task_status := InProgress, current_attempt_id := Some aid\<rparr>
     \<in> set (start_task aid (task_id tk) T)"
  unfolding start_task_def set_update_where start_pre_def by (rule image_eqI [of _ _ tk]) simp_all

lemma start_fence:
  assumes pre: "start_pre J T A tk na"
  shows "fence_ok (start_task (attempt_id na) (task_id tk) T) (A @ [na])"
  unfolding fence_ok_def
proof
  fix t assume t: "t \<in> set (start_task (attempt_id na) (task_id tk) T)"
  have na: "attempt_task na = task_id tk" and fence: "fence_ok T A"
    using pre by (simp_all add: start_pre_def rows_inv_def)
  from pre t show "(task_status t = InProgress \<longrightarrow> (\<exists>a\<in>set (A @ [na]).
        current_attempt_id t = Some (attempt_id a) \<and> attempt_task a = task_id t))
      \<and> (task_status t \<in> {Idle, Completed} \<longrightarrow> current_attempt_id t = None)"
  proof (cases rule: start_cases)
    case upd
    then show ?thesis using na by (simp add: same_task_def)
  next
    case old
    then show ?thesis using fence unfolding fence_ok_def by (metis UnCI set_append)
  qed
qed

lemma start_run:
  assumes pre: "start_pre J T A tk na"
  shows "run_ok (start_task (attempt_id na) (task_id tk) T) (A @ [na])"
  unfolding run_ok_def
proof (intro ballI impI)
  let ?T = "start_task (attempt_id na) (task_id tk) T"
  fix a assume a: "a \<in> set (A @ [na])" "attempt_status a = AttemptRunning"
  have na: "attempt_task na = task_id tk" and run: "run_ok T A" and tk: "task_status tk = Idle"
    and d: "distinct (map task_id T)" "tk \<in> set T"
    using pre by (simp_all add: start_pre_def rows_inv_def keys_ok_def)
  show "\<exists>t\<in>set ?T. task_id t = attempt_task a \<and> task_status t = InProgress
      \<and> current_attempt_id t = Some (attempt_id a)"
  proof (cases "a = na")
    case True
    then show ?thesis using start_new [OF pre, of "attempt_id na"] na by (intro bexI) simp_all
  next
    case False
    with a have "a \<in> set A" by simp
    with run a(2) obtain t where t: "t \<in> set T" "task_id t = attempt_task a" "task_status t = InProgress"
      "current_attempt_id t = Some (attempt_id a)" unfolding run_ok_def by blast
    have "task_id t \<noteq> task_id tk"
      using task_tab.key_unique [OF d(1) t(1) d(2)] t(3) tk by auto
    from start_keep [OF t(1) this] t show ?thesis by blast
  qed
qed

lemma start_phase:
  assumes pre: "start_pre J T A tk na"
  shows "phase_ok (start_task aid (task_id tk) T)"
  unfolding phase_ok_def
proof (intro ballI impI)
  fix t m assume t: "t \<in> set (start_task aid (task_id tk) T)"
    and tt: "task_type t = ReduceTask \<and> task_status t \<in> {InProgress, Completed}"
    and m: "m \<in> set (start_task aid (task_id tk) T)" and mt: "task_job m = task_job t \<and> task_type m = MapTask"
  have ph: "phase_ok T" and tk: "tk \<in> set T" "task_status tk = Idle"
    and maps: "task_type tk = ReduceTask \<Longrightarrow> m \<in> set T \<Longrightarrow> task_job m = task_job tk
       \<Longrightarrow> task_type m = MapTask \<Longrightarrow> task_status m = Completed" for m
    using pre by (auto simp: start_pre_def rows_inv_def)
  have done_: "task_status u = Completed"
    if "u \<in> set T" "task_job u = task_job t" "task_type u = MapTask" for u
    using pre t
  proof (cases rule: start_cases)
    case upd
    then show ?thesis using maps that tt by (simp add: same_task_def)
  next
    case old
    then show ?thesis using ph that tt unfolding phase_ok_def by metis
  qed
  from pre m show "task_status m = Completed"
  proof (cases rule: start_cases)
    case upd
    then have "task_status tk = Completed"
      using done_ [OF tk(1)] mt by (simp add: same_task_def)
    then show ?thesis using tk by simp
  next
    case old
    then show ?thesis using done_ mt by blast
  qed
qed

lemma start_settled:
  assumes pre: "start_pre J T A tk na" and j: "settled T j"
  shows "settled (start_task aid (task_id tk) T) j"
proof (cases "\<exists>t\<in>set T. task_job t = j \<and> task_status t = Failed")
  case True
  then obtain t where t: "t \<in> set T" "task_job t = j" "task_status t = Failed" by auto
  have "task_id t \<noteq> task_id tk"
    using task_tab.key_unique [of T t tk] t pre by (auto simp: start_pre_def rows_inv_def keys_ok_def)
  with t show ?thesis using start_keep [of t T "task_id tk" aid] unfolding settled_def by blast
next
  case False
  have tk: "tk \<in> set T" "task_status tk = Idle"
    using pre by (simp_all add: start_pre_def)
  have "task_status t = Completed" if "t \<in> set (start_task aid (task_id tk) T)" "task_job t = j" for t
    using pre that(1)
    by (cases rule: start_cases) (use False j that(2) tk in \<open>auto simp: settled_def same_task_def\<close>)
  then show ?thesis by (simp add: settled_def)
qed

lemma start_inv [inv_intros]:
  assumes pre: "start_pre J T A tk na"
  shows "rows_inv J (start_task (attempt_id na) (task_id tk) T) (A @ [na])"
proof -
  let ?T = "start_task (attempt_id na) (task_id tk) T"
  have inv: "rows_inv J T A" and na: "attempt_id na \<notin> attempt_id ` set A" "attempt_task na = task_id tk"
    and tk: "tk \<in> set T"
    using pre by (simp_all add: start_pre_def)
  have ids: "task_id ` set ?T = task_id ` set T" by (metis set_map start_task_ids)
  have "task_job t \<in> job_id ` set J" if "t \<in> set ?T" for t
    using pre that by (cases rule: start_cases)
      (use inv tk in \<open>auto simp: rows_inv_def refs_ok_def same_task_def\<close>)
  then have "refs_ok J ?T (A @ [na])"
    using inv na tk ids by (auto simp: rows_inv_def refs_ok_def)
  moreover have "keys_ok J ?T (A @ [na])"
    using inv na by (simp add: rows_inv_def keys_ok_def)
  moreover have "clean_ok J ?T"
    using inv start_settled [OF pre] by (auto simp: rows_inv_def clean_ok_def)
  ultimately show ?thesis
    using start_fence [OF pre] start_run [OF pre] start_phase [OF pre] by (simp add: rows_inv_def)
qed

text \<open>A bulk UPDATE of tasks together with one that stops attempts.\<close>

definition bulk_pre ::
  "task_row list \<Rightarrow> attempt_row list \<Rightarrow> (task_row \<Rightarrow> bool) \<Rightarrow> (task_row \<Rightarrow> task_row)
    \<Rightarrow> (attempt_row \<Rightarrow> bool) \<Rightarrow> (attempt_row \<Rightarrow> attempt_row) \<Rightarrow> bool" where
  "bulk_pre T A P f Q g \<longleftrightarrow>
    (\<forall>t. same_task (f t) t \<and> task_status (f t) \<noteq> InProgress
        \<and> (task_status (f t) \<in> {Idle, Completed} \<longrightarrow> current_attempt_id (f t) = None))
    \<and> (\<forall>t\<in>set T. P t \<longrightarrow> task_status t \<noteq> Completed
        \<and> (task_status t = Failed \<longrightarrow> task_status (f t) = Failed)
        \<and> (task_status (f t) = Completed \<longrightarrow> (\<forall>m\<in>set T. task_job m = task_job t \<and> task_type m = MapTask
             \<longrightarrow> task_status m = Completed)))
    \<and> quiet_update g \<and> (\<forall>a. attempt_status (g a) \<noteq> AttemptRunning)
    \<and> (\<forall>a\<in>set A. attempt_status a = AttemptRunning \<and> \<not> Q a \<longrightarrow>
        (\<forall>t\<in>set T. task_id t = attempt_task a \<longrightarrow> \<not> P t))"

lemma bulk_cases:
  assumes pre: "bulk_pre T A P f Q g" and t: "t \<in> set (update_where P f T)"
  obtains (upd) u where "u \<in> set T" "P u" "same_task t u" "task_status t \<noteq> InProgress"
      "task_status t \<in> {Idle, Completed} \<Longrightarrow> current_attempt_id t = None" "t = f u"
  | (old) "t \<in> set T" "\<not> P t"
proof -
  obtain u where u: "u \<in> set T" "t = (if P u then f u else u)"
    by (rule update_where_memE [OF t])
  have f: "same_task (f u) u \<and> task_status (f u) \<noteq> InProgress
      \<and> (task_status (f u) \<in> {Idle, Completed} \<longrightarrow> current_attempt_id (f u) = None)"
    using pre by (simp add: bulk_pre_def)
  show ?thesis
  proof (cases "P u")
    case True
    with u have "t = f u" by simp
    with f u(1) True show ?thesis by (intro upd [of u]) auto
  next
    case False
    with u have "t = u" by simp
    with u(1) False show ?thesis by (intro old) simp_all
  qed
qed

lemma bulk_keep: "t \<in> set T \<Longrightarrow> \<not> P t \<Longrightarrow> t \<in> set (update_where P f T)"
  unfolding set_update_where by (rule image_eqI [of _ _ t]) simp_all

lemma bulk_keys_refs:
  assumes pre: "bulk_pre T A P f Q g" and inv: "rows_inv J T A"
  shows "keys_ok J (update_where P f T) (update_where Q g A)
     \<and> refs_ok J (update_where P f T) (update_where Q g A)"
proof -
  have same: "same_task (f t) t" for t using pre by (simp add: bulk_pre_def)
  then have tids: "map task_id (update_where P f T) = map task_id T"
    by (intro task_tab.update_keys) (simp add: same_task_def)
  have g: "quiet_update g" using pre by (simp add: bulk_pre_def)
  have inv': "rows_inv J T (update_where Q g A)" by (rule quiet_inv [OF inv g])
  have "task_job t \<in> job_id ` set J" if "t \<in> set (update_where P f T)" for t
    using pre that by (cases rule: bulk_cases)
      (use inv in \<open>auto simp: rows_inv_def refs_ok_def same_task_def\<close>)
  moreover have "task_id ` set (update_where P f T) = task_id ` set T"
    using tids by (metis set_map)
  ultimately show ?thesis
    using inv' tids unfolding rows_inv_def keys_ok_def refs_ok_def by simp
qed

lemma bulk_fence:
  assumes pre: "bulk_pre T A P f Q g" and inv: "rows_inv J T A"
  shows "fence_ok (update_where P f T) (update_where Q g A)"
  unfolding fence_ok_def
proof
  fix t assume t: "t \<in> set (update_where P f T)"
  have g: "quiet_update g" using pre by (simp add: bulk_pre_def)
  have "fence_ok T (update_where Q g A)"
    using quiet_inv [OF inv g] by (simp add: rows_inv_def)
  with pre t show "(task_status t = InProgress \<longrightarrow> (\<exists>a\<in>set (update_where Q g A).
        current_attempt_id t = Some (attempt_id a) \<and> attempt_task a = task_id t))
      \<and> (task_status t \<in> {Idle, Completed} \<longrightarrow> current_attempt_id t = None)"
    by (elim bulk_cases) (unfold fence_ok_def, blast+)
qed

lemma bulk_run:
  assumes pre: "bulk_pre T A P f Q g" and inv: "rows_inv J T A"
  shows "run_ok (update_where P f T) (update_where Q g A)"
  unfolding run_ok_def
proof (intro ballI impI)
  fix a assume a: "a \<in> set (update_where Q g A)" "attempt_status a = AttemptRunning"
  from a(1) obtain b where b: "b \<in> set A" "a = (if Q b then g b else b)"
    by (rule update_where_memE)
  have "attempt_status (g b) \<noteq> AttemptRunning" using pre by (simp add: bulk_pre_def)
  with a(2) b have ab: "a = b" "\<not> Q b" by (auto split: if_splits)
  then obtain t where t: "t \<in> set T" "task_id t = attempt_task a" "task_status t = InProgress"
      "current_attempt_id t = Some (attempt_id a)"
    using inv b(1) a(2) unfolding rows_inv_def run_ok_def by blast
  then have "\<not> P t" using pre ab b(1) a(2) unfolding bulk_pre_def by blast
  from bulk_keep [of t T P f, OF t(1) this] t show "\<exists>t\<in>set (update_where P f T). task_id t = attempt_task a
      \<and> task_status t = InProgress \<and> current_attempt_id t = Some (attempt_id a)" by blast
qed

lemma bulk_phase:
  assumes pre: "bulk_pre T A P f Q g" and inv: "rows_inv J T A"
  shows "phase_ok (update_where P f T)"
  unfolding phase_ok_def
proof (intro ballI impI)
  fix t m assume t: "t \<in> set (update_where P f T)"
    and tt: "task_type t = ReduceTask \<and> task_status t \<in> {InProgress, Completed}"
    and m: "m \<in> set (update_where P f T)" and mt: "task_job m = task_job t \<and> task_type m = MapTask"
  have ph: "phase_ok T" using inv by (simp add: rows_inv_def)
  have done_: "task_status u = Completed"
    if u: "u \<in> set T" "task_job u = task_job t" "task_type u = MapTask" for u
    using pre t
  proof (cases rule: bulk_cases)
    case (upd v)
    then have "task_status (f v) = Completed" using tt by auto
    then show ?thesis using pre upd u unfolding bulk_pre_def same_task_def by metis
  next
    case old
    then show ?thesis using ph u tt unfolding phase_ok_def by metis
  qed
  from pre m show "task_status m = Completed"
  proof (cases rule: bulk_cases)
    case (upd v)
    then have "task_status v = Completed" using done_ mt by (simp add: same_task_def)
    moreover have "task_status v \<noteq> Completed" using pre upd unfolding bulk_pre_def by blast
    ultimately show ?thesis by simp
  next
    case old
    then show ?thesis using done_ mt by blast
  qed
qed

lemma bulk_settled:
  assumes pre: "bulk_pre T A P f Q g" and j: "settled T j"
  shows "settled (update_where P f T) j"
proof (cases "\<exists>t\<in>set T. task_job t = j \<and> task_status t = Failed")
  case True
  then obtain t where t: "t \<in> set T" "task_job t = j" "task_status t = Failed" by auto
  let ?u = "if P t then f t else t"
  have "?u \<in> set (update_where P f T)" using t(1) by (rule update_where_memI)
  moreover have "task_job ?u = j \<and> task_status ?u = Failed"
    using pre t unfolding bulk_pre_def same_task_def by auto
  ultimately show ?thesis unfolding settled_def by blast
next
  case False
  with j have all: "task_status t = Completed" if "t \<in> set T" "task_job t = j" for t
    using that unfolding settled_def by blast
  have "task_status t = Completed" if t: "t \<in> set (update_where P f T)" "task_job t = j" for t
    using pre t(1)
  proof (cases rule: bulk_cases)
    case (upd u)
    then have "task_status u = Completed" using all t(2) by (simp add: same_task_def)
    with pre upd show ?thesis unfolding bulk_pre_def by blast
  next
    case old
    then show ?thesis using all t(2) by blast
  qed
  then show ?thesis by (simp add: settled_def)
qed

lemma bulk_inv [inv_intros]:
  assumes pre: "bulk_pre T A P f Q g" and inv: "rows_inv J T A"
  shows "rows_inv J (update_where P f T) (update_where Q g A)"
proof -
  have "clean_ok J (update_where P f T)"
    using inv bulk_settled [OF pre] by (auto simp: rows_inv_def clean_ok_def)
  then show ?thesis
    using bulk_keys_refs [OF pre inv] bulk_fence [OF pre inv] bulk_run [OF pre inv] bulk_phase [OF pre inv]
    by (simp add: rows_inv_def)
qed

section \<open>Queries as row effects\<close>

lemma query_tasks [table_simps]:
  "tasks (QueryCompleteTask tid db) = set_task tid Completed (tasks db)"
  "tasks (QueryUpdateTaskStatus st tid db) = set_task tid st (tasks db)"
  "tasks (QuerySucceedAttempt aid now db) = tasks db"
  "tasks (QueryFailAttempt aid now db) = tasks db"
  "tasks (QueryRenewLease aid now db) = tasks db"
  "tasks (QueryFailRunningAttemptsByJob j now db) = tasks db"
  "tasks (QueryFailRunningAttemptsByReplica r now db) = tasks db"
  "tasks (QueryUpdateJobStatus j s now db) = tasks db"
  by (simp_all add: query_defs set_task_def table_simps)

lemma query_attempts [table_simps]:
  "attempts (QueryCompleteTask tid db) = attempts db"
  "attempts (QueryUpdateTaskStatus st tid db) = attempts db"
  "attempts (QuerySucceedAttempt aid now db) = set_attempt aid AttemptSuccess now (attempts db)"
  "attempts (QueryFailAttempt aid now db) = set_attempt aid AttemptFailed now (attempts db)"
  "attempts (QueryBulkFailNonCompletedTasksByJob j db) = attempts db"
  "attempts (QueryResetTasksForReplica r db) = attempts db"
  "attempts (QueryUpdateJobStatus j s now db) = attempts db"
  by (simp_all add: query_defs set_attempt_def table_simps)

lemma query_jobs [table_simps]:
  "jobs (QueryCompleteTask tid db) = jobs db"
  "jobs (QueryUpdateTaskStatus st tid db) = jobs db"
  "jobs (QuerySucceedAttempt aid now db) = jobs db"
  "jobs (QueryFailAttempt aid now db) = jobs db"
  "jobs (QueryRenewLease aid now db) = jobs db"
  "jobs (QueryBulkFailNonCompletedTasksByJob j db) = jobs db"
  "jobs (QueryFailRunningAttemptsByJob j now db) = jobs db"
  "jobs (QueryFailRunningAttemptsByReplica r now db) = jobs db"
  "jobs (QueryResetTasksForReplica r db) = jobs db"
  "jobs (QueryUpdateJobStatus j s now db) = set_job j s now (jobs db)"
  by (simp_all add: query_defs set_job_def table_simps)

lemma query_outputs [table_simps]:
  "task_outputs (QueryCompleteTask tid db) = task_outputs db"
  "task_outputs (QueryUpdateTaskStatus st tid db) = task_outputs db"
  "task_outputs (QuerySucceedAttempt aid now db) = task_outputs db"
  "task_outputs (QueryFailAttempt aid now db) = task_outputs db"
  "task_outputs (QueryRenewLease aid now db) = task_outputs db"
  "task_outputs (QueryBulkFailNonCompletedTasksByJob j db) = task_outputs db"
  "task_outputs (QueryFailRunningAttemptsByJob j now db) = task_outputs db"
  "task_outputs (QueryFailRunningAttemptsByReplica r now db) = task_outputs db"
  "task_outputs (QueryResetTasksForReplica r db) = task_outputs db"
  "task_outputs (QueryUpdateJobStatus j s now db) = task_outputs db"
  by (simp_all add: query_defs table_simps)

lemma pending_zero_settled: "QueryCountAllPendingTasks j db = 0 \<Longrightarrow> settled (tasks db) j"
  by (simp add: QueryCountAllPendingTasks_def settled_def)

lemma dds_inv_status [inv_intros]:
  "dds_inv db \<Longrightarrow> (s \<notin> {JobPending, JobRunning} \<Longrightarrow> settled (tasks db) j)
    \<Longrightarrow> dds_inv (QueryUpdateJobStatus j s now db)"
  unfolding dds_inv_def table_simps by (rule set_job_inv)

lemma dds_inv_running: "dds_inv db \<Longrightarrow> dds_inv (QueryUpdateJobStatus j JobRunning now db)"
  by (rule dds_inv_status) simp_all

lemma dds_inv_emit [simp]: "dds_inv (emit e db) \<longleftrightarrow> dds_inv db"
  by (simp add: dds_inv_def table_simps)

lemma dds_inv_output [simp]: "dds_inv (QueryInsertOutputBulk tid us cs db) \<longleftrightarrow> dds_inv db"
  by (simp add: dds_inv_def table_simps)

lemma quiet_fail: "quiet_update (\<lambda>a. a\<lparr>attempt_status := AttemptFailed, end_time := e\<rparr>)"
  by (simp add: quiet_update_def)

lemma quiet_renew: "quiet_update (\<lambda>a. a\<lparr>last_renewed_at := n\<rparr>)"
  by (simp add: quiet_update_def)

lemma dds_inv_fail_running [inv_intros]:
  "dds_inv db \<Longrightarrow> dds_inv (QueryFailRunningAttemptsByJob j now db)"
  unfolding dds_inv_def QueryFailRunningAttemptsByJob_def table_simps
  using quiet_fail by (rule quiet_inv [rotated])

lemma dds_inv_renew [inv_intros]: "dds_inv db \<Longrightarrow> dds_inv (QueryRenewLease aid now db)"
  unfolding dds_inv_def QueryRenewLease_def table_simps
  using quiet_renew by (rule quiet_inv [rotated])

lemma fence_InrD:
  assumes "fence s db now tid aid lid = Inr j"
  obtains tk where "tk \<in> set (tasks db)" "task_id tk = tid" "task_status tk = InProgress"
    "current_attempt_id tk = Some aid" "task_job tk = j" "validateLeaseTx s db now aid lid = Inr ()"
  using assms
  by (auto simp: fence_def QuerySelectTaskForUpdate_def dest: find_row_SomeD
      split: option.splits if_splits sum.splits)

lemma dds_inv_complete [inv_intros]:
  assumes "dds_inv db" "fence s db now tid aid lid = Inr j"
  shows "dds_inv (QuerySucceedAttempt aid now (QueryCompleteTask tid db))"
proof -
  from assms(2) obtain tk where "tk \<in> set (tasks db)" "task_id tk = tid" "task_status tk = InProgress"
    "current_attempt_id tk = Some aid" by (rule fence_InrD)
  with assms(1) show ?thesis
    using finish_inv [of "jobs db" "tasks db" "attempts db" tk aid Completed AttemptSuccess now]
    by (simp add: dds_inv_def finish_pre_def table_simps)
qed

lemma dds_inv_end_attempt [inv_intros]:
  assumes "dds_inv db" "tk \<in> set (tasks db)" "task_id tk = tid" "task_status tk = InProgress"
    "current_attempt_id tk = Some aid" "st \<noteq> InProgress"
  shows "dds_inv (QueryFailAttempt aid now (QueryUpdateTaskStatus st tid db))"
  using assms finish_inv [of "jobs db" "tasks db" "attempts db" tk aid st AttemptFailed now]
  by (simp add: dds_inv_def finish_pre_def table_simps)

lemma CompleteTask_inv:
  assumes "dds_inv db"
  shows "dds_inv (snd (snd (CompleteTask s db now ids tid aid lid us cs)))"
  using assms
  by (auto simp: CompleteTask_def Let_def split: option.splits sum.splits
      intro!: dds_inv_status dds_inv_complete pending_zero_settled)

lemma RenewLease_inv:
  "dds_inv db \<Longrightarrow> dds_inv (snd (snd (RenewLease s db now ids tid aid lid)))"
  by (auto simp: RenewLease_def Let_def split: sum.splits prod.splits intro!: dds_inv_renew)

lemma fence_job:
  "select_job_of_task tid db = Some (j, st) \<Longrightarrow> fence s db now tid aid lid = Inr j' \<Longrightarrow> j' = j"
  by (auto simp: select_job_of_task_def fence_def QuerySelectTaskForUpdate_def
      split: option.splits if_splits sum.splits)

lemma set_task_settled:
  assumes "tk \<in> set T" shows "settled (set_task (task_id tk) Failed T) (task_job tk)"
proof -
  have "tk\<lparr>task_status := Failed, current_attempt_id := None\<rparr> \<in> set (set_task (task_id tk) Failed T)"
    unfolding set_task_def
    using update_where_memI [OF assms, of "\<lambda>t. task_id t = task_id tk"
        "\<lambda>t. t\<lparr>task_status := Failed, current_attempt_id := None\<rparr>"] by simp
  then show ?thesis unfolding settled_def by (intro disjI1 bexI) simp_all
qed

lemma FailTask_inv:
  assumes inv: "dds_inv db"
  shows "dds_inv (snd (snd (FailTask s db now ids tid aid lid reason)))"
proof (cases "\<exists>j st j'. select_job_of_task tid db = Some (j, st) \<and> fence s db now tid aid lid = Inr j'")
  case True
  then obtain j st j' where sel: "select_job_of_task tid db = Some (j, st)"
    and f: "fence s db now tid aid lid = Inr j'" by blast
  from f obtain tk where tk: "tk \<in> set (tasks db)" "task_id tk = tid" "task_status tk = InProgress"
    "current_attempt_id tk = Some aid" "task_job tk = j'" by (rule fence_InrD)
  have j: "j' = j" by (rule fence_job [OF sel f])
  have "settled (set_task tid Failed (tasks db)) j"
    using set_task_settled [OF tk(1)] tk(2,5) j by simp
  then show ?thesis
    using inv tk sel f
    by (auto simp: FailTask_def Let_def table_simps intro!: dds_inv_status dds_inv_end_attempt)
next
  case False
  then show ?thesis
    using inv by (auto simp: FailTask_def Let_def split: option.splits sum.splits prod.splits)
qed

lemma job_transition_InrD:
  assumes "applyJobTransitionTx db now j to = Inr (old, db1)"
  shows "(db1 = db \<and> old = to \<or> db1 = QueryUpdateJobStatus j to now db \<and> job_edge old to)
    \<and> QueryGetJobStatusForUpdate j db = Some old"
  using assms
  by (auto simp: applyJobTransitionTx_def job_edge_def split: option.splits if_splits sum.splits)

lemma cancel_bulk_pre:
  assumes "rows_inv J T A" "\<And>a. Q a \<longleftrightarrow> task_in_job db j a \<and> attempt_status a = AttemptRunning"
    "map (\<lambda>t. (task_id t, task_job t)) (tasks db) = map (\<lambda>t. (task_id t, task_job t)) T"
  shows "bulk_pre T A (\<lambda>t. task_job t = j \<and> task_status t \<noteq> Completed) (\<lambda>t. t\<lparr>task_status := Failed\<rparr>)
     Q (\<lambda>a. a\<lparr>attempt_status := AttemptFailed, end_time := e\<rparr>)"
proof -
  have "(\<lambda>t. (task_id t, task_job t)) ` set (tasks db) = (\<lambda>t. (task_id t, task_job t)) ` set T"
    using assms(3) by (metis set_map)
  then have "task_in_job db j a" if "t \<in> set T" "task_id t = attempt_task a" "task_job t = j" for t a
    using that unfolding task_in_job_def by (metis (mono_tags, lifting) imageE image_eqI prod.inject)
  then show ?thesis
    using assms(2) by (auto simp: bulk_pre_def quiet_fail same_task_def)
qed

lemma bulk_fail_settled:
  "settled (update_where (\<lambda>t. task_job t = j \<and> task_status t \<noteq> Completed) (\<lambda>t. t\<lparr>task_status := Failed\<rparr>) T) j"
    (is "settled (update_where ?P ?f T) j")
proof (cases "\<exists>t\<in>set T. ?P t")
  case True
  then obtain t where t: "t \<in> set T" "?P t" by blast
  then have "?f t \<in> set (update_where ?P ?f T)"
    using update_where_memI [OF t(1), of ?P ?f] by simp
  moreover have "task_job (?f t) = j \<and> task_status (?f t) = Failed" using t(2) by simp
  ultimately show ?thesis unfolding settled_def by blast
next
  case False
  then have "update_where ?P ?f T = T"
    unfolding update_where_def by (intro map_idI) simp
  with False show ?thesis by (simp add: settled_def)
qed

lemma CancelJob_inv:
  assumes inv: "dds_inv db"
  shows "dds_inv (snd (snd (CancelJob s db now ids j)))"
proof (cases "applyJobTransitionTx db now j JobCleaning")
  case (Inl e)
  then show ?thesis using inv by (cases e) (simp_all add: CancelJob_def)
next
  case (Inr r)
  obtain old db1 where r: "r = (old, db1)" by (cases r)
  note tr = job_transition_InrD [OF Inr [unfolded r]]
  define T where "T = update_where (\<lambda>t. task_job t = j \<and> task_status t \<noteq> Completed)
    (\<lambda>t. t\<lparr>task_status := Failed\<rparr>) (tasks db)"
  let ?db2 = "QueryBulkFailNonCompletedTasksByJob j db1"
  let ?Q = "\<lambda>a. task_in_job ?db2 j a \<and> attempt_status a = AttemptRunning"
  let ?g = "\<lambda>a. a\<lparr>attempt_status := AttemptFailed, end_time := Some now\<rparr>"
  have sel: "tasks db1 = tasks db" "attempts db1 = attempts db"
    using tr by (auto simp: table_simps)
  have T2: "tasks ?db2 = T"
    by (simp add: QueryBulkFailNonCompletedTasksByJob_def table_simps sel T_def)
  have "map (\<lambda>t. (task_id t, task_job t)) T = map (\<lambda>t. (task_id t, task_job t)) (tasks db)"
    by (simp add: T_def update_where_def)
  then have "rows_inv (jobs db) T (update_where ?Q ?g (attempts db))"
    unfolding T_def using inv T2 T_def
    by (intro bulk_inv cancel_bulk_pre [of "jobs db" _ _ _ ?db2]) (simp_all add: dds_inv_def)
  moreover have "settled T j"
    unfolding T_def by (rule bulk_fail_settled)
  ultimately have "rows_inv (jobs db1) T (update_where ?Q ?g (attempts db))"
    using tr by (auto simp: table_simps intro: set_job_inv)
  then show ?thesis
    using Inr r T2
    by (simp add: CancelJob_def Let_def dds_inv_def table_simps sel QueryFailRunningAttemptsByJob_def)
qed

end
