(* ===== verification/Scheduler_Ops.thy ===== *)
theory Scheduler_Ops
  imports Scheduler_Inv
begin

text \<open>
  Preservation of the store invariant by the remaining scheduler methods:
  assignment, scheduling of a new job, the reaper, recovery and the cleanup
  reconciler.
\<close>

section \<open>Recovery\<close>

lemma job_on_replica_cong: "jobs db = jobs db' \<Longrightarrow> job_on_replica db r j = job_on_replica db' r j"
  by (simp add: job_on_replica_def)

lemma recover_bulk_pre:
  "bulk_pre T A (\<lambda>t. task_status t = InProgress \<and> R (task_job t))
     (\<lambda>t. t\<lparr>task_status := Idle, current_attempt_id := None\<rparr>)
     (\<lambda>a. attempt_status a = AttemptRunning \<and> (\<exists>t\<in>set T. task_id t = attempt_task a \<and> R (task_job t)))
     (\<lambda>a. a\<lparr>attempt_status := AttemptFailed, end_time := e\<rparr>)"
  by (auto simp: bulk_pre_def quiet_fail same_task_def)

lemma Recover_inv:
  assumes "dds_inv db" shows "dds_inv (snd (Recover s db now))"
proof -
  let ?r = "replicaIndex s"
  have "job_on_replica (QueryFailRunningAttemptsByReplica ?r now db) ?r j = job_on_replica db ?r j" for j
    by (rule job_on_replica_cong) (simp add: table_simps)
  then show ?thesis
    using bulk_inv [OF recover_bulk_pre [of "tasks db" "attempts db" "job_on_replica db ?r" "Some now"]] assms
    by (simp add: Recover_def Let_def dds_inv_def QueryResetTasksForReplica_def
        QueryFailRunningAttemptsByReplica_def table_simps)
qed

section \<open>Assignment\<close>

definition maps_done :: "task_row list \<Rightarrow> uuid \<Rightarrow> bool" where
  "maps_done T j \<longleftrightarrow> (\<forall>m\<in>set T. task_job m = j \<and> task_type m = MapTask \<longrightarrow> task_status m = Completed)"

lemma maps_done_count: "QueryCountPendingTasksByType j MapTask db = 0 \<longleftrightarrow> maps_done (tasks db) j"
  by (auto simp: QueryCountPendingTasksByType_def maps_done_def)

lemma update_none [simp]: "update_where (\<lambda>_. False) g A = A"
  by (simp add: update_where_def)

lemma autocomplete_bulk_pre:
  assumes "rows_inv J T A" "maps_done T j" "\<And>t. P t \<Longrightarrow> task_job t = j \<and> task_status t = Idle"
  shows "bulk_pre T A P (\<lambda>t. t\<lparr>task_status := Completed, current_attempt_id := None\<rparr>) (\<lambda>_. False)
     (\<lambda>a. a\<lparr>attempt_status := AttemptFailed, end_time := None\<rparr>)"
proof -
  have run: "run_ok T A" and d: "distinct (map task_id T)"
    using assms(1) by (simp_all add: rows_inv_def keys_ok_def)
  have "\<not> P t" if "a \<in> set A" "attempt_status a = AttemptRunning" "t \<in> set T" "task_id t = attempt_task a" for a t
  proof -
    obtain u where "u \<in> set T" "task_id u = attempt_task a" "task_status u = InProgress"
      using run \<open>a \<in> set A\<close> \<open>attempt_status a = AttemptRunning\<close> unfolding run_ok_def by blast
    then have "task_status t = InProgress"
      using task_tab.key_unique [OF d \<open>t \<in> set T\<close>, of u] that(4) by simp
    then show ?thesis using assms(3) by fastforce
  qed
  moreover have "task_status m = Completed"
    if "P t" "m \<in> set T" "task_job m = task_job t" "task_type m = MapTask" for t m
    using assms(2) assms(3) [OF that(1)] that unfolding maps_done_def by simp
  moreover have "P t \<Longrightarrow> task_status t = Idle" for t using assms(3) by blast
  ultimately show ?thesis
    unfolding bulk_pre_def by (auto simp: quiet_fail same_task_def)
qed

lemma empty_reduceD: "empty_reduce db j t \<Longrightarrow> task_job t = j \<and> task_type t = ReduceTask \<and> task_status t = Idle"
  by (simp add: empty_reduce_def)

lemma complete_empty_inv:
  assumes "dds_inv db" "maps_done (tasks db) j"
  shows "dds_inv (snd (QueryCompleteEmptyReduceTasks j db))"
proof -
  have "rows_inv (jobs db) (update_where (empty_reduce db j)
      (\<lambda>t. t\<lparr>task_status := Completed, current_attempt_id := None\<rparr>) (tasks db)) (attempts db)"
    using assms empty_reduceD [of db j]
    by (intro bulk_inv [OF autocomplete_bulk_pre, where J1 = "jobs db", simplified]) (auto simp: dds_inv_def)
  then show ?thesis
    by (simp add: QueryCompleteEmptyReduceTasks_def dds_inv_def table_simps)
qed

lemma autoComplete_inv:
  assumes "dds_inv db" "maps_done (tasks db) j"
  shows "dds_inv (snd (autoCompleteEmptyReducesTx db now j))"
  using complete_empty_inv [OF assms] unfolding autoCompleteEmptyReducesTx_def
  by (auto simp: Let_def split: prod.splits intro!: dds_inv_status pending_zero_settled)

lemma update_maps_done:
  assumes "maps_done T j" "\<And>t. P t \<Longrightarrow> task_type t = ReduceTask" "\<And>t. same_task (f t) t"
  shows "maps_done (update_where P f T) j"
  unfolding maps_done_def
proof (intro ballI impI)
  fix m assume "m \<in> set (update_where P f T)" and m: "task_job m = j \<and> task_type m = MapTask"
  then obtain u where u: "u \<in> set T" "m = (if P u then f u else u)" by (blast elim: update_where_memE)
  have "\<not> P u" using u m assms(2,3) [of u] by (auto simp: same_task_def)
  with u m assms(1) show "task_status m = Completed" by (simp add: maps_done_def)
qed

lemma autoComplete_maps_done:
  assumes "maps_done (tasks db) j"
  shows "maps_done (tasks (snd (autoCompleteEmptyReducesTx db now j))) j"
proof -
  have "maps_done (tasks (snd (QueryCompleteEmptyReduceTasks j db))) j"
    unfolding QueryCompleteEmptyReduceTasks_def snd_conv table_simps
    by (rule update_maps_done [OF assms]) (simp_all add: empty_reduce_def same_task_def)
  then show ?thesis
    by (auto simp: autoCompleteEmptyReducesTx_def table_simps split: prod.splits)
qed

lemma hydrate_keys:
  assumes "hydrateTaskMetadata row t db = Inr t1"
  shows "t_ID t1 = t_ID t \<and> t_JobID t1 = t_JobID t \<and> t_Type t1 = t_Type t \<and> t_State t1 = t_State t
    \<and> t_ActiveAttemptID t1 = t_ActiveAttemptID t \<and> t_LeaseID t1 = t_LeaseID t"
  using assms by (auto simp: hydrateTaskMetadata_def Let_def split: option.splits if_splits list.splits)

definition new_attempt :: "scheduler \<Rightarrow> seconds \<Rightarrow> (nat \<Rightarrow> uuid) \<Rightarrow> uuid \<Rightarrow> string \<Rightarrow> attempt_row" where
  "new_attempt s now ids tid w =
    \<lparr> attempt_id = ids 0, attempt_task = tid, worker_id = w, lease_id = ids 1, last_renewed_at = now,
      lease_ttl = leaseTTL s, start_time = now, end_time = None, attempt_status = AttemptRunning \<rparr>"

lemma new_attempt_sel [simp]:
  "attempt_id (new_attempt s now ids tid w) = ids 0" "attempt_task (new_attempt s now ids tid w) = tid"
  "attempt_status (new_attempt s now ids tid w) = AttemptRunning"
  by (simp_all add: new_attempt_def)

lemma tryAssign_InrD:
  assumes "tryAssignTask s db now ids j w ty = Inr (t, s1, db2)"
  obtains row where "row \<in> set (tasks db)" "idle_candidate j (replicaIndex s) ty row"
    "QuerySelectIdleTask j (replicaIndex s) ty db = Some row"
    "enforceQuotaTx db = Inr ()" "ids 0 \<notin> attempt_id ` set (attempts db)"
    "tasks db2 = start_task (ids 0) (task_id row) (tasks db)"
    "attempts db2 = attempts db @ [new_attempt s now ids (task_id row) w]"
    "jobs db2 = jobs db" "config db2 = config db" "task_outputs db2 = task_outputs db"
    "t_ID t = task_id row" "t_JobID t = j" "t_Type t = ty" "t_ActiveAttemptID t = ids 0" "t_LeaseID t = ids 1"
proof -
  from assms obtain row where row: "QuerySelectIdleTask j (replicaIndex s) ty db = Some row"
    by (auto simp: tryAssignTask_def split: option.splits)
  from idle_task_SomeD [OF row] have cand: "row \<in> set (tasks db)" "idle_candidate j (replicaIndex s) ty row"
    by simp_all
  with assms row show ?thesis
    by (intro that [of row])
      (auto simp: tryAssignTask_def Let_def QueryUpdateTaskInProgress_def QueryInsertAttempt_def
        start_task_def new_attempt_def table_simps idle_candidate_def zero_Task_def
        dest!: hydrate_keys split: if_splits sum.splits option.splits)
qed

lemma tryAssign_inv:
  assumes inv: "dds_inv db" and ass: "tryAssignTask s db now ids j w ty = Inr (t, s1, db2)"
    and maps: "ty = ReduceTask \<Longrightarrow> maps_done (tasks db) j"
  shows "dds_inv db2"
proof -
  from ass obtain row where row: "row \<in> set (tasks db)" "idle_candidate j (replicaIndex s) ty row"
    "ids 0 \<notin> attempt_id ` set (attempts db)"
    "tasks db2 = start_task (ids 0) (task_id row) (tasks db)"
    "attempts db2 = attempts db @ [new_attempt s now ids (task_id row) w]" "jobs db2 = jobs db"
    by (rule tryAssign_InrD)
  have "start_pre (jobs db) (tasks db) (attempts db) row (new_attempt s now ids (task_id row) w)"
    using inv row maps by (auto simp: start_pre_def dds_inv_def idle_candidate_def maps_done_def)
  from start_inv [OF this] row show ?thesis by (simp add: dds_inv_def)
qed

text \<open>The four ways a call of \<^verbatim>\<open>GetNextTask\<close> can leave the store.\<close>

lemma GetNextTask_cases:
  assumes X_def: "X = GetNextTask parse s db now ids jobID w"
  obtains (same) "snd (snd X) = db" "fst (snd X) = s" "\<exists>e. fst X = Inl e"
  | (map) j t s1 db1 e where "parse jobID = Some j" "QueryCountFailedTasks j db = 0"
      "tryAssignTask s db now ids j w MapTask = Inr (t, s1, db1)"
      "X = (Inr t, s1, emit e (QueryUpdateJobStatus j JobRunning now db1))"
  | (reduce) j b db1 t s1 db2 where "parse jobID = Some j" "QueryCountFailedTasks j db = 0"
      "maps_done (tasks db) j" "autoCompleteEmptyReducesTx db now j = (b, db1)"
      "tryAssignTask s db1 now ids j w ReduceTask = Inr (t, s1, db2)"
      "X = (Inr t, s1, QueryUpdateJobStatus j JobRunning now db2)"
  | (auto) j b db1 where "parse jobID = Some j" "QueryCountFailedTasks j db = 0"
      "maps_done (tasks db) j" "autoCompleteEmptyReducesTx db now j = (b, db1)" "snd (snd X) = db1"
      "fst (snd X) = (if b then enqueueCleanup j (Some JobCompleted) s else s)" "\<exists>e. fst X = Inl e"
proof (cases "\<exists>j. parse jobID = Some j \<and> QueryCountFailedTasks j db = 0 \<and> jobID \<noteq> [] \<and> w \<noteq> []
    \<and> (\<exists>jr. find_job j db = Some jr \<and> job_replica jr = replicaIndex s)")
  case False
  then have "snd (snd X) = db \<and> fst (snd X) = s \<and> (\<exists>e. fst X = Inl e)"
    unfolding X_def GetNextTask_def by (auto split: option.splits)
  then show ?thesis using same by blast
next
  case True
  then obtain j jr where j: "parse jobID = Some j" "QueryCountFailedTasks j db = 0" "jobID \<noteq> []" "w \<noteq> []"
    "find_job j db = Some jr" "job_replica jr = replicaIndex s" by blast
  show ?thesis
  proof (cases "tryAssignTask s db now ids j w MapTask")
    case (Inr m)
    then show ?thesis using j by (cases m) (auto simp: X_def GetNextTask_def intro: map)
  next
    case (Inl e)
    show ?thesis
    proof (cases "e = ErrNoIdleTasks \<and> maps_done (tasks db) j")
      case False
      then have "snd (snd X) = db \<and> fst (snd X) = s \<and> (\<exists>e. fst X = Inl e)"
        using j Inl by (auto simp: X_def GetNextTask_def simp flip: maps_done_count)
      then show ?thesis using same by blast
    next
      case True
      obtain b db1 where auto_: "autoCompleteEmptyReducesTx db now j = (b, db1)" by fastforce
      have md: "QueryCountPendingTasksByType j MapTask db = 0" using True by (simp add: maps_done_count)
      show ?thesis
      proof (cases "tryAssignTask s db1 now ids j w ReduceTask")
        case (Inr m)
        then show ?thesis using j Inl True md auto_ by (cases m) (auto simp: X_def GetNextTask_def intro: reduce)
      next
        case (Inl e2)
        show ?thesis
        proof (cases "e2 = ErrNoIdleTasks")
          case True
          then show ?thesis
            using j Inl \<open>tryAssignTask s db now ids j w MapTask = Inl e\<close> \<open>e = ErrNoIdleTasks \<and> maps_done (tasks db) j\<close> md auto_
            by (intro auto [of j b db1]) (simp_all add: X_def GetNextTask_def)
        next
          case False
          then have "snd (snd X) = db \<and> fst (snd X) = s \<and> (\<exists>e. fst X = Inl e)"
            using j Inl \<open>tryAssignTask s db now ids j w MapTask = Inl e\<close> \<open>e = ErrNoIdleTasks \<and> maps_done (tasks db) j\<close> md auto_
            by (simp add: X_def GetNextTask_def)
          then show ?thesis using same by blast
        qed
      qed
    qed
  qed
qed

lemma GetNextTask_inv:
  assumes inv: "dds_inv db"
  shows "dds_inv (snd (snd (GetNextTask parse s db now ids jobID w)))"
  using refl [of "GetNextTask parse s db now ids jobID w"]
proof (cases rule: GetNextTask_cases)
  case (map j t s1 db1 e)
  then show ?thesis using tryAssign_inv [OF inv map(3)] by (simp add: dds_inv_running)
next
  case (reduce j b db1 t s1 db2)
  have "dds_inv db1" "maps_done (tasks db1) j"
    using autoComplete_inv [OF inv reduce(3), of now] autoComplete_maps_done [OF reduce(3), of now] reduce(4) by simp_all
  then show ?thesis using tryAssign_inv [OF _ reduce(5)] reduce(6) by (simp add: dds_inv_running)
next
  case (auto j b db1)
  then show ?thesis using autoComplete_inv [OF inv auto(3), of now] by simp
qed (use inv in simp)

section \<open>The reaper\<close>

definition live_rec :: "task_row list \<Rightarrow> staleRec \<Rightarrow> bool" where
  "live_rec T rec \<longleftrightarrow> (\<exists>t\<in>set T. task_id t = sr_task rec \<and> task_status t = InProgress
     \<and> current_attempt_id t = Some (sr_attempt rec) \<and> task_job t = sr_job rec)"

lemma reap_tasks:
  "tasks (rp_db (reap_one s now rec r)) = (if reap_fresh s now rec then tasks (rp_db r)
    else set_task (sr_task rec) (if sr_attemptCount rec \<ge> MaxTaskAttempts then Failed else Idle) (tasks (rp_db r)))"
  by (simp add: reap_one_def Let_def table_simps)

lemma live_set_task: "live_rec T rec \<Longrightarrow> sr_task rec \<noteq> tid \<Longrightarrow> live_rec (set_task tid st T) rec"
  unfolding live_rec_def by (metis set_task_keep)

lemma reap_live:
  "live_rec (tasks (rp_db r)) rec' \<Longrightarrow> sr_task rec' \<noteq> sr_task rec
    \<Longrightarrow> live_rec (tasks (rp_db (reap_one s now rec r))) rec'"
  by (simp add: reap_tasks live_set_task)

lemma reap_one_inv:
  assumes inv: "dds_inv (rp_db r)" and live: "live_rec (tasks (rp_db r)) rec"
  shows "dds_inv (rp_db (reap_one s now rec r))"
proof -
  from live obtain t where t: "t \<in> set (tasks (rp_db r))" "task_id t = sr_task rec"
    "task_status t = InProgress" "current_attempt_id t = Some (sr_attempt rec)" "task_job t = sr_job rec"
    unfolding live_rec_def by blast
  have "settled (set_task (sr_task rec) Failed (tasks (rp_db r))) (sr_job rec)"
    using set_task_settled [OF t(1)] t by simp
  then show ?thesis
    using inv t by (auto simp: reap_one_def Let_def table_simps intro!: dds_inv_status dds_inv_end_attempt)
qed

lemma reap_fold_inv:
  "dds_inv (rp_db r) \<Longrightarrow> distinct (map sr_task recs) \<Longrightarrow> (\<And>rec. rec \<in> set recs \<Longrightarrow> live_rec (tasks (rp_db r)) rec)
    \<Longrightarrow> dds_inv (rp_db (fold (reap_one s now) recs r))"
proof (induction recs arbitrary: r)
  case (Cons rec recs)
  have "live_rec (tasks (rp_db (reap_one s now rec r))) rec'" if "rec' \<in> set recs" for rec'
    using Cons.prems(2,3) that by (intro reap_live) (auto simp: image_iff)
  with Cons.prems show ?case
    by (simp add: Cons.IH reap_one_inv)
qed simp

lemma distinct_concat_keys:
  assumes "distinct (map k xs)" "\<And>x. length (f x) \<le> 1" "\<And>x y. y \<in> set (f x) \<Longrightarrow> g y = k x"
  shows "distinct (map g (concat (map f xs)))"
  using assms(1)
proof (induction xs)
  case (Cons x xs)
  have one: "distinct (map g (f x))"
    using assms(2) [of x] by (cases "f x") (auto simp: length_Suc_conv)
  have "g y \<noteq> g z" if "y \<in> set (f x)" "z \<in> set (concat (map f xs))" for y z
    using that assms(3) Cons.prems by fastforce
  with one Cons show ?case by fastforce
qed simp

lemma filter_key_le1: "distinct (map k xs) \<Longrightarrow> length (filter (\<lambda>x. k x = c \<and> P x) xs) \<le> 1"
  by (induction xs) (auto simp: filter_empty_conv image_iff)

lemma concat_if: "concat (map (\<lambda>a. if P a then [h a] else []) xs) = map h (filter P xs)"
  by (induction xs) auto

lemma stale_rec_mem:
  assumes "rec \<in> set (QuerySelectStaleTasks r db)"
  shows "live_rec (tasks db) rec"
  using assms unfolding QuerySelectStaleTasks_def live_rec_def by (auto split: if_splits)

lemma stale_recs_distinct:
  assumes "dds_inv db"
  shows "distinct (map sr_task (QuerySelectStaleTasks r db))"
proof -
  have d: "distinct (map task_id (tasks db))" "distinct (map attempt_id (attempts db))"
    using assms by (simp_all add: dds_inv_def rows_inv_def keys_ok_def)
  have le: "length (filter (\<lambda>a. current_attempt_id t = Some (attempt_id a) \<and> P a) (attempts db)) \<le> 1" for t P
    using filter_key_le1 [OF d(2), of "the (current_attempt_id t)" P]
    by (cases "current_attempt_id t") (auto simp: eq_commute)
  show ?thesis
    unfolding QuerySelectStaleTasks_def concat_if
    by (rule distinct_concat_keys [where k = task_id]) (use d le in \<open>auto simp: conj_assoc\<close>)
qed

lemma emit_fold_inv [simp]:
  "dds_inv (emit_reaped ids now recs db) \<longleftrightarrow> dds_inv db"
  "dds_inv (emit_failed_jobs ids k now js db) \<longleftrightarrow> dds_inv db"
proof -
  have "dds_inv (fold (\<lambda>x. emit (h x)) xs db) \<longleftrightarrow> dds_inv db" for h :: "'b \<Rightarrow> EventEnvelope" and xs
    by (induction xs arbitrary: db) simp_all
  then show "dds_inv (emit_reaped ids now recs db) \<longleftrightarrow> dds_inv db"
    "dds_inv (emit_failed_jobs ids k now js db) \<longleftrightarrow> dds_inv db"
    by (simp_all add: emit_reaped_def emit_failed_jobs_def case_prod_unfold)
qed

lemma respawn_job_snd [simp]: "snd (respawn_job now j sd) = QueryFailRunningAttemptsByJob j now (snd sd)"
  by (simp add: respawn_job_def split: prod.split)

lemma respawn_fold_inv: "dds_inv (snd sd) \<Longrightarrow> dds_inv (snd (fold (respawn_job now) js sd))"
  by (induction js arbitrary: sd) (simp_all add: dds_inv_fail_running)

lemma FailStaleTasks_inv:
  assumes inv: "dds_inv db"
  shows "dds_inv (snd (snd (FailStaleTasks s db now ids)))"
proof -
  let ?st = "QuerySelectStaleTasks (replicaIndex s) db"
  let ?r = "fold (reap_one s now) ?st \<lparr> rp_db = db, rp_recovered = 0, rp_respawn = [], rp_failedJobs = [] \<rparr>"
  have "dds_inv (rp_db ?r)"
    by (rule reap_fold_inv) (use inv stale_recs_distinct stale_rec_mem in simp_all)
  then show ?thesis
    by (auto simp: FailStaleTasks_def Let_def split: prod.split dest!: arg_cong [where f = snd]
        intro!: respawn_fold_inv)
qed

section \<open>Scheduling\<close>

definition job_new :: "dds \<Rightarrow> uuid \<Rightarrow> bool" where
  "job_new db j \<longleftrightarrow> j \<in> job_id ` set (jobs db)
    \<and> (\<forall>r\<in>set (jobs db). job_id r = j \<longrightarrow> job_status r = JobPending)
    \<and> (\<forall>t\<in>set (tasks db). task_job t = j \<longrightarrow> task_status t = Idle)"

lemma run_ok_mono: "run_ok T A \<Longrightarrow> set T \<subseteq> set T' \<Longrightarrow> run_ok T' A"
  unfolding run_ok_def by (meson subsetD)

lemma insert_task_inv:
  assumes inv: "dds_inv db" and j: "job_new db j" and ins: "QueryInsertTask tid j ty r db = Some db1"
  shows "dds_inv db1 \<and> job_new db1 j"
proof -
  define nt where "nt = \<lparr> task_id = tid, task_job = j, task_type = ty, task_status = Idle,
    replica_index = r, current_attempt_id = None \<rparr>"
  have db1: "jobs db1 = jobs db" "attempts db1 = attempts db" "tasks db1 = tasks db @ [nt]"
    and fresh: "tid \<notin> task_id ` set (tasks db)"
    using ins by (auto simp: QueryInsertTask_def nt_def split: if_splits)
  have nt: "task_id nt = tid" "task_job nt = j" "task_status nt = Idle" "current_attempt_id nt = None"
    by (simp_all add: nt_def)
  have R: "rows_inv (jobs db) (tasks db) (attempts db)" using inv by (simp add: dds_inv_def)
  then have run: "run_ok (tasks db) (attempts db)" and ph: "phase_ok (tasks db)"
    and cl: "clean_ok (jobs db) (tasks db)" by (simp_all add: rows_inv_def)
  have idle: "t \<in> set (tasks db) \<Longrightarrow> task_job t = j \<Longrightarrow> task_status t = Idle" for t
    using j by (simp add: job_new_def)
  have pend: "r \<in> set (jobs db) \<Longrightarrow> job_id r = j \<Longrightarrow> job_status r = JobPending" for r
    using j by (simp add: job_new_def)
  have "keys_ok (jobs db) (tasks db @ [nt]) (attempts db)"
    using R fresh nt by (simp add: rows_inv_def keys_ok_def)
  moreover have "refs_ok (jobs db) (tasks db @ [nt]) (attempts db)"
    using R j nt by (simp add: rows_inv_def refs_ok_def job_new_def)
  moreover have "fence_ok (tasks db @ [nt]) (attempts db)"
    using R nt by (simp add: rows_inv_def fence_ok_def)
  moreover have "run_ok (tasks db @ [nt]) (attempts db)"
    using run by (rule run_ok_mono) (simp add: subset_insertI)
  moreover have "phase_ok (tasks db @ [nt])"
    unfolding phase_ok_def
  proof (intro ballI impI)
    fix t m assume t: "t \<in> set (tasks db @ [nt])" "task_type t = ReduceTask \<and> task_status t \<in> {InProgress, Completed}"
      and m: "m \<in> set (tasks db @ [nt])" "task_job m = task_job t \<and> task_type m = MapTask"
    have "t \<noteq> nt" using t(2) nt(3) by (cases "t = nt") simp_all
    with t(1) have tin: "t \<in> set (tasks db)" by simp
    then have "task_job t \<noteq> j" using t(2) idle [OF tin] by (cases "task_job t = j") simp_all
    with m(2) nt(2) have "m \<noteq> nt" by metis
    with m(1) have "m \<in> set (tasks db)" by simp
    then show "task_status m = Completed"
      using ph tin t(2) m(2) unfolding phase_ok_def by blast
  qed
  moreover have "clean_ok (jobs db) (tasks db @ [nt])"
    unfolding clean_ok_def
  proof (intro ballI impI)
    fix r assume r: "r \<in> set (jobs db)" "job_status r \<notin> {JobPending, JobRunning}"
    then have "job_id r \<noteq> j" using pend [OF r(1)] by (cases "job_id r = j") simp_all
    moreover have "settled (tasks db) (job_id r)" using cl r by (simp add: clean_ok_def)
    ultimately show "settled (tasks db @ [nt]) (job_id r)" using nt(2) by (simp add: settled_def)
  qed
  ultimately have "dds_inv db1" by (simp add: dds_inv_def rows_inv_def db1)
  then show ?thesis using j nt by (simp add: job_new_def db1)
qed

lemma insert_splits_rows:
  "insert_splits tid ss db = Some db1 \<Longrightarrow>
    jobs db1 = jobs db \<and> tasks db1 = tasks db \<and> attempts db1 = attempts db
    \<and> task_outputs db1 = task_outputs db \<and> config db1 = config db"
  by (induction tid ss db rule: insert_splits.induct)
    (auto simp: QueryInsertTaskInput_def split: if_splits option.splits)

lemma insert_tasks_keeps:
  assumes "insert_tasks parse j r ts db = Inr db1" "P db"
    and ins: "\<And>tid ty ri d d'. P d \<Longrightarrow> QueryInsertTask tid j ty ri d = Some d' \<Longrightarrow> P d'"
    and spl: "\<And>tid ss d d'. P d \<Longrightarrow> insert_splits tid ss d = Some d' \<Longrightarrow> P d'"
  shows "P db1"
  using assms(1,2)
proof (induction ts arbitrary: db)
  case (Cons t ts)
  from Cons.prems(1) obtain tid ty ri dba dbb where step:
    "QueryInsertTask tid j ty ri db = Some dba" "insert_splits tid (st_InputSplits t) dba = Some dbb"
    "insert_tasks parse j r ts dbb = Inr db1"
    by (auto simp: Let_def split: option.splits if_splits)
  then show ?case using Cons.IH [OF step(3)] ins [OF Cons.prems(2) step(1)] spl by blast
qed simp

lemma insert_tasks_inv:
  assumes "insert_tasks parse j r ts db = Inr db1" "dds_inv db" "job_new db j"
  shows "dds_inv db1"
proof -
  have "dds_inv db1 \<and> job_new db1 j"
  proof (rule insert_tasks_keeps [OF assms(1), where P = "\<lambda>d. dds_inv d \<and> job_new d j"])
    fix tid ty ri d d' assume "dds_inv d \<and> job_new d j" "QueryInsertTask tid j ty ri d = Some d'"
    then show "dds_inv d' \<and> job_new d' j" using insert_task_inv by blast
  next
    fix tid ss d d' assume "dds_inv d \<and> job_new d j" "insert_splits tid ss d = Some d'"
    then show "dds_inv d' \<and> job_new d' j"
      using insert_splits_rows [of tid ss d d'] by (simp add: dds_inv_def job_new_def)
  qed (use assms in simp)
  then show ?thesis by simp
qed

definition schedulable :: "dds \<Rightarrow> uuid \<Rightarrow> bool" where
  "schedulable db j \<longleftrightarrow> (\<forall>r\<in>set (jobs db). job_id r = j \<longrightarrow> job_status r = JobPending)
    \<and> (\<forall>t\<in>set (tasks db). task_job t \<noteq> j)"

lemma dds_inv_insert_job:
  assumes inv: "dds_inv db"
  shows "dds_inv (QueryInsertJob j u r now db)"
proof (cases "j \<in> set (map job_id (jobs db))")
  case True
  then show ?thesis using inv by (simp add: QueryInsertJob_def)
next
  case False
  have "rows_inv (jobs db) (tasks db) (attempts db)" using inv by (simp add: dds_inv_def)
  then have "keys_ok (jobs db) (tasks db) (attempts db)" "refs_ok (jobs db) (tasks db) (attempts db)"
    "fence_ok (tasks db) (attempts db)" "run_ok (tasks db) (attempts db)" "phase_ok (tasks db)"
    "clean_ok (jobs db) (tasks db)" by (simp_all add: rows_inv_def)
  then show ?thesis
    using False by (simp add: QueryInsertJob_def dds_inv_def rows_inv_def keys_ok_def refs_ok_def clean_ok_def)
qed

lemma insert_job_new: "schedulable db j \<Longrightarrow> job_new (QueryInsertJob j u r now db) j"
  by (simp add: QueryInsertJob_def job_new_def schedulable_def)

lemma insert_config_rows [table_simps]:
  "jobs (QueryInsertJobConfig c db) = jobs db" "tasks (QueryInsertJobConfig c db) = tasks db"
  "attempts (QueryInsertJobConfig c db) = attempts db"
  "task_outputs (QueryInsertJobConfig c db) = task_outputs db" "config (QueryInsertJobConfig c db) = config db"
  by (simp_all add: QueryInsertJobConfig_def)

lemma ScheduleJob_inv:
  assumes inv: "dds_inv db" and j: "\<And>j. parse (rq_JobID req) = Some j \<Longrightarrow> schedulable db j"
  shows "dds_inv (snd (snd (ScheduleJob parse s db now ids req)))"
proof (cases "parse (rq_JobID req)")
  case None
  then show ?thesis using inv by (simp add: ScheduleJob_def ValidateScheduleJobRequest_def)
next
  case (Some j)
  have "dds_inv db2"
    if "insert_tasks parse j r (rq_Tasks req) (QueryInsertJobConfig c (QueryInsertJob j u r now db)) = Inr db2"
    for r c u db2
    using dds_inv_insert_job [OF inv, of j u r now] insert_job_new [OF j [OF Some], of u r now]
    by (intro insert_tasks_inv [OF that]) (simp_all add: dds_inv_def job_new_def table_simps)
  then show ?thesis
    using inv Some by (auto simp: ScheduleJob_def Let_def split: sum.splits)
qed

section \<open>Cleanup\<close>

lemma job_transition_inv:
  assumes inv: "dds_inv db" and tr: "applyJobTransitionTx db now j to = Inr (old, db1)" and to: "to \<noteq> JobCleaning"
  shows "dds_inv db1"
proof -
  note D = job_transition_InrD [OF tr]
  have "settled (tasks db) j" if "job_edge old to" "to \<notin> {JobPending, JobRunning}"
  proof -
    from that to have "old = JobCleaning" by (auto simp: job_edge_iff)
    with D obtain r where "r \<in> set (jobs db)" "job_id r = j" "job_status r = JobCleaning"
      by (auto simp: QueryGetJobStatusForUpdate_def find_job_def dest: find_row_SomeD)
    with inv show ?thesis unfolding dds_inv_def rows_inv_def clean_ok_def by force
  qed
  with D inv show ?thesis by (auto intro: dds_inv_status)
qed

lemma finalizeJob_inv:
  assumes "dds_inv db" "to \<noteq> JobCleaning"
  shows "dds_inv (snd (finalizeJob env s db now j to))"
  using assms job_transition_inv [OF assms(1) _ assms(2)]
  by (auto simp: finalizeJob_def Let_def split: sum.splits prod.splits)

text \<open>Pending cleanups name terminal states only.\<close>

definition cleanup_ok :: "(uuid \<times> JobState option) list \<Rightarrow> bool" where
  "cleanup_ok ps \<longleftrightarrow> (\<forall>(j, st)\<in>set ps. \<forall>t. st = Some t \<longrightarrow> terminal_state t)"

lemma set_alist_update: "set (AList.update k v al) \<subseteq> insert (k, v) (set al)"
  by (induction al) auto

lemma cleanup_ok_enqueue:
  assumes "cleanup_ok (pendingCleanup s)" "\<And>t. st = Some t \<Longrightarrow> terminal_state t"
  shows "cleanup_ok (pendingCleanup (enqueueCleanup j st s))"
  using assms set_alist_update [of j st "pendingCleanup s"]
  by (fastforce simp: enqueueCleanup_def cleanup_ok_def)

lemma cleanup_ok_terminal:
  "cleanup_ok (pendingCleanup s) \<Longrightarrow> terminal_state t \<Longrightarrow> cleanup_ok (pendingCleanup (enqueueCleanup j (Some t) s))"
  by (rule cleanup_ok_enqueue) auto

lemma cleanup_ok_finalize:
  "cleanup_ok (pendingCleanup s) \<Longrightarrow> terminal_state to
    \<Longrightarrow> cleanup_ok (pendingCleanup (fst (finalizeJob env s db now j to)))"
  by (auto simp: finalizeJob_def Let_def intro: cleanup_ok_enqueue split: sum.splits prod.splits)

lemma determine_terminal: "terminal_state (determineCleaningTerminalState db j)"
  by (simp add: determineCleaningTerminalState_def terminal_state_def)

lemma reconcile_one_inv:
  assumes "dds_inv db" "cleanup_ok (pendingCleanup s)" "\<And>t. snd e = Some t \<Longrightarrow> terminal_state t"
  shows "dds_inv (snd (reconcile_one env s db now e))
    \<and> cleanup_ok (pendingCleanup (fst (reconcile_one env s db now e)))"
proof -
  obtain j st where e: "e = (j, st)" by (cases e)
  have "terminal_state (case st of Some t \<Rightarrow> t | None \<Rightarrow> determineCleaningTerminalState db j)"
    using assms(3) determine_terminal by (auto simp: e split: option.split)
  moreover from this have "(case st of Some t \<Rightarrow> t | None \<Rightarrow> determineCleaningTerminalState db j) \<noteq> JobCleaning"
    by (auto simp: terminal_state_def)
  ultimately show ?thesis
    using assms(1,2) by (simp add: reconcile_one_def e finalizeJob_inv cleanup_ok_finalize)
qed

lemma reconcile_fold_inv:
  "dds_inv db \<Longrightarrow> cleanup_ok (pendingCleanup s) \<Longrightarrow> cleanup_ok es
    \<Longrightarrow> dds_inv (snd (foldl (\<lambda>(s, db) e. reconcile_one env s db now e) (s, db) es))
      \<and> cleanup_ok (pendingCleanup (fst (foldl (\<lambda>(s, db) e. reconcile_one env s db now e) (s, db) es)))"
proof (induction es arbitrary: s db)
  case (Cons e es)
  obtain s1 db1 where st: "reconcile_one env s db now e = (s1, db1)" by fastforce
  have e: "terminal_state t" if "snd e = Some t" for t
    using Cons.prems(3) that by (cases e) (simp add: cleanup_ok_def)
  have "dds_inv db1" "cleanup_ok (pendingCleanup s1)"
    using reconcile_one_inv [OF Cons.prems(1,2), of e env now] e by (simp_all add: st)
  moreover have "cleanup_ok es" using Cons.prems(3) by (simp add: cleanup_ok_def)
  ultimately show ?case using Cons.IH [of db1 s1] by (simp add: st)
qed simp

lemma pop_cleanup_ok:
  assumes "cleanup_ok (pendingCleanup s)" "set order \<subseteq> fst ` set (pendingCleanup s)"
  shows "cleanup_ok (fst (popPendingCleanup n order s))
    \<and> cleanup_ok (pendingCleanup (snd (popPendingCleanup n order s)))"
proof -
  have "terminal_state t" if "k \<in> set order" "the (map_of (pendingCleanup s) k) = Some t" for k t
  proof -
    from that(1) assms(2) obtain v where "map_of (pendingCleanup s) k = Some v"
      by (metis (no_types, lifting) map_of_eq_None_iff not_None_eq subsetD)
    with that(2) assms(1) show ?thesis unfolding cleanup_ok_def by (auto dest!: map_of_SomeD)
  qed
  then show ?thesis
    using assms(1)
    by (auto simp: popPendingCleanup_def Let_def cleanup_ok_def dest: in_set_takeD)
qed

lemma reconcile_tick_inv:
  assumes "dds_inv db" "cleanup_ok (pendingCleanup s)" "set order \<subseteq> fst ` set (pendingCleanup s)"
  shows "dds_inv (snd (reconcile_tick env order s db now))
    \<and> cleanup_ok (pendingCleanup (fst (reconcile_tick env order s db now)))"
  using reconcile_fold_inv [OF assms(1)] pop_cleanup_ok [OF assms(2,3), of cleanupReconcileBatchSize]
  by (cases "popPendingCleanup cleanupReconcileBatchSize order s") (simp add: reconcile_tick_def)

lemma fold_enqueue_ok:
  "cleanup_ok (pendingCleanup s) \<Longrightarrow> (\<And>j. terminal_state (f j))
    \<Longrightarrow> cleanup_ok (pendingCleanup (fold (\<lambda>j. enqueueCleanup j (Some (f j))) js s))"
  by (induction js arbitrary: s) (simp_all add: cleanup_ok_terminal)

end
