(* ===== verification/Scheduler_System.thy ===== *)
theory Scheduler_System
  imports Scheduler_Ops
begin

text \<open>
  The managers as a transition system: a shared store and one scheduler record
  per replica.  Each step is one method call on one replica (one transaction
  of the store), so a run is an arbitrary interleaving of calls of all
  replicas and of worker requests, including stale and forged ones.
\<close>

section \<open>Steps\<close>

record world =
  w_db :: dds
  w_mem :: "int \<Rightarrow> scheduler"

datatype sched_op =
  OpInsertJob uuid uuid int
| OpSchedule ScheduleJobRequest
| OpGetNext string string
| OpComplete uuid uuid uuid "uri list" "string list"
| OpRenew uuid uuid uuid
| OpFail uuid uuid uuid string
| OpCancel uuid
| OpReap
| OpRecover
| OpReconcileStart
| OpTick finalize_env "uuid list"
| OpConfig system_config
| OpRestart

definition fresh_memory :: "scheduler \<Rightarrow> scheduler" where
  "fresh_memory s = s\<lparr> pendingCleanup := [], cleanupRetries := (\<lambda>_. 0), heartbeats := Map.empty,
     heartbeatEventCounter := 0 \<rparr>"

definition run_op ::
  "(string \<Rightarrow> uuid option) \<Rightarrow> seconds \<Rightarrow> (nat \<Rightarrow> uuid) \<Rightarrow> sched_op \<Rightarrow> scheduler \<Rightarrow> dds \<Rightarrow> scheduler \<times> dds" where
  "run_op parse now ids op s db =
    (case op of
        OpInsertJob j u rep \<Rightarrow> (s, QueryInsertJob j u rep now db)
      | OpSchedule req \<Rightarrow> snd (ScheduleJob parse s db now ids req)
      | OpGetNext jobID wk \<Rightarrow> snd (GetNextTask parse s db now ids jobID wk)
      | OpComplete tid aid lid us cs \<Rightarrow> snd (CompleteTask s db now ids tid aid lid us cs)
      | OpRenew tid aid lid \<Rightarrow> snd (RenewLease s db now ids tid aid lid)
      | OpFail tid aid lid reason \<Rightarrow> snd (FailTask s db now ids tid aid lid reason)
      | OpCancel j \<Rightarrow> snd (CancelJob s db now ids j)
      | OpReap \<Rightarrow> snd (FailStaleTasks s db now ids)
      | OpRecover \<Rightarrow> Recover s db now
      | OpReconcileStart \<Rightarrow> (StartCleanupReconciler_recover s db, db)
      | OpTick env order \<Rightarrow> reconcile_tick env order s db now
      | OpConfig c \<Rightarrow> (s, snd (UpsertSystemConfig c db))
      | OpRestart \<Rightarrow> (fresh_memory s, db))"

definition exec ::
  "(string \<Rightarrow> uuid option) \<Rightarrow> int \<Rightarrow> seconds \<Rightarrow> (nat \<Rightarrow> uuid) \<Rightarrow> sched_op \<Rightarrow> world \<Rightarrow> world" where
  "exec parse r now ids op w =
    (let (s, db) = run_op parse now ids op (w_mem w r) (w_db w) in
     \<lparr> w_db = db, w_mem = (w_mem w)(r := s) \<rparr>)"

text \<open>
  What the callers guarantee: a job is scheduled once (the submission handler
  draws a new identifier for every job), and the order in which the
  reconciler visits its map lists the keys of that map.
\<close>

definition op_ok :: "(string \<Rightarrow> uuid option) \<Rightarrow> int \<Rightarrow> sched_op \<Rightarrow> world \<Rightarrow> bool" where
  "op_ok parse r op w \<longleftrightarrow> (case op of
      OpSchedule req \<Rightarrow> (case parse (rq_JobID req) of None \<Rightarrow> True | Some j \<Rightarrow> schedulable (w_db w) j)
    | OpTick env order \<Rightarrow> set order \<subseteq> fst ` set (pendingCleanup (w_mem w r))
    | _ \<Rightarrow> True)"

inductive sched_step :: "(string \<Rightarrow> uuid option) \<Rightarrow> world \<Rightarrow> world \<Rightarrow> bool"
  for parse :: "string \<Rightarrow> uuid option" where
  sched_stepI: "op_ok parse r op w \<Longrightarrow> sched_step parse w (exec parse r now ids op w)"

inductive_cases sched_stepE: "sched_step parse w w'"

definition sched_init :: "world \<Rightarrow> bool" where
  "sched_init w \<longleftrightarrow> jobs (w_db w) = [] \<and> tasks (w_db w) = [] \<and> attempts (w_db w) = []
    \<and> task_outputs (w_db w) = [] \<and> (\<forall>r. pendingCleanup (w_mem w r) = [] \<and> replicaIndex (w_mem w r) = r)"

abbreviation sched_reach :: "(string \<Rightarrow> uuid option) \<Rightarrow> world \<Rightarrow> bool" where
  "sched_reach parse \<equiv> reach sched_init (sched_step parse)"

definition world_inv :: "world \<Rightarrow> bool" where
  "world_inv w \<longleftrightarrow> dds_inv (w_db w)
    \<and> (\<forall>r. cleanup_ok (pendingCleanup (w_mem w r)) \<and> replicaIndex (w_mem w r) = r)"

section \<open>The memory of a replica\<close>

lemma enqueue_replica [simp]: "replicaIndex (enqueueCleanup j st s) = replicaIndex s"
  by (simp add: enqueueCleanup_def)

lemma fold_enqueue_replica [simp]:
  "replicaIndex (fold (\<lambda>j. enqueueCleanup j (f j)) js s) = replicaIndex s"
  by (induction js arbitrary: s) simp_all

lemma tryAssign_mem:
  "tryAssignTask s db now ids j w ty = Inr (t, s1, db2) \<Longrightarrow>
    pendingCleanup s1 = pendingCleanup s \<and> replicaIndex s1 = replicaIndex s"
  by (auto simp: tryAssignTask_def Let_def split: option.splits if_splits sum.splits prod.splits)

lemma terminal_states [simp]:
  "terminal_state JobCompleted" "terminal_state JobFailed" "terminal_state JobCancelled"
  by (simp_all add: terminal_state_def)

definition mem_ok :: "int \<Rightarrow> scheduler \<Rightarrow> bool" where
  "mem_ok r s \<longleftrightarrow> cleanup_ok (pendingCleanup s) \<and> replicaIndex s = r"

lemma mem_ok_enqueue: "mem_ok r s \<Longrightarrow> terminal_state t \<Longrightarrow> mem_ok r (enqueueCleanup j (Some t) s)"
  by (simp add: mem_ok_def cleanup_ok_terminal)

lemma mem_ok_upd [simp]:
  "mem_ok r (s\<lparr>heartbeats := h\<rparr>) = mem_ok r s" "mem_ok r (s\<lparr>orch_calls := c\<rparr>) = mem_ok r s"
  "mem_ok r (s\<lparr>heartbeatEventCounter := n\<rparr>) = mem_ok r s"
  by (simp_all add: mem_ok_def)

lemma GetNextTask_mem: "mem_ok r s \<Longrightarrow> mem_ok r (fst (snd (GetNextTask parse s db now ids jobID wk)))"
  using refl [of "GetNextTask parse s db now ids jobID wk"]
  by (cases rule: GetNextTask_cases)
    (auto simp: mem_ok_def cleanup_ok_terminal dest: tryAssign_mem)

lemma worker_call_mem:
  assumes "mem_ok r s"
  shows "mem_ok r (fst (snd (CompleteTask s db now ids tid aid lid us cs)))"
    "mem_ok r (fst (snd (RenewLease s db now ids tid aid lid)))"
    "mem_ok r (fst (snd (FailTask s db now ids tid aid lid reason)))"
  using assms
  by (auto simp: CompleteTask_def RenewLease_def FailTask_def shouldEmitHeartbeatEvent_def Let_def
      intro!: mem_ok_enqueue split: option.splits sum.splits prod.splits if_splits)

lemma CancelJob_mem: "mem_ok r s \<Longrightarrow> mem_ok r (fst (snd (CancelJob s db now ids j)))"
  by (auto simp: CancelJob_def Let_def intro!: mem_ok_enqueue split: sum.splits sched_error.splits prod.splits)

lemma respawn_fold_mem: "mem_ok r (fst sd) \<Longrightarrow> mem_ok r (fst (fold (respawn_job now) js sd))"
  by (induction js arbitrary: sd) (simp_all add: respawn_job_def case_prod_unfold)

lemma FailStaleTasks_mem: "mem_ok r s \<Longrightarrow> mem_ok r (fst (snd (FailStaleTasks s db now ids)))"
  by (simp add: FailStaleTasks_def Let_def case_prod_unfold)
    (rule respawn_fold_mem, simp add: mem_ok_def fold_enqueue_ok)

lemma ScheduleJob_mem: "mem_ok r s \<Longrightarrow> mem_ok r (fst (snd (ScheduleJob parse s db now ids req)))"
  by (auto simp: ScheduleJob_def Let_def split: sum.splits)

lemma reconcile_start_mem: "mem_ok r s \<Longrightarrow> mem_ok r (StartCleanupReconciler_recover s db)"
  using fold_enqueue_ok [of s "determineCleaningTerminalState db"] determine_terminal
  by (simp add: StartCleanupReconciler_recover_def mem_ok_def)

lemma finalize_replica [simp]: "replicaIndex (fst (finalizeJob env s db now j t)) = replicaIndex s"
  by (simp add: finalizeJob_def Let_def split: sum.split prod.split)

lemma reconcile_one_replica [simp]: "replicaIndex (fst (reconcile_one env s db now e)) = replicaIndex s"
  by (simp add: reconcile_one_def split: prod.split)

lemma reconcile_fold_replica:
  "replicaIndex (fst (foldl (\<lambda>(s, db) e. reconcile_one env s db now e) sd es)) = replicaIndex (fst sd)"
  by (induction es arbitrary: sd) (simp_all add: case_prod_unfold)

lemma reconcile_tick_mem:
  assumes "dds_inv db" "mem_ok r s" "set order \<subseteq> fst ` set (pendingCleanup s)"
  shows "mem_ok r (fst (reconcile_tick env order s db now))"
proof -
  obtain ps s1 where pop: "popPendingCleanup cleanupReconcileBatchSize order s = (ps, s1)" by fastforce
  have "replicaIndex (snd (popPendingCleanup n order s)) = replicaIndex s" for n
    by (simp add: popPendingCleanup_def Let_def)
  from this [of cleanupReconcileBatchSize] have "replicaIndex s1 = replicaIndex s" by (simp add: pop)
  then have "replicaIndex (fst (reconcile_tick env order s db now)) = replicaIndex s"
    by (simp add: reconcile_tick_def pop reconcile_fold_replica)
  then show ?thesis
    using assms reconcile_tick_inv [of db s order env now] by (simp add: mem_ok_def)
qed

section \<open>Every step keeps the invariant\<close>

lemma exec_sel [simp]:
  "w_db (exec parse r now ids op w) = snd (run_op parse now ids op (w_mem w r) (w_db w))"
  "w_mem (exec parse r now ids op w) = (w_mem w)(r := fst (run_op parse now ids op (w_mem w r) (w_db w)))"
  by (simp_all add: exec_def split: prod.split)

lemma UpsertSystemConfig_rows:
  "jobs (snd (UpsertSystemConfig c db)) = jobs db \<and> tasks (snd (UpsertSystemConfig c db)) = tasks db
    \<and> attempts (snd (UpsertSystemConfig c db)) = attempts db
    \<and> task_outputs (snd (UpsertSystemConfig c db)) = task_outputs db"
  by (simp add: UpsertSystemConfig_def QueryUpsertSystemConfig_def)

lemma run_op_db_inv:
  assumes db: "dds_inv db" and mem: "mem_ok r s" and ok: "op_ok parse r op w" and w: "w_db w = db" "w_mem w r = s"
  shows "dds_inv (snd (run_op parse now ids op s db))"
proof (cases op)
  case (OpSchedule req)
  then show ?thesis using ok ScheduleJob_inv [OF db, of parse req]
    by (simp add: run_op_def op_ok_def w split: option.splits)
next
  case (OpTick env order)
  then show ?thesis using db mem ok reconcile_tick_inv [of db s order env now]
    by (simp add: run_op_def op_ok_def mem_ok_def w)
next
  case (OpConfig c)
  then show ?thesis using db by (simp add: run_op_def UpsertSystemConfig_rows dds_inv_def)
qed (use db in \<open>simp_all add: run_op_def GetNextTask_inv CompleteTask_inv RenewLease_inv FailTask_inv
      CancelJob_inv FailStaleTasks_inv Recover_inv dds_inv_insert_job\<close>)

lemma run_op_mem_ok:
  assumes db: "dds_inv db" and mem: "mem_ok r s" and ok: "op_ok parse r op w" and w: "w_db w = db" "w_mem w r = s"
  shows "mem_ok r (fst (run_op parse now ids op s db))"
proof (cases op)
  case (OpTick env order)
  then show ?thesis using db mem ok reconcile_tick_mem [of db r s order env now]
    by (simp add: run_op_def op_ok_def w)
next
  case OpRestart
  then show ?thesis using mem by (simp add: run_op_def fresh_memory_def mem_ok_def cleanup_ok_def)
qed (use mem in \<open>simp_all add: run_op_def GetNextTask_mem worker_call_mem CancelJob_mem
      FailStaleTasks_mem ScheduleJob_mem reconcile_start_mem Recover_def Let_def\<close>)

lemma world_inv_step: "world_inv w \<Longrightarrow> sched_step parse w w' \<Longrightarrow> world_inv w'"
proof (elim sched_stepE)
  fix r op now ids
  assume inv: "world_inv w" and w': "w' = exec parse r now ids op w" and ok: "op_ok parse r op w"
  from inv have "dds_inv (w_db w)" "mem_ok r (w_mem w r)" by (simp_all add: world_inv_def mem_ok_def)
  with run_op_db_inv [OF this ok refl refl] run_op_mem_ok [OF this ok refl refl] inv show "world_inv w'"
    by (simp add: world_inv_def mem_ok_def w')
qed

lemma world_inv_init: "sched_init w \<Longrightarrow> world_inv w"
  by (simp add: sched_init_def world_inv_def cleanup_ok_def dds_inv_def rows_inv_def inv_defs)

interpretation sched: invariant_system sched_init "sched_step parse" world_inv for parse
  by unfold_locales (auto intro: world_inv_init world_inv_step)

end
