(* ===== verification/Scheduler_Progress.thy ===== *)
theory Scheduler_Progress
  imports Scheduler_System
begin

text \<open>
  What every step of the managers keeps of the past: completed tasks stay
  completed, recorded outputs stay recorded, and the number of running
  attempts grows only through an assignment that passed the quota check.
\<close>

section \<open>Progress of the store\<close>

definition tasks_kept :: "task_row list \<Rightarrow> task_row list \<Rightarrow> bool" where
  "tasks_kept T T' \<longleftrightarrow> (\<forall>t\<in>set T. task_status t = Completed \<longrightarrow>
     (\<exists>t'\<in>set T'. same_task t' t \<and> task_status t' = Completed))"

definition progress :: "dds \<Rightarrow> dds \<Rightarrow> bool" where
  "progress db db' \<longleftrightarrow> tasks_kept (tasks db) (tasks db') \<and> (\<exists>xs. task_outputs db' = task_outputs db @ xs)"

lemma same_task_refl [simp]: "same_task t t"
  by (simp add: same_task_def)

lemma same_task_trans: "same_task a b \<Longrightarrow> same_task b c \<Longrightarrow> same_task a c"
  by (simp add: same_task_def)

lemma tasks_kept_subset: "set T \<subseteq> set U \<Longrightarrow> tasks_kept T U"
  unfolding tasks_kept_def by (meson same_task_refl subsetD)

lemma tasks_kept_refl [simp]: "tasks_kept T T"
  by (rule tasks_kept_subset) simp

lemma tasks_kept_trans: "tasks_kept T U \<Longrightarrow> tasks_kept U V \<Longrightarrow> tasks_kept T V"
  unfolding tasks_kept_def by (meson same_task_trans)

lemma progress_refl [simp]: "progress db db"
  by (simp add: progress_def)

lemma progress_trans: "progress a b \<Longrightarrow> progress b c \<Longrightarrow> progress a c"
  unfolding progress_def by (metis append_assoc tasks_kept_trans)

lemma tasks_kept_update:
  "(\<And>t. t \<in> set T \<Longrightarrow> P t \<Longrightarrow> task_status t \<noteq> Completed) \<Longrightarrow> tasks_kept T (update_where P f T)"
  unfolding tasks_kept_def
proof (intro ballI impI)
  fix t assume P: "\<And>t. t \<in> set T \<Longrightarrow> P t \<Longrightarrow> task_status t \<noteq> Completed" and t: "t \<in> set T" "task_status t = Completed"
  then have "\<not> P t" by blast
  then have "t \<in> set (update_where P f T)" using bulk_keep [of t T P f] t(1) by blast
  with t(2) show "\<exists>t'\<in>set (update_where P f T). same_task t' t \<and> task_status t' = Completed"
    using same_task_refl by blast
qed

lemma tasks_kept_end:
  assumes "dds_inv db" "tk \<in> set (tasks db)" "task_status tk \<noteq> Completed"
  shows "tasks_kept (tasks db) (set_task (task_id tk) st (tasks db))"
proof -
  have "distinct (map task_id (tasks db))"
    using assms(1) by (simp add: dds_inv_def rows_inv_def keys_ok_def)
  then have "task_status t \<noteq> Completed" if "t \<in> set (tasks db)" "task_id t = task_id tk" for t
    using task_tab.key_unique [OF _ that(1) assms(2)] that(2) assms(3) by simp
  then show ?thesis unfolding set_task_def by (intro tasks_kept_update) blast
qed

lemma tasks_kept_start: "tasks_kept T (start_task aid tid T)"
  unfolding start_task_def by (rule tasks_kept_update) simp

lemma tasks_kept_append: "tasks_kept T (T @ U)"
  by (rule tasks_kept_subset) simp

lemmas progress_rows = progress_def table_simps

section \<open>Progress of every method\<close>

lemma CompleteTask_progress:
  assumes "dds_inv db"
  shows "progress db (snd (snd (CompleteTask s db now ids tid aid lid us cs)))"
proof (cases "\<exists>j. fence s db now tid aid lid = Inr j")
  case True
  then obtain tk where "tk \<in> set (tasks db)" "task_id tk = tid" "task_status tk = InProgress"
    by (blast elim: fence_InrD)
  then have "tasks_kept (tasks db) (set_task tid Completed (tasks db))"
    using tasks_kept_end [OF assms, of tk Completed] by simp
  then show ?thesis
    by (simp add: CompleteTask_def Let_def progress_rows QueryInsertOutputBulk_def split: option.split sum.split)
next
  case False
  then show ?thesis by (simp add: CompleteTask_def split: option.split sum.split)
qed

lemma FailTask_progress:
  assumes "dds_inv db"
  shows "progress db (snd (snd (FailTask s db now ids tid aid lid reason)))"
proof (cases "\<exists>j. fence s db now tid aid lid = Inr j")
  case True
  then obtain tk where "tk \<in> set (tasks db)" "task_id tk = tid" "task_status tk = InProgress"
    by (blast elim: fence_InrD)
  then have "tasks_kept (tasks db) (set_task tid st (tasks db))" for st
    using tasks_kept_end [OF assms, of tk st] by simp
  then show ?thesis
    by (simp add: FailTask_def Let_def progress_rows split: option.split sum.split)
next
  case False
  then show ?thesis by (simp add: FailTask_def split: option.split sum.split)
qed

lemma RenewLease_progress: "progress db (snd (snd (RenewLease s db now ids tid aid lid)))"
  by (simp add: RenewLease_def Let_def progress_rows case_prod_unfold split: sum.split)

lemma CancelJob_progress: "progress db (snd (snd (CancelJob s db now ids j)))"
proof (cases "applyJobTransitionTx db now j JobCleaning")
  case (Inl e)
  then show ?thesis by (cases e) (simp_all add: CancelJob_def)
next
  case (Inr r)
  obtain old db1 where r: "r = (old, db1)" by (cases r)
  have "tasks db1 = tasks db" "task_outputs db1 = task_outputs db"
    using job_transition_InrD [OF Inr [unfolded r]] by (auto simp: table_simps)
  then show ?thesis
    using Inr r tasks_kept_update [of "tasks db" "\<lambda>t. task_job t = j \<and> task_status t \<noteq> Completed"]
    by (simp add: CancelJob_def Let_def progress_rows QueryBulkFailNonCompletedTasksByJob_def)
qed

lemma Recover_progress: "progress db (snd (Recover s db now))"
  by (simp add: Recover_def Let_def progress_rows QueryResetTasksForReplica_def)
    (rule tasks_kept_update, simp)

lemma tryAssign_progress:
  assumes "tryAssignTask s db now ids j w ty = Inr (t, s1, db2)"
  shows "progress db db2"
  using assms by (rule tryAssign_InrD) (simp add: progress_def tasks_kept_start)

lemma autoComplete_progress: "progress db (snd (autoCompleteEmptyReducesTx db now j))"
  using tasks_kept_update [of "tasks db" "empty_reduce db j"]
  by (simp add: autoCompleteEmptyReducesTx_def QueryCompleteEmptyReduceTasks_def Let_def progress_rows
      empty_reduce_def)

lemma progress_status [simp]: "progress a (QueryUpdateJobStatus j s now b) \<longleftrightarrow> progress a b"
  by (simp add: progress_rows)

lemma progress_emit [simp]: "progress a (emit e b) \<longleftrightarrow> progress a b"
  by (simp add: progress_rows)

lemma GetNextTask_progress: "progress db (snd (snd (GetNextTask parse s db now ids jobID wk)))"
  using refl [of "GetNextTask parse s db now ids jobID wk"]
proof (cases rule: GetNextTask_cases)
  case (map j t s1 db1 e)
  then show ?thesis using tryAssign_progress [OF map(3)] by simp
next
  case (reduce j b db1 t s1 db2)
  then show ?thesis
    using autoComplete_progress [of db now j] tryAssign_progress [OF reduce(5)] by (auto intro: progress_trans)
next
  case (auto j b db1)
  then show ?thesis using autoComplete_progress [of db now j] by simp
qed simp

lemma reap_one_progress:
  assumes "dds_inv (rp_db r)" "live_rec (tasks (rp_db r)) rec"
  shows "progress (rp_db r) (rp_db (reap_one s now rec r))"
proof -
  from assms(2) obtain t where "t \<in> set (tasks (rp_db r))" "task_id t = sr_task rec" "task_status t = InProgress"
    unfolding live_rec_def by blast
  then have "tasks_kept (tasks (rp_db r)) (set_task (sr_task rec) st (tasks (rp_db r)))" for st
    using tasks_kept_end [OF assms(1), of t st] by simp
  then show ?thesis by (simp add: reap_one_def Let_def progress_rows)
qed

lemma reap_fold_progress:
  "dds_inv (rp_db r) \<Longrightarrow> distinct (map sr_task recs) \<Longrightarrow> (\<And>rec. rec \<in> set recs \<Longrightarrow> live_rec (tasks (rp_db r)) rec)
    \<Longrightarrow> progress (rp_db r) (rp_db (fold (reap_one s now) recs r))"
proof (induction recs arbitrary: r)
  case (Cons rec recs)
  have "live_rec (tasks (rp_db (reap_one s now rec r))) rec'" if "rec' \<in> set recs" for rec'
    using Cons.prems(2,3) that by (intro reap_live) (auto simp: image_iff)
  with Cons have "progress (rp_db (reap_one s now rec r)) (rp_db (fold (reap_one s now) (rec # recs) r))"
    by (simp add: reap_one_inv)
  then show ?case
    using progress_trans [OF reap_one_progress [of r rec s now]] Cons.prems by simp
qed simp

lemma fold_emit_rows:
  "tasks (fold (\<lambda>x. emit (h x)) xs db) = tasks db" "attempts (fold (\<lambda>x. emit (h x)) xs db) = attempts db"
  "jobs (fold (\<lambda>x. emit (h x)) xs db) = jobs db" "task_outputs (fold (\<lambda>x. emit (h x)) xs db) = task_outputs db"
  by (induction xs arbitrary: db) (simp_all add: table_simps)

lemma emit_fold_rows [table_simps]:
  "tasks (emit_reaped ids now recs db) = tasks db" "tasks (emit_failed_jobs ids k now js db) = tasks db"
  "attempts (emit_reaped ids now recs db) = attempts db" "attempts (emit_failed_jobs ids k now js db) = attempts db"
  "jobs (emit_reaped ids now recs db) = jobs db" "jobs (emit_failed_jobs ids k now js db) = jobs db"
  "task_outputs (emit_reaped ids now recs db) = task_outputs db"
  "task_outputs (emit_failed_jobs ids k now js db) = task_outputs db"
  by (simp_all add: emit_reaped_def emit_failed_jobs_def case_prod_unfold fold_emit_rows)

lemma respawn_fold_rows:
  "tasks (snd (fold (respawn_job now) js sd)) = tasks (snd sd)
   \<and> task_outputs (snd (fold (respawn_job now) js sd)) = task_outputs (snd sd)
   \<and> jobs (snd (fold (respawn_job now) js sd)) = jobs (snd sd)"
  by (induction js arbitrary: sd) (simp_all add: table_simps)

text \<open>The store after the reaper, up to the final stop of attempts and the event log.\<close>

definition reaped :: "scheduler \<Rightarrow> seconds \<Rightarrow> dds \<Rightarrow> reap" where
  "reaped s now db = fold (reap_one s now) (QuerySelectStaleTasks (replicaIndex s) db)
     \<lparr> rp_db = db, rp_recovered = 0, rp_respawn = [], rp_failedJobs = [] \<rparr>"

lemma FailStaleTasks_rows:
  "tasks (snd (snd (FailStaleTasks s db now ids))) = tasks (rp_db (reaped s now db))"
  "jobs (snd (snd (FailStaleTasks s db now ids))) = jobs (rp_db (reaped s now db))"
  "task_outputs (snd (snd (FailStaleTasks s db now ids))) = task_outputs (rp_db (reaped s now db))"
  by (simp_all add: FailStaleTasks_def Let_def case_prod_unfold respawn_fold_rows table_simps reaped_def)

lemma FailStaleTasks_progress:
  assumes "dds_inv db"
  shows "progress db (snd (snd (FailStaleTasks s db now ids)))"
proof -
  have "progress db (rp_db (reaped s now db))"
    unfolding reaped_def
    using reap_fold_progress [of "\<lparr> rp_db = db, rp_recovered = 0, rp_respawn = [], rp_failedJobs = [] \<rparr>"
        "QuerySelectStaleTasks (replicaIndex s) db" s now] assms stale_recs_distinct stale_rec_mem by simp
  then show ?thesis by (simp add: progress_def FailStaleTasks_rows)
qed

lemma insert_tasks_progress:
  assumes "insert_tasks parse j r ts db = Inr db1" shows "progress db db1"
proof (rule insert_tasks_keeps [OF assms, where P = "progress db"])
  fix tid ty ri d d' assume "progress db d" "QueryInsertTask tid j ty ri d = Some d'"
  moreover from this(2) have "progress d d'"
    by (auto simp: QueryInsertTask_def progress_def tasks_kept_append split: if_splits)
  ultimately show "progress db d'" by (blast intro: progress_trans)
next
  fix tid ss d d' assume "progress db d" "insert_splits tid ss d = Some d'"
  then show "progress db d'" using insert_splits_rows [of tid ss d d'] by (simp add: progress_def)
qed simp

lemma ScheduleJob_progress: "progress db (snd (snd (ScheduleJob parse s db now ids req)))"
proof -
  have ins: "progress db (QueryInsertJobConfig c (QueryInsertJob j u r now db))" for c j u r
    by (simp add: progress_rows QueryInsertJob_def)
  have "progress db db2"
    if "insert_tasks parse j r ts (QueryInsertJobConfig c (QueryInsertJob j u r now db)) = Inr db2" for j r ts c u db2
    by (rule progress_trans [OF ins insert_tasks_progress [OF that]])
  then show ?thesis
    by (auto simp: ScheduleJob_def Let_def split: sum.splits)
qed

lemma finalizeJob_progress: "progress db (snd (finalizeJob env s db now j to))"
  by (auto simp: finalizeJob_def Let_def dest: job_transition_InrD split: sum.splits prod.splits)

lemma reconcile_one_progress: "progress db (snd (reconcile_one env s db now e))"
  by (simp add: reconcile_one_def finalizeJob_progress split: prod.split)

lemma reconcile_fold_progress:
  "progress (snd sd) (snd (foldl (\<lambda>(s, db) e. reconcile_one env s db now e) sd es))"
proof (induction es arbitrary: sd)
  case (Cons e es)
  show ?case
    using progress_trans [OF reconcile_one_progress Cons [of "reconcile_one env (fst sd) (snd sd) now e"]]
    by (simp add: case_prod_unfold)
qed simp

lemma reconcile_tick_progress: "progress db (snd (reconcile_tick env order s db now))"
  using reconcile_fold_progress [of "(_, db)"] by (simp add: reconcile_tick_def split: prod.split)

lemma other_progress:
  "progress db (snd (UpsertSystemConfig c db))" "progress db (QueryInsertJob j u r now db)"
  by (simp_all add: progress_def UpsertSystemConfig_rows QueryInsertJob_def)

lemma run_op_progress:
  assumes "dds_inv db"
  shows "progress db (snd (run_op parse now ids op s db))"
  using assms
  by (cases op)
    (simp_all add: run_op_def GetNextTask_progress CompleteTask_progress RenewLease_progress FailTask_progress
      CancelJob_progress FailStaleTasks_progress Recover_progress ScheduleJob_progress reconcile_tick_progress
      other_progress)

lemma step_progress: "world_inv w \<Longrightarrow> sched_step parse w w' \<Longrightarrow> progress (w_db w) (w_db w')"
  by (auto elim!: sched_stepE simp: world_inv_def run_op_progress)

lemma steps_progress:
  assumes "(sched_step parse)\<^sup>*\<^sup>* w w'" "world_inv w"
  shows "progress (w_db w) (w_db w') \<and> world_inv w'"
  using assms by (induction rule: rtranclp_induct) (auto intro: progress_trans step_progress world_inv_step)

end
