(* ===== verification/Scheduler_Bounds.thy ===== *)
theory Scheduler_Bounds
  imports Scheduler_Progress
begin

text \<open>
  Two more facts about single steps.  Outside the reaper the status of a job
  moves along the edges of the job state machine, and the number of running
  attempts is bounded by what it was or by the configured pod limit.
\<close>

section \<open>Job status\<close>

definition jobs_follow :: "job_row list \<Rightarrow> job_row list \<Rightarrow> bool" where
  "jobs_follow J J' \<longleftrightarrow> (\<forall>r'\<in>set J'.
     (\<exists>r\<in>set J. job_id r = job_id r' \<and> job_edge\<^sup>*\<^sup>* (job_status r) (job_status r'))
     \<or> job_id r' \<notin> job_id ` set J \<and> job_status r' = JobPending)"

lemma jobs_follow_refl [simp]: "jobs_follow J J"
  unfolding jobs_follow_def by (metis rtranclp.rtrancl_refl)

lemma jobs_follow_set_job:
  assumes "\<And>r. r \<in> set J \<Longrightarrow> job_id r = j \<Longrightarrow> job_edge\<^sup>*\<^sup>* (job_status r) s"
  shows "jobs_follow J (set_job j s now J)"
  unfolding jobs_follow_def set_job_def
proof (intro ballI disjI1)
  fix r' assume "r' \<in> set (update_where (\<lambda>r. job_id r = j) (\<lambda>r. r\<lparr>job_status := s, updated_at := now\<rparr>) J)"
  then obtain r where r: "r \<in> set J" "r' = (if job_id r = j then r\<lparr>job_status := s, updated_at := now\<rparr> else r)"
    by (rule update_where_memE)
  then have "job_id r = job_id r' \<and> job_edge\<^sup>*\<^sup>* (job_status r) (job_status r')"
    using assms [OF r(1)] by simp
  with r(1) show "\<exists>r\<in>set J. job_id r = job_id r' \<and> job_edge\<^sup>*\<^sup>* (job_status r) (job_status r')" by blast
qed

lemma jobs_follow_trans_same:
  assumes "jobs_follow J K" "jobs_follow K L" "job_id ` set K = job_id ` set J"
  shows "jobs_follow J L"
  unfolding jobs_follow_def
proof
  fix l assume "l \<in> set L"
  with assms(2) consider k where "k \<in> set K" "job_id k = job_id l" "job_edge\<^sup>*\<^sup>* (job_status k) (job_status l)"
    | "job_id l \<notin> job_id ` set K" "job_status l = JobPending"
    unfolding jobs_follow_def by blast
  then show "(\<exists>r\<in>set J. job_id r = job_id l \<and> job_edge\<^sup>*\<^sup>* (job_status r) (job_status l))
      \<or> job_id l \<notin> job_id ` set J \<and> job_status l = JobPending"
  proof cases
    case 1
    with assms(3) have "job_id k \<in> job_id ` set J" by blast
    with 1 assms(1) show ?thesis unfolding jobs_follow_def by (metis rtranclp_trans)
  qed (use assms(3) in simp)
qed

text \<open>A job with a task that is neither completed nor failed, and no failed task, is not settled.\<close>

lemma open_job:
  assumes "dds_inv db" "t \<in> set (tasks db)" "task_status t = Idle" "task_job t = j" "QueryCountFailedTasks j db = 0"
    and r: "r \<in> set (jobs db)" "job_id r = j"
  shows "job_status r = JobPending \<or> job_status r = JobRunning"
proof (rule ccontr)
  assume "\<not> ?thesis"
  then have "settled (tasks db) j"
    using assms(1) r unfolding dds_inv_def rows_inv_def clean_ok_def by blast
  moreover have "\<forall>t\<in>set (tasks db). \<not> (task_job t = j \<and> task_status t = Failed)"
    using assms(5) by (simp add: QueryCountFailedTasks_def)
  ultimately have "task_status t = Completed"
    using assms(2,4) unfolding settled_def by blast
  with assms(3) show False by simp
qed

lemma open_edges:
  "s = JobPending \<or> s = JobRunning \<Longrightarrow> job_edge\<^sup>*\<^sup>* s JobRunning \<and> job_edge\<^sup>*\<^sup>* s JobCleaning"
  by (auto simp: job_edge_iff)

lemma jobs_assign:
  assumes inv: "dds_inv db" and t: "tryAssignTask s db now ids j w ty = Inr (t, s1, db2)"
    and f: "QueryCountFailedTasks j db = 0"
  shows "jobs_follow (jobs db) (set_job j JobRunning now (jobs db2))"
proof -
  from t obtain row where row: "row \<in> set (tasks db)" "idle_candidate j (replicaIndex s) ty row" "jobs db2 = jobs db"
    by (rule tryAssign_InrD)
  then show ?thesis
    using open_job [OF inv row(1) _ _ f] open_edges
    by (auto simp: idle_candidate_def intro!: jobs_follow_set_job)
qed

lemma jobs_autocomplete:
  assumes inv: "dds_inv db" and f: "QueryCountFailedTasks j db = 0"
  shows "jobs_follow (jobs db) (jobs (snd (autoCompleteEmptyReducesTx db now j)))"
proof (cases "\<exists>t\<in>set (tasks db). empty_reduce db j t")
  case True
  then obtain t where t: "t \<in> set (tasks db)" "empty_reduce db j t" by blast
  have "jobs_follow (jobs db) (set_job j JobCleaning now (jobs db))"
    using open_job [OF inv t(1) _ _ f] open_edges empty_reduceD [OF t(2)]
    by (intro jobs_follow_set_job) auto
  then show ?thesis
    by (auto simp: autoCompleteEmptyReducesTx_def QueryCompleteEmptyReduceTasks_def Let_def table_simps)
next
  case False
  then show ?thesis
    by (simp add: autoCompleteEmptyReducesTx_def QueryCompleteEmptyReduceTasks_def Let_def table_simps
        select_where_def filter_empty_conv)
qed

lemma autocomplete_failed:
  "QueryCountFailedTasks j (snd (autoCompleteEmptyReducesTx db now j)) = QueryCountFailedTasks j db"
proof -
  have "count_where (\<lambda>t. task_job t = j \<and> task_status t = Failed)
      (update_where (empty_reduce db j) (\<lambda>t. t\<lparr>task_status := Completed, current_attempt_id := None\<rparr>) (tasks db))
    = count_where (\<lambda>t. task_job t = j \<and> task_status t = Failed) (tasks db)"
    unfolding count_where_update by (rule count_where_cong) (auto simp: empty_reduce_def)
  then show ?thesis
    by (simp add: autoCompleteEmptyReducesTx_def QueryCompleteEmptyReduceTasks_def Let_def table_simps
        QueryCountFailedTasks_def)
qed

lemma autocomplete_ids: "job_id ` set (jobs (snd (autoCompleteEmptyReducesTx db now j))) = job_id ` set (jobs db)"
proof -
  have "map job_id (jobs (snd (autoCompleteEmptyReducesTx db now j))) = map job_id (jobs db)"
    by (simp add: autoCompleteEmptyReducesTx_def QueryCompleteEmptyReduceTasks_def Let_def table_simps set_job_def)
  then show ?thesis by (metis set_map)
qed

lemma GetNextTask_jobs:
  assumes inv: "dds_inv db"
  shows "jobs_follow (jobs db) (jobs (snd (snd (GetNextTask parse s db now ids jobID wk))))"
  using refl [of "GetNextTask parse s db now ids jobID wk"]
proof (cases rule: GetNextTask_cases)
  case (map j t s1 db1 e)
  then show ?thesis using jobs_assign [OF inv map(3,2)] by (simp add: table_simps)
next
  case (reduce j b db1 t s1 db2)
  have "jobs_follow (jobs db) (jobs db1)" "dds_inv db1" "QueryCountFailedTasks j db1 = 0"
    "job_id ` set (jobs db1) = job_id ` set (jobs db)"
    using jobs_autocomplete [OF inv reduce(2), of now] autoComplete_inv [OF inv reduce(3), of now] reduce(2,4)
      autocomplete_failed [of j db now] autocomplete_ids [of db now j] by simp_all
  then have "jobs_follow (jobs db) (set_job j JobRunning now (jobs db2))"
    using jobs_assign [OF _ reduce(5)] by (blast intro: jobs_follow_trans_same)
  then show ?thesis using reduce(6) by (simp add: table_simps)
next
  case (auto j b db1)
  then show ?thesis using jobs_autocomplete [OF inv auto(2), of now] by simp
qed simp

lemma job_row_status:
  assumes "dds_inv db" "QueryGetJobStatusForUpdate j db = Some st" "r \<in> set (jobs db)" "job_id r = j"
  shows "job_status r = st"
proof -
  have "distinct (map job_id (jobs db))" using assms(1) by (simp add: dds_inv_def rows_inv_def keys_ok_def)
  with assms(2-4) show ?thesis
    using job_tab.find_key [of "jobs db" r] by (auto simp: QueryGetJobStatusForUpdate_def find_job_def)
qed

lemma select_job_status:
  "select_job_of_task tid db = Some (j, st) \<Longrightarrow> QueryGetJobStatusForUpdate j db = Some st"
  by (auto simp: select_job_of_task_def QueryGetJobStatusForUpdate_def split: option.splits)

lemma worker_call_jobs:
  assumes inv: "dds_inv db"
  shows "jobs_follow (jobs db) (jobs (snd (snd (CompleteTask s db now ids tid aid lid us cs))))"
    "jobs_follow (jobs db) (jobs (snd (snd (FailTask s db now ids tid aid lid reason))))"
    "jobs_follow (jobs db) (jobs (snd (snd (RenewLease s db now ids tid aid lid))))"
proof -
  have c: "jobs_follow (jobs db) (set_job j JobCleaning now (jobs db))"
    if "select_job_of_task tid db = Some (j, st)" "st = JobRunning \<or> st = JobPending" for j st
    using job_row_status [OF inv select_job_status [OF that(1)]] that(2) open_edges
    by (intro jobs_follow_set_job) auto
  show "jobs_follow (jobs db) (jobs (snd (snd (CompleteTask s db now ids tid aid lid us cs))))"
    "jobs_follow (jobs db) (jobs (snd (snd (FailTask s db now ids tid aid lid reason))))"
    using c by (auto simp: CompleteTask_def FailTask_def Let_def table_simps split: option.split sum.split)
  show "jobs_follow (jobs db) (jobs (snd (snd (RenewLease s db now ids tid aid lid))))"
    by (simp add: RenewLease_def Let_def table_simps case_prod_unfold split: sum.split)
qed

lemma transition_jobs:
  assumes inv: "dds_inv db" and tr: "applyJobTransitionTx db now j to = Inr (old, db1)"
  shows "jobs_follow (jobs db) (jobs db1) \<and> job_id ` set (jobs db1) = job_id ` set (jobs db)"
proof -
  have st: "QueryGetJobStatusForUpdate j db = Some old" using job_transition_InrD [OF tr] by simp
  have "jobs_follow (jobs db) (set_job j to now (jobs db))" if edge: "job_edge old to"
  proof (rule jobs_follow_set_job)
    fix r assume "r \<in> set (jobs db)" "job_id r = j"
    then have "job_status r = old" by (rule job_row_status [OF inv st])
    with edge show "job_edge\<^sup>*\<^sup>* (job_status r) to" by (simp add: r_into_rtranclp)
  qed
  moreover have "map job_id (set_job j to now (jobs db)) = map job_id (jobs db)"
    by (simp add: set_job_def)
  then have "job_id ` set (set_job j to now (jobs db)) = job_id ` set (jobs db)"
    by (metis set_map)
  ultimately show ?thesis using job_transition_InrD [OF tr] by (auto simp: table_simps)
qed

lemma CancelJob_jobs:
  assumes inv: "dds_inv db"
  shows "jobs_follow (jobs db) (jobs (snd (snd (CancelJob s db now ids j))))"
proof (cases "applyJobTransitionTx db now j JobCleaning")
  case (Inl e)
  then show ?thesis by (cases e) (simp_all add: CancelJob_def)
next
  case (Inr r)
  then show ?thesis
    using transition_jobs [OF inv] by (cases r) (simp add: CancelJob_def Let_def table_simps)
qed

lemma finalizeJob_jobs:
  assumes inv: "dds_inv db"
  shows "jobs_follow (jobs db) (jobs (snd (finalizeJob env s db now j to)))
    \<and> job_id ` set (jobs (snd (finalizeJob env s db now j to))) = job_id ` set (jobs db)"
  using transition_jobs [OF inv]
  by (auto simp: finalizeJob_def Let_def split: sum.splits prod.splits)

lemma reconcile_fold_jobs:
  "dds_inv db \<Longrightarrow> cleanup_ok (pendingCleanup s) \<Longrightarrow> cleanup_ok es
    \<Longrightarrow> jobs_follow (jobs db) (jobs (snd (foldl (\<lambda>(s, db) e. reconcile_one env s db now e) (s, db) es)))"
proof (induction es arbitrary: s db)
  case (Cons e es)
  obtain s1 db1 where st: "reconcile_one env s db now e = (s1, db1)" by fastforce
  have e: "terminal_state t" if "snd e = Some t" for t
    using Cons.prems(3) that by (cases e) (simp add: cleanup_ok_def)
  have "dds_inv db1" "cleanup_ok (pendingCleanup s1)"
    using reconcile_one_inv [OF Cons.prems(1,2), of e env now] e by (simp_all add: st)
  moreover have "cleanup_ok es" using Cons.prems(3) by (simp add: cleanup_ok_def)
  ultimately have "jobs_follow (jobs db1) (jobs (snd (foldl (\<lambda>(s, db) e. reconcile_one env s db now e) (s1, db1) es)))"
    by (rule Cons.IH)
  moreover have "jobs_follow (jobs db) (jobs db1) \<and> job_id ` set (jobs db1) = job_id ` set (jobs db)"
    using finalizeJob_jobs [OF Cons.prems(1), of env s now] st
    by (cases e) (simp add: reconcile_one_def, metis snd_conv)
  ultimately show ?case by (auto simp: st intro: jobs_follow_trans_same)
qed simp

lemma insert_tasks_jobs:
  assumes "insert_tasks parse j r ts db = Inr db1" shows "jobs db1 = jobs db"
  by (rule insert_tasks_keeps [OF assms, where P = "\<lambda>d. jobs d = jobs db"])
    (auto simp: QueryInsertTask_def dest!: insert_splits_rows split: if_splits)

lemma insert_job_jobs: "jobs_follow (jobs db) (jobs (QueryInsertJob j u r now db))"
proof (cases "j \<in> set (map job_id (jobs db))")
  case True
  then show ?thesis by (simp add: QueryInsertJob_def)
next
  case False
  then show ?thesis
    by (simp add: QueryInsertJob_def jobs_follow_def) (metis rtranclp.rtrancl_refl)
qed

lemma ScheduleJob_jobs: "jobs_follow (jobs db) (jobs (snd (snd (ScheduleJob parse s db now ids req))))"
  using insert_job_jobs
  by (auto simp: ScheduleJob_def Let_def table_simps dest!: insert_tasks_jobs split: sum.splits)

lemma run_op_jobs:
  assumes db: "dds_inv db" and mem: "mem_ok r s" and ok: "op_ok parse r op w" and w: "w_mem w r = s"
    and op: "op \<noteq> OpReap"
  shows "jobs_follow (jobs db) (jobs (snd (run_op parse now ids op s db)))"
proof (cases op)
  case (OpTick env order)
  obtain ps s1 where pop: "popPendingCleanup cleanupReconcileBatchSize order s = (ps, s1)" by fastforce
  have "cleanup_ok ps" "cleanup_ok (pendingCleanup s1)"
    using pop_cleanup_ok [of s order cleanupReconcileBatchSize] mem ok OpTick w pop
    by (simp_all add: op_ok_def mem_ok_def)
  then show ?thesis
    using reconcile_fold_jobs [OF db] OpTick by (simp add: run_op_def reconcile_tick_def pop)
qed (use db op in \<open>simp_all add: run_op_def GetNextTask_jobs worker_call_jobs CancelJob_jobs ScheduleJob_jobs
    insert_job_jobs UpsertSystemConfig_rows Recover_def Let_def table_simps\<close>)

section \<open>Running attempts\<close>

lemma running_set_attempt: "st \<noteq> AttemptRunning \<Longrightarrow>
    count_where (\<lambda>a. attempt_status a = AttemptRunning) (set_attempt aid st now A)
      \<le> count_where (\<lambda>a. attempt_status a = AttemptRunning) A"
  unfolding set_attempt_def count_where_update by (rule count_where_mono) simp

lemma running_quiet:
  assumes "quiet_update f"
  shows "count_where (\<lambda>a. attempt_status a = AttemptRunning) (update_where P f A)
      \<le> count_where (\<lambda>a. attempt_status a = AttemptRunning) A"
  unfolding count_where_update by (rule count_where_mono) (use assms in \<open>simp add: quiet_update_def\<close>)

lemma running_query:
  "QueryCountRunningAttempts (QueryFailRunningAttemptsByJob j now db) \<le> QueryCountRunningAttempts db"
  "QueryCountRunningAttempts (QueryFailRunningAttemptsByReplica r now db) \<le> QueryCountRunningAttempts db"
  "QueryCountRunningAttempts (QueryRenewLease aid now db) \<le> QueryCountRunningAttempts db"
  "QueryCountRunningAttempts (QuerySucceedAttempt aid now db) \<le> QueryCountRunningAttempts db"
  "QueryCountRunningAttempts (QueryFailAttempt aid now db) \<le> QueryCountRunningAttempts db"
  unfolding QueryCountRunningAttempts_def QueryFailRunningAttemptsByJob_def QueryFailRunningAttemptsByReplica_def
    QueryRenewLease_def table_simps
  using running_quiet [OF quiet_fail] running_quiet [OF quiet_renew] running_set_attempt by simp_all

lemma running_same: "attempts db' = attempts db \<Longrightarrow> QueryCountRunningAttempts db' = QueryCountRunningAttempts db"
  by (simp add: QueryCountRunningAttempts_def)

lemma quota_same:
  "attempts db' = attempts db \<Longrightarrow> config db' = config db \<Longrightarrow> readQuotaSnapshotTx db' = readQuotaSnapshotTx db"
  by (simp add: readQuotaSnapshotTx_def QueryCountRunningAttempts_def QueryGetMaxConcurrentPods_def)

lemma autoComplete_rows:
  "attempts (snd (autoCompleteEmptyReducesTx db now j)) = attempts db
   \<and> config (snd (autoCompleteEmptyReducesTx db now j)) = config db"
  by (simp add: autoCompleteEmptyReducesTx_def QueryCompleteEmptyReduceTasks_def QueryUpdateJobStatus_def
      Let_def table_simps)

lemma assign_quota:
  assumes "tryAssignTask s db now ids j w ty = Inr (t, s1, db2)"
  shows "int (QueryCountRunningAttempts db2) \<le> MaxPods (readQuotaSnapshotTx db)"
proof -
  from assms obtain row :: task_row where "enforceQuotaTx db = Inr ()"
    "attempts db2 = attempts db @ [new_attempt s now ids (task_id row) w]" by (rule tryAssign_InrD)
  then show ?thesis
    by (auto simp: enforceQuotaTx_def readQuotaSnapshotTx_def QueryCountRunningAttempts_def Let_def split: if_splits)
qed

lemma GetNextTask_quota:
  "int (QueryCountRunningAttempts (snd (snd (GetNextTask parse s db now ids jobID wk))))
    \<le> max (int (QueryCountRunningAttempts db)) (MaxPods (readQuotaSnapshotTx db))"
  using refl [of "GetNextTask parse s db now ids jobID wk"]
proof (cases rule: GetNextTask_cases)
  case (map j t s1 db1 e)
  then show ?thesis
    using assign_quota [OF map(3)] running_same [of "snd (snd (GetNextTask parse s db now ids jobID wk))" db1]
    by (simp add: table_simps)
next
  case (reduce j b db1 t s1 db2)
  have "readQuotaSnapshotTx db1 = readQuotaSnapshotTx db"
    using autoComplete_rows [of db now j] reduce(4) by (intro quota_same) simp_all
  then show ?thesis
    using assign_quota [OF reduce(5)] reduce(6)
      running_same [of "snd (snd (GetNextTask parse s db now ids jobID wk))" db2]
    by (simp add: table_simps)
next
  case (auto j b db1)
  then show ?thesis
    using autoComplete_rows [of db now j] running_same [of db1 db] by simp
qed simp

definition quieter :: "dds \<Rightarrow> dds \<Rightarrow> bool" where
  "quieter db db' \<longleftrightarrow> QueryCountRunningAttempts db' \<le> QueryCountRunningAttempts db"

lemma quieter_trans: "quieter a b \<Longrightarrow> quieter b c \<Longrightarrow> quieter a c"
  by (simp add: quieter_def)

lemma quieter_rows: "attempts db' = attempts db \<Longrightarrow> quieter db db'"
  by (simp add: quieter_def QueryCountRunningAttempts_def)

lemma quieter_steps:
  "quieter db (QueryFailRunningAttemptsByJob j now db)" "quieter db (QueryFailRunningAttemptsByReplica r now db)"
  "quieter db (QueryRenewLease aid now db)" "quieter db (QuerySucceedAttempt aid now db)"
  "quieter db (QueryFailAttempt aid now db)"
  by (simp_all add: quieter_def running_query)

lemma quieter_by: "quieter db db1 \<Longrightarrow> attempts db' = attempts db1 \<Longrightarrow> quieter db db'"
  by (simp add: quieter_def QueryCountRunningAttempts_def)

lemma worker_call_quieter:
  "quieter db (snd (snd (CompleteTask s db now ids tid aid lid us cs)))"
  "quieter db (snd (snd (FailTask s db now ids tid aid lid reason)))"
  "quieter db (snd (snd (RenewLease s db now ids tid aid lid)))"
proof -
  have "attempts (snd (snd (CompleteTask s db now ids tid aid lid us cs)))
      \<in> {attempts db, attempts (QuerySucceedAttempt aid now db)}"
    by (simp add: CompleteTask_def Let_def table_simps split: option.split sum.split)
  then show "quieter db (snd (snd (CompleteTask s db now ids tid aid lid us cs)))"
    by (auto intro: quieter_rows quieter_by [OF quieter_steps(4)])
  have "attempts (snd (snd (FailTask s db now ids tid aid lid reason)))
      \<in> {attempts db, attempts (QueryFailAttempt aid now db)}"
    by (simp add: FailTask_def Let_def table_simps split: option.split sum.split)
  then show "quieter db (snd (snd (FailTask s db now ids tid aid lid reason)))"
    by (auto intro: quieter_rows quieter_by [OF quieter_steps(5)])
  have "attempts (snd (snd (RenewLease s db now ids tid aid lid)))
      \<in> {attempts db, attempts (QueryRenewLease aid now db)}"
    by (simp add: RenewLease_def Let_def table_simps case_prod_unfold split: sum.split)
  then show "quieter db (snd (snd (RenewLease s db now ids tid aid lid)))"
    by (auto intro: quieter_rows quieter_by [OF quieter_steps(3)])
qed

lemma CancelJob_quieter: "quieter db (snd (snd (CancelJob s db now ids j)))"
proof (cases "applyJobTransitionTx db now j JobCleaning")
  case (Inl e)
  then show ?thesis by (cases e) (simp_all add: CancelJob_def quieter_rows)
next
  case (Inr r)
  obtain old db1 where r: "r = (old, db1)" by (cases r)
  let ?b = "QueryBulkFailNonCompletedTasksByJob j db1"
  have "attempts ?b = attempts db"
    using job_transition_InrD [OF Inr [unfolded r]] by (auto simp: table_simps)
  then have "quieter db (QueryFailRunningAttemptsByJob j now ?b)"
    by (rule quieter_trans [OF quieter_rows quieter_steps(1)])
  then show ?thesis
    using Inr r by (auto simp: CancelJob_def Let_def table_simps intro: quieter_by)
qed

lemma reap_fold_quieter: "quieter (rp_db r) (rp_db (fold (reap_one s now) recs r))"
proof (induction recs arbitrary: r)
  case (Cons rec recs)
  have "attempts (rp_db (reap_one s now rec r))
      \<in> {attempts (rp_db r), attempts (QueryFailAttempt (sr_attempt rec) now (rp_db r))}"
    by (simp add: reap_one_def Let_def table_simps)
  then have "quieter (rp_db r) (rp_db (reap_one s now rec r))"
    by (auto intro: quieter_rows quieter_by [OF quieter_steps(5)])
  then show ?case using Cons [of "reap_one s now rec r"] by (auto intro: quieter_trans)
qed (simp add: quieter_rows)

lemma respawn_fold_quieter: "quieter (snd sd) (snd (fold (respawn_job now) js sd))"
proof (induction js arbitrary: sd)
  case (Cons j js)
  show ?case
    using quieter_trans [OF quieter_steps(1) Cons [of "respawn_job now j sd", unfolded respawn_job_snd]] by simp
qed (simp add: quieter_rows)

lemma FailStaleTasks_quieter: "quieter db (snd (snd (FailStaleTasks s db now ids)))"
proof -
  let ?st = "QuerySelectStaleTasks (replicaIndex s) db"
  let ?r = "reaped s now db"
  let ?db1 = "emit_failed_jobs ids (length ?st) now (rp_failedJobs ?r) (emit_reaped ids now ?st (rp_db ?r))"
  have "quieter db (rp_db ?r)"
    using reap_fold_quieter [of "\<lparr> rp_db = db, rp_recovered = 0, rp_respawn = [], rp_failedJobs = [] \<rparr>" s now ?st]
    by (simp add: reaped_def)
  then have "quieter db ?db1" by (rule quieter_by) (simp add: table_simps)
  moreover have "snd (snd (FailStaleTasks s db now ids)) = snd (fold (respawn_job now) (rp_respawn ?r)
      (fold (\<lambda>j. enqueueCleanup j (Some JobFailed)) (rp_failedJobs ?r) s, ?db1))"
    by (simp add: FailStaleTasks_def Let_def case_prod_unfold reaped_def)
  ultimately show ?thesis
    using quieter_trans [OF _ respawn_fold_quieter [of "(_, ?db1)"]] by simp
qed

lemma insert_tasks_attempts:
  assumes "insert_tasks parse j r ts db = Inr db1" shows "attempts db1 = attempts db"
  by (rule insert_tasks_keeps [OF assms, where P = "\<lambda>d. attempts d = attempts db"])
    (auto simp: QueryInsertTask_def dest!: insert_splits_rows split: if_splits)

lemma ScheduleJob_attempts: "attempts (snd (snd (ScheduleJob parse s db now ids req))) = attempts db"
  by (auto simp: ScheduleJob_def Let_def table_simps QueryInsertJob_def dest!: insert_tasks_attempts split: sum.splits)

lemma finalizeJob_rows:
  "attempts (snd (finalizeJob env s db now j to)) = attempts db \<and> tasks (snd (finalizeJob env s db now j to)) = tasks db"
  by (auto simp: finalizeJob_def Let_def table_simps dest!: job_transition_InrD split: sum.splits prod.splits)

lemma reconcile_fold_rows:
  "attempts (snd (foldl (\<lambda>(s, db) e. reconcile_one env s db now e) sd es)) = attempts (snd sd)
   \<and> tasks (snd (foldl (\<lambda>(s, db) e. reconcile_one env s db now e) sd es)) = tasks (snd sd)"
  by (induction es arbitrary: sd) (simp_all add: case_prod_unfold reconcile_one_def finalizeJob_rows)

lemma reconcile_tick_rows:
  "attempts (snd (reconcile_tick env order s db now)) = attempts db
   \<and> tasks (snd (reconcile_tick env order s db now)) = tasks db"
  using reconcile_fold_rows [of env now "(_, db)"] by (simp add: reconcile_tick_def split: prod.split)

lemma Recover_quieter: "quieter db (snd (Recover s db now))"
  by (rule quieter_by [OF quieter_steps(2)]) (simp add: Recover_def Let_def table_simps)

lemma other_quieter:
  "quieter db (QueryInsertJob j u r now db)" "quieter db (snd (snd (ScheduleJob parse s db now ids req)))"
  "quieter db (snd (reconcile_tick env order s db now))" "quieter db (snd (UpsertSystemConfig c db))" "quieter db db"
  by (rule quieter_rows, simp add: QueryInsertJob_def ScheduleJob_attempts reconcile_tick_rows UpsertSystemConfig_rows)+

lemma run_op_quieter:
  "(\<forall>jobID wk. op \<noteq> OpGetNext jobID wk) \<Longrightarrow> quieter db (snd (run_op parse now ids op s db))"
  by (cases op) (simp_all add: run_op_def worker_call_quieter CancelJob_quieter FailStaleTasks_quieter
      Recover_quieter other_quieter)

lemma run_op_quota:
  "int (QueryCountRunningAttempts (snd (run_op parse now ids op s db)))
    \<le> max (int (QueryCountRunningAttempts db)) (MaxPods (readQuotaSnapshotTx db))"
proof (cases "\<exists>jobID wk. op = OpGetNext jobID wk")
  case True
  then show ?thesis using GetNextTask_quota by (auto simp: run_op_def)
next
  case False
  then have "quieter db (snd (run_op parse now ids op s db))" by (intro run_op_quieter) blast
  then show ?thesis by (simp add: quieter_def max.coboundedI1)
qed

section \<open>Retries\<close>

text \<open>
  Without a manager recovery no task gets more than \<^const>\<open>MaxTaskAttempts\<close>
  attempts, and a task is idle only while it has an attempt left.
\<close>

abbreviation tries :: "attempt_row list \<Rightarrow> uuid \<Rightarrow> nat" where
  "tries A tid \<equiv> count_where (\<lambda>a. attempt_task a = tid) A"

definition retry_rows :: "task_row list \<Rightarrow> attempt_row list \<Rightarrow> bool" where
  "retry_rows T A \<longleftrightarrow> (\<forall>t\<in>set T. tries A (task_id t) \<le> MaxTaskAttempts
     \<and> (task_status t = Idle \<longrightarrow> tries A (task_id t) < MaxTaskAttempts))"

definition retry_inv :: "dds \<Rightarrow> bool" where
  "retry_inv db \<longleftrightarrow> retry_rows (tasks db) (attempts db)"

lemma tries_set_attempt [simp]: "tries (set_attempt aid st now A) tid = tries A tid"
  unfolding set_attempt_def count_where_update by (rule count_where_cong) simp

lemma tries_quiet: "quiet_update f \<Longrightarrow> tries (update_where P f A) tid = tries A tid"
  unfolding count_where_update by (rule count_where_cong) (simp add: quiet_update_def)

lemma retry_cong: "(\<And>tid. tries A' tid = tries A tid) \<Longrightarrow> retry_rows T A' = retry_rows T A"
  by (simp add: retry_rows_def)

lemma retry_set_attempt [simp]: "retry_rows T (set_attempt aid st now A) = retry_rows T A"
  by (rule retry_cong) simp

lemma retry_update:
  assumes "retry_rows T A" "\<And>t. task_id (f t) = task_id t"
    "\<And>t. t \<in> set T \<Longrightarrow> P t \<Longrightarrow> task_status (f t) = Idle \<Longrightarrow> tries A (task_id t) < MaxTaskAttempts"
  shows "retry_rows (update_where P f T) A"
  unfolding retry_rows_def
proof
  fix t assume "t \<in> set (update_where P f T)"
  then obtain u where u: "u \<in> set T" "t = (if P u then f u else u)" by (rule update_where_memE)
  then show "tries A (task_id t) \<le> MaxTaskAttempts \<and> (task_status t = Idle \<longrightarrow> tries A (task_id t) < MaxTaskAttempts)"
    using assms(1) assms(2) [of u] assms(3) [OF u(1)] unfolding retry_rows_def by (cases "P u") simp_all
qed

lemma retry_set_task:
  "retry_rows T A \<Longrightarrow> (st = Idle \<Longrightarrow> tries A tid < MaxTaskAttempts) \<Longrightarrow> retry_rows (set_task tid st T) A"
  unfolding set_task_def by (rule retry_update) auto

lemma retry_start:
  assumes "retry_rows T A" "rows_inv J T A" "row \<in> set T" "task_status row = Idle" "attempt_task na = task_id row"
  shows "retry_rows (start_task aid (task_id row) T) (A @ [na])"
  unfolding retry_rows_def
proof
  fix t assume "t \<in> set (start_task aid (task_id row) T)"
  then obtain u where u: "u \<in> set T" "t = (if task_id u = task_id row \<and> task_status u = Idle
      then u\<lparr>task_status := InProgress, current_attempt_id := Some aid\<rparr> else u)"
    unfolding start_task_def by (rule update_where_memE)
  have d: "distinct (map task_id T)" using assms(2) by (simp add: rows_inv_def keys_ok_def)
  show "tries (A @ [na]) (task_id t) \<le> MaxTaskAttempts
      \<and> (task_status t = Idle \<longrightarrow> tries (A @ [na]) (task_id t) < MaxTaskAttempts)"
  proof (cases "task_id u = task_id row")
    case True
    then have "u = row" using task_tab.key_unique [OF d u(1) assms(3)] by simp
    then show ?thesis using u(2) assms(1,3,4,5) by (auto simp: retry_rows_def)
  next
    case False
    then have "t = u" using u(2) by simp
    then show ?thesis using False u(1) assms(1,5) by (auto simp: retry_rows_def)
  qed
qed

lemma retry_fail_running [simp]: "retry_inv (QueryFailRunningAttemptsByJob j now db) = retry_inv db"
  unfolding retry_inv_def QueryFailRunningAttemptsByJob_def table_simps
  by (rule retry_cong) (rule tries_quiet [OF quiet_fail])

lemma retry_tables [simp]:
  "retry_inv (emit e db) = retry_inv db" "retry_inv (QueryUpdateJobStatus j s now db) = retry_inv db"
  "retry_inv (QueryInsertOutputBulk tid us cs db) = retry_inv db"
  "retry_inv (emit_reaped ids now recs db) = retry_inv db"
  "retry_inv (emit_failed_jobs ids k now js db) = retry_inv db"
  by (simp_all add: retry_inv_def table_simps)

lemma worker_call_retry:
  assumes "retry_inv db"
  shows "retry_inv (snd (snd (CompleteTask s db now ids tid aid lid us cs)))"
    "retry_inv (snd (snd (FailTask s db now ids tid aid lid reason)))"
    "retry_inv (snd (snd (RenewLease s db now ids tid aid lid)))"
proof -
  have "retry_inv (QuerySucceedAttempt aid now (QueryCompleteTask tid db))"
    using assms by (auto simp: retry_inv_def table_simps intro!: retry_set_task)
  with assms show "retry_inv (snd (snd (CompleteTask s db now ids tid aid lid us cs)))"
    by (simp add: CompleteTask_def Let_def split: option.split sum.split)
  have "retry_inv (QueryFailAttempt aid now (QueryUpdateTaskStatus st tid db))"
    if "st = (if QueryCountAttemptsByTask tid db \<ge> MaxTaskAttempts then Failed else Idle)" for st
    using assms that
    by (auto simp: retry_inv_def table_simps QueryCountAttemptsByTask_def intro!: retry_set_task)
  with assms show "retry_inv (snd (snd (FailTask s db now ids tid aid lid reason)))"
    by (simp add: FailTask_def Let_def split: option.split sum.split if_splits)
  have "retry_inv (QueryRenewLease aid now db)"
    unfolding retry_inv_def QueryRenewLease_def table_simps retry_cong [OF tries_quiet [OF quiet_renew]]
    using assms by (simp add: retry_inv_def)
  with assms show "retry_inv (snd (snd (RenewLease s db now ids tid aid lid)))"
    by (simp add: RenewLease_def Let_def case_prod_unfold split: sum.split)
qed

lemma CancelJob_retry:
  assumes "retry_inv db"
  shows "retry_inv (snd (snd (CancelJob s db now ids j)))"
proof (cases "applyJobTransitionTx db now j JobCleaning")
  case (Inl e)
  then show ?thesis using assms by (cases e) (simp_all add: CancelJob_def)
next
  case (Inr r)
  obtain old db1 where r: "r = (old, db1)" by (cases r)
  have "tasks db1 = tasks db" "attempts db1 = attempts db"
    using job_transition_InrD [OF Inr [unfolded r]] by (auto simp: table_simps)
  then have "retry_inv (QueryBulkFailNonCompletedTasksByJob j db1)"
    using assms unfolding retry_inv_def QueryBulkFailNonCompletedTasksByJob_def table_simps
    by (intro retry_update) simp_all
  then show ?thesis using Inr r by (simp add: CancelJob_def Let_def)
qed

lemma reap_fold_retry:
  "retry_inv (rp_db r) \<Longrightarrow> (\<And>rec. rec \<in> set recs \<Longrightarrow> sr_attemptCount rec = tries (attempts (rp_db r)) (sr_task rec))
    \<Longrightarrow> retry_inv (rp_db (fold (reap_one s now) recs r))"
proof (induction recs arbitrary: r)
  case (Cons rec recs)
  have c: "sr_attemptCount rec = tries (attempts (rp_db r)) (sr_task rec)" using Cons.prems(2) by simp
  have "retry_inv (QueryFailAttempt (sr_attempt rec) now (QueryUpdateTaskStatus st (sr_task rec) (rp_db r)))"
    if "st = (if sr_attemptCount rec \<ge> MaxTaskAttempts then Failed else Idle)" for st
    using Cons.prems(1) that c
    by (auto simp: retry_inv_def table_simps intro!: retry_set_task)
  then have "retry_inv (rp_db (reap_one s now rec r))"
    using Cons.prems(1) by (simp add: reap_one_def Let_def split: if_splits)
  moreover have "tries (attempts (rp_db (reap_one s now rec r))) tid = tries (attempts (rp_db r)) tid" for tid
    by (simp add: reap_one_def Let_def table_simps)
  ultimately show ?case using Cons.IH [of "reap_one s now rec r"] Cons.prems(2) by simp
qed simp

lemma stale_rec_count: "rec \<in> set (QuerySelectStaleTasks r db) \<Longrightarrow> sr_attemptCount rec = tries (attempts db) (sr_task rec)"
  by (auto simp: QuerySelectStaleTasks_def QueryCountAttemptsByTask_def split: if_splits)

lemma respawn_fold_retry: "retry_inv (snd (fold (respawn_job now) js sd)) = retry_inv (snd sd)"
  by (induction js arbitrary: sd) simp_all

lemma FailStaleTasks_retry:
  assumes "retry_inv db" shows "retry_inv (snd (snd (FailStaleTasks s db now ids)))"
proof -
  have "retry_inv (rp_db (reaped s now db))"
    unfolding reaped_def by (rule reap_fold_retry) (use assms stale_rec_count in simp_all)
  then show ?thesis
    by (simp add: FailStaleTasks_def Let_def case_prod_unfold respawn_fold_retry reaped_def)
qed

lemma tryAssign_retry:
  assumes "retry_inv db" "dds_inv db" "tryAssignTask s db now ids j w ty = Inr (t, s1, db2)"
  shows "retry_inv db2"
proof -
  from assms(3) obtain row where "row \<in> set (tasks db)" "idle_candidate j (replicaIndex s) ty row"
    "tasks db2 = start_task (ids 0) (task_id row) (tasks db)"
    "attempts db2 = attempts db @ [new_attempt s now ids (task_id row) w]" by (rule tryAssign_InrD)
  then show ?thesis
    using assms(1,2) retry_start [of "tasks db" "attempts db" "jobs db" row "new_attempt s now ids (task_id row) w" "ids 0"]
    by (simp add: retry_inv_def dds_inv_def idle_candidate_def)
qed

lemma autoComplete_retry:
  assumes "retry_inv db"
  shows "retry_inv (snd (autoCompleteEmptyReducesTx db now j))"
proof -
  have "retry_rows (update_where (empty_reduce db j)
      (\<lambda>t. t\<lparr>task_status := Completed, current_attempt_id := None\<rparr>) (tasks db)) (attempts db)"
    using assms by (intro retry_update) (simp_all add: retry_inv_def)
  then show ?thesis
    by (simp add: autoCompleteEmptyReducesTx_def QueryCompleteEmptyReduceTasks_def Let_def retry_inv_def table_simps)
qed

lemma GetNextTask_retry:
  assumes r: "retry_inv db" and inv: "dds_inv db"
  shows "retry_inv (snd (snd (GetNextTask parse s db now ids jobID wk)))"
  using refl [of "GetNextTask parse s db now ids jobID wk"]
proof (cases rule: GetNextTask_cases)
  case (map j t s1 db1 e)
  then show ?thesis using tryAssign_retry [OF r inv map(3)] by simp
next
  case (reduce j b db1 t s1 db2)
  have "dds_inv db1" "retry_inv db1"
    using autoComplete_inv [OF inv reduce(3), of now] autoComplete_retry [OF r, of now j] reduce(4) by simp_all
  then show ?thesis using tryAssign_retry [OF _ _ reduce(5)] reduce(6) by simp
next
  case (auto j b db1)
  then show ?thesis using autoComplete_retry [OF r, of now j] by simp
qed (use r in simp)

lemma insert_task_retry:
  assumes "retry_inv db" "dds_inv db" "QueryInsertTask tid j ty r db = Some db1"
  shows "retry_inv db1"
proof -
  have fresh: "tid \<notin> task_id ` set (tasks db)" using assms(3) by (auto simp: QueryInsertTask_def split: if_splits)
  have "refs_ok (jobs db) (tasks db) (attempts db)" using assms(2) by (simp add: dds_inv_def rows_inv_def)
  then have "\<forall>a\<in>set (attempts db). attempt_task a \<noteq> tid" using fresh unfolding refs_ok_def by blast
  then have "tries (attempts db) tid = 0" by simp
  then have "tries (attempts db) tid < MaxTaskAttempts" unfolding MaxTaskAttempts_def by linarith
  then show ?thesis
    using assms(1,3)
    by (auto simp: QueryInsertTask_def retry_inv_def retry_rows_def split: if_splits)
qed

lemma insert_tasks_retry:
  assumes "insert_tasks parse j r ts db = Inr db1" "retry_inv db" "dds_inv db" "job_new db j"
  shows "retry_inv db1"
proof -
  have "retry_inv db1 \<and> dds_inv db1 \<and> job_new db1 j"
  proof (rule insert_tasks_keeps [OF assms(1), where P = "\<lambda>d. retry_inv d \<and> dds_inv d \<and> job_new d j"])
    fix tid ty ri d d' assume "retry_inv d \<and> dds_inv d \<and> job_new d j" "QueryInsertTask tid j ty ri d = Some d'"
    then show "retry_inv d' \<and> dds_inv d' \<and> job_new d' j" using insert_task_inv insert_task_retry by blast
  next
    fix tid ss d d' assume "retry_inv d \<and> dds_inv d \<and> job_new d j" "insert_splits tid ss d = Some d'"
    then show "retry_inv d' \<and> dds_inv d' \<and> job_new d' j"
      using insert_splits_rows [of tid ss d d'] by (simp add: dds_inv_def job_new_def retry_inv_def)
  qed (use assms in simp)
  then show ?thesis by simp
qed

lemma insert_job_config_retry:
  "retry_inv (QueryInsertJobConfig c (QueryInsertJob j u r now db)) = retry_inv db"
  by (simp add: retry_inv_def table_simps QueryInsertJob_def)

lemma ScheduleJob_retry:
  assumes r: "retry_inv db" and inv: "dds_inv db" and j: "\<And>j. parse (rq_JobID req) = Some j \<Longrightarrow> schedulable db j"
  shows "retry_inv (snd (snd (ScheduleJob parse s db now ids req)))"
proof (cases "parse (rq_JobID req)")
  case None
  then show ?thesis using r by (simp add: ScheduleJob_def ValidateScheduleJobRequest_def)
next
  case (Some j)
  have "retry_inv db2"
    if "insert_tasks parse j r (rq_Tasks req) (QueryInsertJobConfig c (QueryInsertJob j u r now db)) = Inr db2"
    for r c u db2
    using dds_inv_insert_job [OF inv, of j u r now] insert_job_new [OF j [OF Some], of u r now] r
    by (intro insert_tasks_retry [OF that]) (simp_all add: dds_inv_def job_new_def table_simps insert_job_config_retry)
  then show ?thesis
    using r Some by (auto simp: ScheduleJob_def Let_def split: sum.splits)
qed

lemma run_op_retry:
  assumes r: "retry_inv db" and db: "dds_inv db" and ok: "op_ok parse q op w" and w: "w_db w = db"
    and op: "op \<noteq> OpRecover"
  shows "retry_inv (snd (run_op parse now ids op s db))"
proof (cases op)
  case (OpSchedule req)
  then show ?thesis using ok ScheduleJob_retry [OF r db, of parse req]
    by (simp add: run_op_def op_ok_def w split: option.splits)
next
  case (OpInsertJob j u rep)
  then show ?thesis using r by (simp add: run_op_def QueryInsertJob_def retry_inv_def)
next
  case (OpTick env order)
  then show ?thesis using r by (simp add: run_op_def retry_inv_def reconcile_tick_rows)
next
  case (OpConfig c)
  then show ?thesis using r by (simp add: run_op_def retry_inv_def UpsertSystemConfig_rows)
qed (use r db op in \<open>simp_all add: run_op_def GetNextTask_retry worker_call_retry CancelJob_retry FailStaleTasks_retry\<close>)

text \<open>Runs in which no manager recovers.\<close>

inductive calm_step :: "(string \<Rightarrow> uuid option) \<Rightarrow> world \<Rightarrow> world \<Rightarrow> bool"
  for parse :: "string \<Rightarrow> uuid option" where
  calm_stepI: "op_ok parse r op w \<Longrightarrow> op \<noteq> OpRecover \<Longrightarrow> calm_step parse w (exec parse r now ids op w)"

inductive_cases calm_stepE: "calm_step parse w w'"

lemma calm_is_step: "calm_step parse w w' \<Longrightarrow> sched_step parse w w'"
  by (auto elim!: calm_stepE intro: sched_stepI)

lemma calm_retry: "retry_inv (w_db w) \<Longrightarrow> world_inv w \<Longrightarrow> calm_step parse w w' \<Longrightarrow> retry_inv (w_db w')"
  by (auto elim!: calm_stepE simp: world_inv_def intro: run_op_retry)

interpretation calm: invariant_system sched_init "calm_step parse" "\<lambda>w. world_inv w \<and> retry_inv (w_db w)" for parse
proof unfold_locales
  fix s assume "sched_init s"
  then show "world_inv s \<and> retry_inv (w_db s)"
    using world_inv_init by (simp add: sched_init_def retry_inv_def retry_rows_def)
next
  fix s s' assume "world_inv s \<and> retry_inv (w_db s)" "calm_step parse s s'"
  then show "world_inv s' \<and> retry_inv (w_db s')"
    using calm_is_step calm_retry world_inv_step by blast
qed

end
