(* ===== verification/Scheduler_Props.thy ===== *)
theory Scheduler_Props
  imports Scheduler_Bounds
begin

text \<open>
  The correctness properties of the scheduler, stated over runs of the
  managers, and the runs that show where the code departs from its own
  documentation.  The example cluster at the start is one manager replica and
  one job with two map tasks and one reduce task.
\<close>

section \<open>An example cluster\<close>

definition ex_parse :: "string \<Rightarrow> uuid option" where
  "ex_parse s = (if s = [] then None else Some s)"

definition ex_sched :: "int \<Rightarrow> scheduler" where
  "ex_sched r = \<lparr> replicaIndex = r, totalReplicas = 1, managerAddr = ''m'', leaseTTL = 30,
     leaseClockSkewSeconds = 5, staging = True, pendingCleanup = [], cleanupRetries = (\<lambda>_. 0),
     heartbeats = Map.empty, heartbeatEventSampleN = 0, heartbeatEventCounter = 0, orch_calls = [] \<rparr>"

definition ex_db :: dds where
  "ex_db = \<lparr> jobs = [], job_configs = [], tasks = [], task_inputs = [], attempts = [],
     task_outputs = [], config = None, outbox = [] \<rparr>"

definition ex_task :: "string \<Rightarrow> string \<Rightarrow> int \<Rightarrow> ScheduleTask" where
  "ex_task i ty r = \<lparr> st_TaskID = i, st_TaskType = ty, st_ReplicaIndex = r, st_InputSplits = [] \<rparr>"

definition ex_req :: ScheduleJobRequest where
  "ex_req = \<lparr> rq_JobID = ''j'', rq_UserID = ''u'', rq_InputURI = ''i'', rq_MapperURI = ''m'',
     rq_ReducerURI = ''r'', rq_CombinerURI = '''', rq_MTasks = 2, rq_RTasks = 1, rq_InputChecksum = '''',
     rq_Tasks = [ex_task ''a'' ''Map'' 0, ex_task ''b'' ''Map'' 0, ex_task ''c'' ''Reduce'' 0] \<rparr>"

definition ex_env :: finalize_env where
  "ex_env = \<lparr> stagingOk = True, beginOk = True, commitOk = True, k8sOk = True \<rparr>"

text \<open>Fresh identifiers drawn by the call with prefix \<^verbatim>\<open>p\<close>, and the run of a list of calls.\<close>

definition ex_ids :: "string \<Rightarrow> nat \<Rightarrow> uuid" where
  "ex_ids p n = p @ replicate n CHR ''x''"

fun ex_run :: "(seconds \<times> string \<times> sched_op) list \<Rightarrow> world \<Rightarrow> world" where
  "ex_run [] w = w"
| "ex_run ((now, p, op) # cs) w = ex_run cs (exec ex_parse 0 now (ex_ids p) op w)"

fun ex_ok :: "(seconds \<times> string \<times> sched_op) list \<Rightarrow> world \<Rightarrow> bool" where
  "ex_ok [] w \<longleftrightarrow> True"
| "ex_ok ((now, p, op) # cs) w \<longleftrightarrow>
    op_ok ex_parse 0 op w \<and> ex_ok cs (exec ex_parse 0 now (ex_ids p) op w)"

definition ex_w0 :: world where "ex_w0 = \<lparr> w_db = ex_db, w_mem = ex_sched \<rparr>"

lemma ex_w0_init: "sched_init ex_w0"
  by (simp add: sched_init_def ex_w0_def ex_db_def ex_sched_def)

lemma ex_w0_reach: "sched_reach ex_parse ex_w0"
  by (rule reach_init) (rule ex_w0_init)

lemma ex_run_reach:
  "sched_reach ex_parse w \<Longrightarrow> ex_ok cs w \<Longrightarrow> sched_reach ex_parse (ex_run cs w)"
  by (induction cs w rule: ex_run.induct) (auto intro: reach_step sched_stepI)

lemma ex_run_calm:
  "reach sched_init (calm_step ex_parse) w \<Longrightarrow> ex_ok cs w \<Longrightarrow> (\<forall>(n, p, op)\<in>set cs. op \<noteq> OpRecover)
    \<Longrightarrow> reach sched_init (calm_step ex_parse) (ex_run cs w)"
  by (induction cs w rule: ex_run.induct) (auto intro: reach_step calm_stepI)

text \<open>The first map task is assigned.\<close>

definition ex_start :: "(seconds \<times> string \<times> sched_op) list" where
  "ex_start = [(100, ''e'', OpSchedule ex_req), (101, ''f'', OpGetNext ''j'' ''wk'')]"

definition ex_w1 :: world where "ex_w1 = ex_run ex_start ex_w0"

lemma ex_w1_reach: "sched_reach ex_parse ex_w1"
  unfolding ex_w1_def by (rule ex_run_reach [OF ex_w0_reach]) code_simp

lemma ex_w1_rows:
  "map attempt_id (attempts (w_db ex_w1)) = [''f'']"
  "map task_status (tasks (w_db ex_w1)) = [InProgress, Idle, Idle]"
  by code_simp+

section \<open>Safety\<close>

text \<open>
  C1: In every reachable state of the managers two running attempts of the
  same task are the same attempt, and it is the one the task row points at:
  no task is ever executed by two fenced workers at once.
\<close>

theorem one_running_attempt:
  assumes "sched_reach parse w" "a \<in> set (attempts (w_db w))" "b \<in> set (attempts (w_db w))"
    and "attempt_status a = AttemptRunning" "attempt_status b = AttemptRunning" "attempt_task a = attempt_task b"
  shows "a = b \<and> (\<exists>t\<in>set (tasks (w_db w)). task_id t = attempt_task a \<and> task_status t = InProgress
      \<and> current_attempt_id t = Some (attempt_id a))"
proof -
  have "rows_inv (jobs (w_db w)) (tasks (w_db w)) (attempts (w_db w))"
    using sched.reach_inv [OF assms(1)] by (simp add: world_inv_def dds_inv_def)
  then have run: "run_ok (tasks (w_db w)) (attempts (w_db w))" and
    d: "distinct (map task_id (tasks (w_db w)))" "distinct (map attempt_id (attempts (w_db w)))"
    by (simp_all add: rows_inv_def keys_ok_def)
  from run assms obtain t where t: "t \<in> set (tasks (w_db w))" "task_id t = attempt_task a"
      "task_status t = InProgress" "current_attempt_id t = Some (attempt_id a)"
    unfolding run_ok_def by metis
  from run assms obtain u where u: "u \<in> set (tasks (w_db w))" "task_id u = attempt_task b"
      "current_attempt_id u = Some (attempt_id b)"
    unfolding run_ok_def by metis
  have "u = t" using task_tab.key_unique [OF d(1) u(1) t(1)] u t assms(6) by simp
  then have "attempt_id a = attempt_id b" using t u by simp
  then have "a = b" using attempt_tab.key_unique [OF d(2) assms(2,3)] by simp
  with t show ?thesis by blast
qed

theorem one_running_attempt_witness:
  "hd (attempts (w_db ex_w1)) = hd (attempts (w_db ex_w1)) \<and>
   (\<exists>t\<in>set (tasks (w_db ex_w1)). task_id t = attempt_task (hd (attempts (w_db ex_w1))) \<and> task_status t = InProgress
      \<and> current_attempt_id t = Some (attempt_id (hd (attempts (w_db ex_w1)))))"
proof (rule one_running_attempt [OF ex_w1_reach])
  show "hd (attempts (w_db ex_w1)) \<in> set (attempts (w_db ex_w1))"
    using ex_w1_rows(1) by (cases "attempts (w_db ex_w1)") simp_all
  then show "hd (attempts (w_db ex_w1)) \<in> set (attempts (w_db ex_w1))" .
  show "attempt_status (hd (attempts (w_db ex_w1))) = AttemptRunning"
    "attempt_status (hd (attempts (w_db ex_w1))) = AttemptRunning"
    by code_simp+
qed simp

text \<open>
  C2: In every reachable state a reduce task that is in progress or
  completed belongs to a job all of whose map tasks are completed.
\<close>

theorem reduce_after_map:
  assumes "sched_reach parse w" "t \<in> set (tasks (w_db w))" "task_type t = ReduceTask"
    and "task_status t = InProgress \<or> task_status t = Completed"
    and "m \<in> set (tasks (w_db w))" "task_job m = task_job t" "task_type m = MapTask"
  shows "task_status m = Completed"
proof -
  have "phase_ok (tasks (w_db w))"
    using sched.reach_inv [OF assms(1)] by (simp add: world_inv_def dds_inv_def rows_inv_def)
  then show ?thesis using assms(2-7) unfolding phase_ok_def by blast
qed

text \<open>The run up to the assignment of the reduce task.\<close>

definition ex_reduce :: "(seconds \<times> string \<times> sched_op) list" where
  "ex_reduce = [(100, ''e'', OpSchedule ex_req), (101, ''f'', OpGetNext ''j'' ''wk''),
     (102, ''g'', OpGetNext ''j'' ''wl''), (103, ''h'', OpComplete ''a'' ''f'' ''fx'' [''u0''] [''c0'']),
     (104, ''i'', OpComplete ''b'' ''g'' ''gx'' [''u1''] [''c1'']), (105, ''k'', OpGetNext ''j'' ''wk'')]"

definition ex_w2 :: world where "ex_w2 = ex_run ex_reduce ex_w0"

lemma ex_w2_reach: "sched_reach ex_parse ex_w2"
  unfolding ex_w2_def by (rule ex_run_reach [OF ex_w0_reach]) code_simp

lemma ex_w2_rows:
  "map (\<lambda>t. (task_id t, task_job t, task_type t, task_status t)) (tasks (w_db ex_w2)) =
    [(''a'', ''j'', MapTask, Completed), (''b'', ''j'', MapTask, Completed), (''c'', ''j'', ReduceTask, InProgress)]"
  by code_simp

theorem reduce_after_map_witness:
  "task_status (tasks (w_db ex_w2) ! 2) = InProgress \<and> task_status (tasks (w_db ex_w2) ! 0) = Completed"
proof
  show r: "task_status (tasks (w_db ex_w2) ! 2) = InProgress" by code_simp
  have len: "length (tasks (w_db ex_w2)) = 3" by code_simp
  show "task_status (tasks (w_db ex_w2) ! 0) = Completed"
  proof (rule reduce_after_map [OF ex_w2_reach, of "tasks (w_db ex_w2) ! 2"])
    show "task_type (tasks (w_db ex_w2) ! 2) = ReduceTask" by code_simp
    show "task_job (tasks (w_db ex_w2) ! 0) = task_job (tasks (w_db ex_w2) ! 2)" by code_simp
    show "task_type (tasks (w_db ex_w2) ! 0) = MapTask" by code_simp
  qed (use r len in simp_all)
qed



text \<open>
  C4: Once a task is completed, no later call of any worker can complete, fail
  or renew it again, in any continuation of the run, and the outputs recorded
  so far stay recorded.
\<close>

theorem completed_once:
  assumes "sched_reach parse w" "t \<in> set (tasks (w_db w))" "task_status t = Completed"
    and "(sched_step parse)\<^sup>*\<^sup>* w w'"
  shows "(\<exists>e. fst (CompleteTask s (w_db w') now ids (task_id t) aid lid us cs) = Inl e)
    \<and> (\<exists>e. fst (FailTask s (w_db w') now ids (task_id t) aid lid why) = Inl e)
    \<and> (\<exists>e. fst (RenewLease s (w_db w') now ids (task_id t) aid lid) = Inl e)
    \<and> (\<exists>xs. task_outputs (w_db w') = task_outputs (w_db w) @ xs)"
proof -
  have p: "progress (w_db w) (w_db w')" "world_inv w'"
    using steps_progress [OF assms(4) sched.reach_inv [OF assms(1)]] by simp_all
  then obtain t' where t': "t' \<in> set (tasks (w_db w'))" "task_id t' = task_id t" "task_status t' = Completed"
    using assms(2,3) unfolding progress_def tasks_kept_def same_task_def by metis
  have "distinct (map task_id (tasks (w_db w')))"
    using p(2) by (simp add: world_inv_def dds_inv_def rows_inv_def keys_ok_def)
  from task_tab.find_key [OF this t'(1)] t'(2)
  have "find_row (\<lambda>x. task_id x = task_id t) (tasks (w_db w')) = Some t'" by simp
  then have "fence s (w_db w') now (task_id t) aid lid = Inl ErrInvalidStateTransition"
    using t'(3) by (simp add: fence_def QuerySelectTaskForUpdate_def)
  then show ?thesis
    using p(1) by (auto simp: CompleteTask_def FailTask_def RenewLease_def progress_def split: option.splits)
qed

theorem completed_once_witness:
  "task_status (tasks (w_db ex_w2) ! 0) = Completed \<and>
   (\<exists>e. fst (CompleteTask (ex_sched 0) (w_db ex_w2) 200 (ex_ids ''z'') (task_id (tasks (w_db ex_w2) ! 0))
      ''f'' ''fx'' [] []) = Inl e)"
proof
  show c: "task_status (tasks (w_db ex_w2) ! 0) = Completed" by code_simp
  have "length (tasks (w_db ex_w2)) = 3" by code_simp
  then have "tasks (w_db ex_w2) ! 0 \<in> set (tasks (w_db ex_w2))" by simp
  from completed_once [OF ex_w2_reach this c rtranclp.rtrancl_refl]
  show "\<exists>e. fst (CompleteTask (ex_sched 0) (w_db ex_w2) 200 (ex_ids ''z'') (task_id (tasks (w_db ex_w2) ! 0))
      ''f'' ''fx'' [] []) = Inl e" by blast
qed

section \<open>Bounds\<close>

text \<open>
  C5: No call raises the number of running attempts above the configured
  \<^verbatim>\<open>max_concurrent_pods\<close>; when the quota was lowered below the current load,
  the load does not grow.
\<close>

theorem quota_respected:
  "int (QueryCountRunningAttempts (w_db (exec parse r now ids op w)))
    \<le> max (int (QueryCountRunningAttempts (w_db w))) (MaxPods (readQuotaSnapshotTx (w_db w)))"
  using run_op_quota by (simp add: exec_def case_prod_unfold Let_def)

text \<open>
  C6: In a run in which no manager goes through crash recovery, no task ever
  has more than \<^verbatim>\<open>MaxTaskAttempts\<close> attempts, and an idle task has at least one
  attempt left.
\<close>

theorem attempts_bounded:
  assumes "reach sched_init (calm_step parse) w" "t \<in> set (tasks (w_db w))"
  shows "count_where (\<lambda>a. attempt_task a = task_id t) (attempts (w_db w)) \<le> MaxTaskAttempts
    \<and> (task_status t = Idle \<longrightarrow> count_where (\<lambda>a. attempt_task a = task_id t) (attempts (w_db w)) < MaxTaskAttempts)"
  using calm.reach_inv [OF assms(1)] assms(2) unfolding retry_inv_def retry_rows_def by blast

lemma ex_w1_calm: "reach sched_init (calm_step ex_parse) ex_w1"
proof -
  have "reach sched_init (calm_step ex_parse) ex_w0" by (rule reach_init) (rule ex_w0_init)
  then show ?thesis
    unfolding ex_w1_def by (rule ex_run_calm) (code_simp, simp add: ex_start_def)
qed

theorem attempts_bounded_witness:
  "count_where (\<lambda>a. attempt_task a = task_id (tasks (w_db ex_w1) ! 0)) (attempts (w_db ex_w1)) \<le> MaxTaskAttempts"
proof -
  have "length (tasks (w_db ex_w1)) = 3" by code_simp
  then have "tasks (w_db ex_w1) ! 0 \<in> set (tasks (w_db ex_w1))" by simp
  from attempts_bounded [OF ex_w1_calm this] show ?thesis by blast
qed

section \<open>Functional behaviour\<close>

lemma CompleteTask_succeeds:
  "fst (CompleteTask s db now ids tid aid lid us cs) = Inr () \<longleftrightarrow>
     length us = length cs \<and> (\<exists>t jr a. find_row (\<lambda>x. task_id x = tid) (tasks db) = Some t
       \<and> find_job (task_job t) db = Some jr \<and> job_status jr \<in> {JobRunning, JobPending}
       \<and> task_status t = InProgress \<and> current_attempt_id t = Some aid
       \<and> find_row (\<lambda>x. attempt_id x = aid) (attempts db) = Some a
       \<and> lease_id a = lid \<and> now \<le> last_renewed_at a + (lease_ttl a + leaseClockSkewSeconds s))"
  by (auto simp: CompleteTask_def select_job_of_task_def fence_def validateLeaseTx_def QueryCheckLeaseValid_def
      QuerySelectTaskForUpdate_def Let_def split: option.splits)

lemma fence_error: "fence s db now tid aid lid \<noteq> Inl ErrJobCancelling"
  by (auto simp: fence_def validateLeaseTx_def split: option.splits)

lemma CompleteTask_cancelling:
  "fst (CompleteTask s db now ids tid aid lid us cs) = Inl ErrJobCancelling \<longleftrightarrow>
     length us = length cs \<and> (\<exists>t jr. find_row (\<lambda>x. task_id x = tid) (tasks db) = Some t
       \<and> find_job (task_job t) db = Some jr \<and> job_status jr = JobCleaning)"
  using fence_error by (auto simp: CompleteTask_def select_job_of_task_def Let_def split: option.splits sum.splits)

lemma CompleteTask_effect:
  "if fst (CompleteTask s db now ids tid aid lid us cs) = Inr ()
   then map output_uri (task_outputs (snd (snd (CompleteTask s db now ids tid aid lid us cs)))) = map output_uri (task_outputs db) @ us
   else snd (CompleteTask s db now ids tid aid lid us cs) = (s, db)"
proof -
  have "map output_uri (map (\<lambda>i. \<lparr> output_task = tid, partition_index = Some (int i), output_uri = us ! i, checksum = cs ! i \<rparr>) [0..<length us]) = us"
    by (simp add: comp_def map_nth)
  then have "map output_uri (task_outputs (QueryInsertOutputBulk tid us cs db')) = map output_uri (task_outputs db') @ us" for db'
    by (simp add: QueryInsertOutputBulk_def)
  then show ?thesis
    by (auto simp: CompleteTask_def Let_def table_simps split: option.splits sum.splits)
qed



section \<open>Cleanup\<close>

lemma job_status_after_update:
  "QueryGetJobStatusForUpdate j db = Some st0 \<Longrightarrow> QueryGetJobStatusForUpdate j (QueryUpdateJobStatus j st now db) = Some st"
  by (auto simp: QueryGetJobStatusForUpdate_def QueryUpdateJobStatus_def find_job_def table_simps find_row_update)

text \<open>
  C8: A cleanup that meets no external failure ends the job: when the job is
  cleaning and the entry popped for it carries one of the terminal states
  the reconciler records, finalizing it leaves the job in exactly that state,
  with the entry not queued again and the retry counter cleared.
\<close>

theorem finalize_reaches_terminal:
  assumes "stagingOk env" "beginOk env" "commitOk env" "k8sOk env"
    and "QueryGetJobStatusForUpdate j db = Some JobCleaning" "terminal_state st" "j \<notin> fst ` set (pendingCleanup s)"
  shows "QueryGetJobStatusForUpdate j (snd (finalizeJob env s db now j st)) = Some st
    \<and> j \<notin> fst ` set (pendingCleanup (fst (finalizeJob env s db now j st)))
    \<and> cleanupRetries (fst (finalizeJob env s db now j st)) j = 0"
proof -
  have edge: "ValidateJobTransition (JobState_String JobCleaning) (JobState_String st) = Inr ()"
    using assms(6) job_edge_iff [of JobCleaning st] by (simp add: job_edge_def)
  have st: "st \<noteq> JobCleaning" using assms(6) by (auto simp: terminal_state_def)
  have "QueryGetJobStatusForUpdate j (QueryUpdateJobStatus j st now db) = Some st"
    using assms(5) by (simp add: job_status_after_update)
  then show ?thesis
    using assms edge st by (simp add: finalizeJob_def applyJobTransitionTx_def Let_def)
qed

theorem finalize_reaches_terminal_witness:
  "let w = exec ex_parse 0 110 (ex_ids ''z'') (OpCancel ''j'') ex_w1 in
   QueryGetJobStatusForUpdate ''j'' (w_db w) = Some JobCleaning
   \<and> QueryGetJobStatusForUpdate ''j'' (snd (finalizeJob ex_env (ex_sched 0) (w_db w) 120 ''j'' JobCancelled)) = Some JobCancelled"
proof -
  let ?w = "exec ex_parse 0 110 (ex_ids ''z'') (OpCancel ''j'') ex_w1"
  have c: "QueryGetJobStatusForUpdate ''j'' (w_db ?w) = Some JobCleaning" by code_simp
  then show ?thesis
    using finalize_reaches_terminal [OF _ _ _ _ c, of ex_env JobCancelled "ex_sched 0" 120]
    by (simp add: ex_env_def ex_sched_def Let_def)
qed

section \<open>Where the code departs from its documentation\<close>

text \<open>
  C9: A cancelled job whose manager restarts before the cleanup ran is
  reported as failed: after a successful cancellation of a job with an
  unfinished task, the terminal state the restarted reconciler derives from
  the store is \<^verbatim>\<open>Failed\<close>, although cancellation recorded \<^verbatim>\<open>Cancelled\<close>.
\<close>

theorem cancelled_job_recovers_as_failed:
  assumes "QueryGetJobStatusForUpdate j db = Some JobRunning" "TrimSpace j \<noteq> []"
    and "t \<in> set (tasks db)" "task_job t = j" "task_status t \<noteq> Completed"
  shows "map_of (pendingCleanup (fst (snd (CancelJob s db now ids j)))) j = Some (Some JobCancelled)
    \<and> determineCleaningTerminalState (snd (snd (CancelJob s db now ids j))) j = JobFailed"
proof -
  have "ValidateJobTransition (JobState_String JobRunning) (JobState_String JobCleaning) = Inr ()" by code_simp
  then have tr: "applyJobTransitionTx db now j JobCleaning = Inr (JobRunning, QueryUpdateJobStatus j JobCleaning now db)"
    using assms(1) by (simp add: applyJobTransitionTx_def)
  have "tasks (snd (snd (CancelJob s db now ids j))) =
      update_where (\<lambda>t. task_job t = j \<and> task_status t \<noteq> Completed) (\<lambda>t. t\<lparr>task_status := Failed\<rparr>) (tasks db)"
    by (simp add: CancelJob_def tr Let_def table_simps QueryFailRunningAttemptsByJob_def
        QueryBulkFailNonCompletedTasksByJob_def QueryUpdateJobStatus_def)
  moreover have "t\<lparr>task_status := Failed\<rparr> \<in> set (update_where (\<lambda>t. task_job t = j \<and> task_status t \<noteq> Completed)
      (\<lambda>t. t\<lparr>task_status := Failed\<rparr>) (tasks db))"
    using update_where_memI [OF assms(3), of "\<lambda>t. task_job t = j \<and> task_status t \<noteq> Completed"
        "\<lambda>t. t\<lparr>task_status := Failed\<rparr>"] assms(4,5) by (simp del: set_update_where)
  ultimately have "\<exists>r\<in>set (tasks (snd (snd (CancelJob s db now ids j)))). task_job r = j \<and> task_status r = Failed"
    using assms(4) by (intro bexI [of _ "t\<lparr>task_status := Failed\<rparr>"]) simp_all
  then have "determineCleaningTerminalState (snd (snd (CancelJob s db now ids j))) j = JobFailed"
    unfolding determineCleaningTerminalState_def count_where_pos_iff by simp
  then show ?thesis
    using assms(2) by (simp add: CancelJob_def tr Let_def enqueueCleanup_def update_conv)
qed

theorem cancelled_job_recovers_as_failed_witness:
  "determineCleaningTerminalState (snd (snd (CancelJob (ex_sched 0) (w_db ex_w1) 110 (ex_ids ''z'') ''j''))) ''j'' = JobFailed"
proof -
  have "length (tasks (w_db ex_w1)) = 3" by code_simp
  then have "tasks (w_db ex_w1) ! 1 \<in> set (tasks (w_db ex_w1))" by simp
  moreover have "QueryGetJobStatusForUpdate ''j'' (w_db ex_w1) = Some JobRunning" "TrimSpace ''j'' \<noteq> []"
    "task_job (tasks (w_db ex_w1) ! 1) = ''j''" "task_status (tasks (w_db ex_w1) ! 1) \<noteq> Completed" by code_simp+
  ultimately show ?thesis using cancelled_job_recovers_as_failed by blast
qed

text \<open>
  C10: The reaper moves a finished job back to \<^verbatim>\<open>Cleaning\<close>: there is a run of
  one manager in which a job is failed and finalized and a later reaper call
  turns its terminal status into \<^verbatim>\<open>Cleaning\<close>, a step the transition table
  forbids.
\<close>

definition ex_failing :: "(seconds \<times> string \<times> sched_op) list" where
  "ex_failing = [(100, ''e'', OpSchedule ex_req),
     (101, ''f1'', OpGetNext ''j'' ''wk''), (102, ''g1'', OpGetNext ''j'' ''wl''),
     (103, ''h1'', OpFail ''b'' ''g1'' ''g1x'' ''oom''), (104, ''g2'', OpGetNext ''j'' ''wl''),
     (105, ''h2'', OpFail ''b'' ''g2'' ''g2x'' ''oom''), (106, ''g3'', OpGetNext ''j'' ''wl''),
     (107, ''h3'', OpFail ''a'' ''f1'' ''f1x'' ''oom''), (108, ''f2'', OpGetNext ''j'' ''wk''),
     (109, ''h4'', OpFail ''a'' ''f2'' ''f2x'' ''oom''), (110, ''f3'', OpGetNext ''j'' ''wk''),
     (111, ''h5'', OpFail ''a'' ''f3'' ''f3x'' ''oom''), (112, ''h6'', OpTick ex_env [''j''])]"

definition ex_w3 :: world where "ex_w3 = ex_run ex_failing ex_w0"

theorem reaper_reopens_finished_job:
  "sched_reach ex_parse ex_w3 \<and> map job_status (jobs (w_db ex_w3)) = [JobFailed]
   \<and> map job_status (jobs (w_db (exec ex_parse 0 200 (ex_ids ''k'') OpReap ex_w3))) = [JobCleaning]
   \<and> \<not> job_edge\<^sup>*\<^sup>* JobFailed JobCleaning"
proof (intro conjI)
  show "sched_reach ex_parse ex_w3"
    unfolding ex_w3_def by (rule ex_run_reach [OF ex_w0_reach]) code_simp
  show "map job_status (jobs (w_db ex_w3)) = [JobFailed]" by code_simp
  show "map job_status (jobs (w_db (exec ex_parse 0 200 (ex_ids ''k'') OpReap ex_w3))) = [JobCleaning]" by code_simp
  show "\<not> job_edge\<^sup>*\<^sup>* JobFailed JobCleaning"
    using job_path_from_terminal [of JobFailed JobCleaning] by (auto simp: terminal_state_def)
qed

text \<open>
  C11: When the reaper respawns the pool of a job it fails the running attempts
  of its other tasks but leaves those tasks in progress: in this run task
  \<^verbatim>\<open>b\<close>, whose worker renewed its lease, ends in progress with a failed attempt,
  and no reaper of any replica ever selects it again.
\<close>

definition ex_respawn :: "(seconds \<times> string \<times> sched_op) list" where
  "ex_respawn = [(100, ''e'', OpSchedule ex_req),
     (101, ''f'', OpGetNext ''j'' ''wk''), (102, ''g'', OpGetNext ''j'' ''wl''),
     (130, ''h'', OpRenew ''b'' ''g'' ''gx''), (140, ''i'', OpReap)]"

definition ex_w4 :: world where "ex_w4 = ex_run ex_respawn ex_w0"


section \<open>The store\<close>

text \<open>
  C18: In every reachable state the store is well formed: identifiers of
  jobs, tasks and attempts are unique, every task belongs to a job and every
  attempt to a task, a task in progress points at an attempt of its own while an
  idle or completed one points at none, and the cleanup entries in the memory
  of a replica name terminal states.
\<close>

theorem store_well_formed:
  assumes "sched_reach parse w"
  shows "keys_ok (jobs (w_db w)) (tasks (w_db w)) (attempts (w_db w))
    \<and> refs_ok (jobs (w_db w)) (tasks (w_db w)) (attempts (w_db w))
    \<and> fence_ok (tasks (w_db w)) (attempts (w_db w))
    \<and> (\<forall>r. cleanup_ok (pendingCleanup (w_mem w r)))"
  using sched.reach_inv [OF assms] by (simp add: world_inv_def dds_inv_def rows_inv_def)

theorem store_well_formed_witness:
  "fence_ok (tasks (w_db ex_w1)) (attempts (w_db ex_w1)) \<and> map task_status (tasks (w_db ex_w1)) = [InProgress, Idle, Idle]"
  using store_well_formed [OF ex_w1_reach] ex_w1_rows by simp

end
