(* ===== verification/Wk_Split.thy ===== *)
theory Wk_Split
  imports Prelude
begin

text \<open>
  How an input object is cut into byte ranges and how a worker reads the
  records of its range: \<^verbatim>\<open>buildInputSplits\<close> of \<^verbatim>\<open>manager-service/internal/api/handlers.go\<close>,
  and \<^verbatim>\<open>split.go\<close> and \<^verbatim>\<open>download.go\<close> of \<^verbatim>\<open>worker-service/internal/worker\<close>.  A byte is
  a character.  The object storage and the hash are parameters; the pipe of
  the streaming reader is the list of the bytes written to it.
\<close>

section \<open>Ranges\<close>

record input_split =
  sp_start :: nat
  sp_end :: nat
  sp_checksum :: string

definition defaultTargetSplitSizeBytes :: int where
  "defaultTargetSplitSizeBytes = 64 * 1024 * 1024"

text \<open>The loop over the ranges; an error of the checksum gives up (\<^verbatim>\<open>None\<close>).\<close>

function split_loop :: "(nat \<Rightarrow> nat \<Rightarrow> string option) \<Rightarrow> nat \<Rightarrow> nat \<Rightarrow> nat \<Rightarrow> input_split list option" where
  "split_loop checksum splitSize fsize start =
    (if start < fsize \<and> 0 < splitSize then
       let e = (if start + splitSize - 1 \<ge> fsize then fsize - 1 else start + splitSize - 1)
       in case checksum start e of None \<Rightarrow> None
          | Some c \<Rightarrow> map_option (\<lambda>ss. \<lparr> sp_start = start, sp_end = e, sp_checksum = c \<rparr> # ss)
                        (split_loop checksum splitSize fsize (start + splitSize))
     else Some [])"
  by pat_completeness auto
termination by (relation "measure (\<lambda>(c, n, s, i). s - i)") auto

declare split_loop.simps [simp del]

text \<open>A split without a range means the whole object; the size is unknown when the storage gives none.\<close>

definition whole_object :: input_split where
  "whole_object = \<lparr> sp_start = 0, sp_end = 0, sp_checksum = [] \<rparr>"

definition buildInputSplits ::
  "int \<Rightarrow> (nat \<Rightarrow> nat \<Rightarrow> string option) \<Rightarrow> nat option \<Rightarrow> input_split list" where
  "buildInputSplits targetSize checksum fsize =
    (let splitSize = nat (if targetSize \<le> 0 then 64 * 1024 * 1024 else targetSize)
     in case fsize of None \<Rightarrow> [whole_object]
        | Some n \<Rightarrow> if n = 0 then [whole_object]
           else case split_loop checksum splitSize n 0 of
             None \<Rightarrow> [whole_object]
           | Some splits \<Rightarrow> if splits = [] then [whole_object] else splits)"

section \<open>Reading a range\<close>

datatype split_error =
  InvalidRange | GetObjectFailed | RangeTooLarge | EOFBeforeNewline | ChecksumMismatch | SkipPartialLine

type_synonym get_object = "nat \<Rightarrow> nat \<Rightarrow> split_error + string"

definition NL :: char where "NL = CHR 0x0A"
definition CR :: char where "CR = CHR 0x0D"

definition splitReadChunkSize :: nat where "splitReadChunkSize = 2 ^ 20"

definition maxRawRangeBytes :: nat where "maxRawRangeBytes = 256 * 2 ^ 20"

function getRawRange_loop :: "get_object \<Rightarrow> string \<Rightarrow> nat \<Rightarrow> nat \<Rightarrow> split_error + string" where
  "getRawRange_loop get raw totalRead nextStart =
    (case get nextStart (nextStart + splitReadChunkSize - 1) of
       Inl e \<Rightarrow> Inl e
     | Inr chunk \<Rightarrow>
         if chunk = [] then Inr raw
         else let raw' = raw @ chunk; total = totalRead + length chunk
         in if total > maxRawRangeBytes then Inl RangeTooLarge
            else if NL \<in> set chunk then Inr raw'
            else if length chunk < splitReadChunkSize then Inl EOFBeforeNewline
            else getRawRange_loop get raw' total (nextStart + length chunk))"
  by pat_completeness auto
termination by (relation "measure (\<lambda>(g, r, t, n). maxRawRangeBytes - t)") (auto simp: neq_Nil_conv)

declare getRawRange_loop.simps [simp del]

definition getRawRange :: "get_object \<Rightarrow> nat \<Rightarrow> nat \<Rightarrow> split_error + string" where
  "getRawRange get start stop = (if stop < start then Inl InvalidRange else getRawRange_loop get [] 0 start)"

definition fetchPrecedingByte :: "get_object \<Rightarrow> nat \<Rightarrow> split_error + bool" where
  "fetchPrecedingByte get start =
    (if start = 0 then Inr True
     else case get (start - 1) (start - 1) of Inl e \<Rightarrow> Inl e
       | Inr [] \<Rightarrow> Inl GetObjectFailed
       | Inr (c # _) \<Rightarrow> Inr (c = NL))"

definition validateChecksum :: "(string \<Rightarrow> string) \<Rightarrow> string \<Rightarrow> string \<Rightarrow> split_error + unit" where
  "validateChecksum sha256 data expectedHex =
    (if expectedHex = [] then Inr () else if sha256 data \<noteq> expectedHex then Inl ChecksumMismatch else Inr ())"

text \<open>\<^verbatim>\<open>bufio.Reader.ReadBytes('\n')\<close>: the line with its newline, what follows, and whether the data ended before a newline.\<close>

fun ReadBytes :: "string \<Rightarrow> string \<times> string \<times> bool" where
  "ReadBytes [] = ([], [], True)"
| "ReadBytes (c # cs) = (if c = NL then ([c], cs, False)
     else let (line, rest, eof) = ReadBytes cs in (c # line, rest, eof))"

lemma ReadBytes_length [termination_simp]: "ReadBytes raw = (line, rest, False) \<Longrightarrow> length rest < length raw"
  by (induction raw arbitrary: line) (auto split: if_splits prod.splits)

text \<open>The loop of the streaming reader; the result is what it writes.\<close>

function stream_loop :: "nat \<Rightarrow> nat \<Rightarrow> nat \<Rightarrow> string \<Rightarrow> string" where
  "stream_loop byteStart byteEnd offset raw =
    (let (line, rest, eof) = ReadBytes raw; offset' = offset + length line
     in if eof then line
        else if byteStart + offset' > byteEnd then line
        else line @ stream_loop byteStart byteEnd offset' rest)"
  by pat_completeness auto
termination
  by (relation "measure (\<lambda>(s, e, i, raw). length raw)") (auto dest: ReadBytes_length [OF sym])

declare stream_loop.simps [simp del]

definition stream_lines :: "string \<Rightarrow> nat \<Rightarrow> nat \<Rightarrow> bool \<Rightarrow> split_error + string" where
  "stream_lines raw byteStart byteEnd atBoundary =
    (if byteStart > 0 \<and> \<not> atBoundary then
       let (skipped, rest, eof) = ReadBytes raw
       in if eof then Inl SkipPartialLine else Inr (stream_loop byteStart byteEnd (length skipped) rest)
     else Inr (stream_loop byteStart byteEnd 0 raw))"

definition readSplitRecordsStreaming ::
  "get_object \<Rightarrow> (split_error + string) \<Rightarrow> (string \<Rightarrow> string) \<Rightarrow> nat \<Rightarrow> nat \<Rightarrow> string \<Rightarrow> split_error + string" where
  "readSplitRecordsStreaming get whole sha256 byteStart byteEnd checksum =
    (if byteEnd = 0 then whole
     else case getRawRange get byteStart byteEnd of Inl e \<Rightarrow> Inl e
     | Inr rawRange \<Rightarrow>
       let rangeLen = byteEnd - byteStart + 1
       in case (if checksum \<noteq> [] \<and> length rawRange \<ge> rangeLen
                then validateChecksum sha256 (take rangeLen rawRange) checksum else Inr ()) of
            Inl e \<Rightarrow> Inl e
          | Inr _ \<Rightarrow>
            (case (if byteStart > 0 then fetchPrecedingByte get byteStart else Inr True) of
               Inl e \<Rightarrow> Inl e
             | Inr atBoundary \<Rightarrow> stream_lines rawRange byteStart byteEnd atBoundary))"

text \<open>The buffered variant: the lines without their line ends, empty ones left out.\<close>

definition trim_line :: "string \<Rightarrow> string" where
  "trim_line line = rev (dropWhile (\<lambda>c. c = CR \<or> c = NL) (rev line))"

definition keep_line :: "string \<Rightarrow> string list" where
  "keep_line line = (if trim_line line = [] then [] else [trim_line line])"

function extract_loop :: "nat \<Rightarrow> nat \<Rightarrow> nat \<Rightarrow> string \<Rightarrow> string list" where
  "extract_loop byteStart byteEnd offset raw =
    (let (line, rest, eof) = ReadBytes raw; offset' = offset + length line
     in if eof then keep_line line
        else if byteStart + offset' > byteEnd then keep_line line
        else keep_line line @ extract_loop byteStart byteEnd offset' rest)"
  by pat_completeness auto
termination
  by (relation "measure (\<lambda>(s, e, i, raw). length raw)") (auto dest: ReadBytes_length [OF sym])

declare extract_loop.simps [simp del]

definition extractSplitLines :: "string \<Rightarrow> nat \<Rightarrow> nat \<Rightarrow> bool \<Rightarrow> split_error + string list" where
  "extractSplitLines raw byteStart byteEnd atLineBoundary =
    (if byteStart > 0 \<and> \<not> atLineBoundary then
       let (skipped, rest, eof) = ReadBytes raw
       in if eof then Inl SkipPartialLine else Inr (extract_loop byteStart byteEnd (length skipped) rest)
     else Inr (extract_loop byteStart byteEnd 0 raw))"

section \<open>Lines\<close>

text \<open>The line at the start of some bytes, and the first position from \<^verbatim>\<open>p\<close> on at which a line starts.\<close>

definition first_line :: "string \<Rightarrow> string" where
  "first_line xs = fst (ReadBytes xs)"

definition next_start :: "string \<Rightarrow> nat \<Rightarrow> nat" where
  "next_start file p = (if p = 0 \<or> file ! (p - 1) = NL then p else p + length (first_line (drop p file)))"

definition slice :: "string \<Rightarrow> nat \<Rightarrow> nat \<Rightarrow> string" where
  "slice file a b = take (b - a) (drop a file)"

definition terminated :: "string \<Rightarrow> bool" where
  "terminated file \<longleftrightarrow> file = [] \<or> last file = NL"

lemma slice_append: "a \<le> b \<Longrightarrow> b \<le> c \<Longrightarrow> slice file a b @ slice file b c = slice file a c"
proof -
  assume "a \<le> b" "b \<le> c"
  then have "take (c - a) (drop a file) = take (b - a) (drop a file) @ take (c - b) (drop (b - a) (drop a file))"
    using take_add [of "b - a" "c - b" "drop a file"] by simp
  then show ?thesis using \<open>a \<le> b\<close> by (simp add: slice_def)
qed

lemma ReadBytes_line: "NL \<notin> set xs \<Longrightarrow> ReadBytes (xs @ NL # ys) = (xs @ [NL], ys, False)"
  by (induction xs) auto

lemma ReadBytes_append:
  assumes "NL \<in> set raw"
  shows "ReadBytes raw = (first_line raw, drop (length (first_line raw)) raw, False)"
    "ReadBytes (raw @ suf) = (first_line raw, drop (length (first_line raw)) raw @ suf, False)"
    "\<exists>xs. first_line raw = xs @ [NL] \<and> NL \<notin> set xs"
    "take (length (first_line raw)) raw = first_line raw"
proof -
  from assms obtain xs ys where raw: "raw = xs @ NL # ys" and xs: "NL \<notin> set xs"
    using split_list_first by metis
  then have r: "ReadBytes (raw @ suf) = (xs @ [NL], ys @ suf, False)" "ReadBytes raw = (xs @ [NL], ys, False)"
    using ReadBytes_line [OF xs] by simp_all
  then have f: "first_line raw = xs @ [NL]" by (simp add: first_line_def)
  show "ReadBytes raw = (first_line raw, drop (length (first_line raw)) raw, False)"
    "ReadBytes (raw @ suf) = (first_line raw, drop (length (first_line raw)) raw @ suf, False)"
    unfolding f using r raw by simp_all
  show "\<exists>xs. first_line raw = xs @ [NL] \<and> NL \<notin> set xs" using f xs by blast
  show "take (length (first_line raw)) raw = first_line raw" unfolding f using raw by simp
qed

lemma ReadBytes_none: "NL \<notin> set raw \<Longrightarrow> ReadBytes raw = (raw, [], True)"
  by (induction raw) auto

lemma first_line_drop:
  assumes "k < length (first_line xs)" "NL \<in> set xs"
  shows "length (first_line (drop k xs)) = length (first_line xs) - k"
  using assms unfolding first_line_def
proof (induction xs arbitrary: k)
  case (Cons c cs)
  then show ?case by (cases k) (auto split: if_splits prod.splits simp: Suc_less_eq)
qed simp

lemma terminated_drop: "terminated file \<Longrightarrow> p < length file \<Longrightarrow> NL \<in> set (drop p file)"
  by (metis terminated_def drop_eq_Nil last_drop last_in_set length_0_conv less_nat_zero_code not_le)

text \<open>Inside a line, and at its end, the next line is the same.\<close>

lemma next_start_line:
  assumes "terminated file" "p < length file"
    and "p < k" "k \<le> p + length (first_line (drop p file))"
  shows "next_start file k = p + length (first_line (drop p file))"
proof -
  define L where "L = first_line (drop p file)"
  have nl: "NL \<in> set (drop p file)" using assms terminated_drop by blast
  from ReadBytes_append(3) [OF nl] obtain xs where xs: "L = xs @ [NL]" "NL \<notin> set xs"
    unfolding L_def by blast
  have t: "take (length L) (drop p file) = L" using ReadBytes_append(4) [OF nl] by (simp add: L_def)
  define i where "i = k - 1 - p"
  have k: "k - 1 = p + i" and i: "i < length L" using assms(3,4) by (simp_all add: i_def L_def)
  have "L ! i = drop p file ! i" using i by (subst t [symmetric]) simp
  then have at: "file ! (k - 1) = L ! i" using k assms(2) by simp
  show ?thesis
  proof (cases "k = p + length L")
    case True
    then have "i = length xs" using k xs(1) assms(3) by simp
    then have "file ! (k - 1) = NL" using at xs(1) by simp
    then show ?thesis using True unfolding next_start_def L_def by simp
  next
    case False
    then have "i < length xs" using assms(3,4) xs(1) k unfolding L_def by simp
    then have "file ! (k - 1) \<noteq> NL" using at xs by (metis nth_append nth_mem)
    moreover have "length (first_line (drop k file)) = length L - (k - p)"
      using first_line_drop [OF _ nl, of "k - p"] False assms(3,4) unfolding L_def by simp
    ultimately show ?thesis using assms(3,4) unfolding next_start_def L_def by simp
  qed
qed

lemma line_end:
  assumes "terminated file" "p < length file"
  shows "first_line (drop p file) \<noteq> []" "file ! (p + length (first_line (drop p file)) - 1) = NL"
    "p + length (first_line (drop p file)) \<le> length file"
    "slice file p (p + length (first_line (drop p file))) = first_line (drop p file)"
    "ReadBytes (drop p file) =
       (first_line (drop p file), drop (p + length (first_line (drop p file))) file, False)"
proof -
  have nl: "NL \<in> set (drop p file)" using assms terminated_drop by blast
  from ReadBytes_append(3) [OF nl] obtain xs where xs: "first_line (drop p file) = xs @ [NL]" by blast
  note t = ReadBytes_append(4) [OF nl] and r = ReadBytes_append(1) [OF nl]
  have len: "Suc (length xs) \<le> length file - p"
    using arg_cong [OF t, of length] xs by simp
  from xs show "first_line (drop p file) \<noteq> []" by simp
  have "(xs @ [NL]) ! length xs = drop p file ! length xs"
    using t unfolding xs by (metis length_append_singleton lessI nth_take)
  with assms(2) show "file ! (p + length (first_line (drop p file)) - 1) = NL" unfolding xs by simp
  show "p + length (first_line (drop p file)) \<le> length file" using len assms(2) unfolding xs by simp
  show "slice file p (p + length (first_line (drop p file))) = first_line (drop p file)"
    using t unfolding slice_def by simp
  show "ReadBytes (drop p file) =
      (first_line (drop p file), drop (p + length (first_line (drop p file))) file, False)"
    using r by (simp add: add.commute)
qed

lemma next_start_end: "terminated file \<Longrightarrow> next_start file (length file) = length file"
  by (cases "file = []") (simp_all add: next_start_def terminated_def last_conv_nth)

lemma next_start_le: "terminated file \<Longrightarrow> p \<le> length file \<Longrightarrow> next_start file p \<le> length file"
  using line_end(3) [of "file" p] by (cases "p = length file") (simp_all add: next_start_def next_start_end first_line_def)

lemma next_start_ge: "p \<le> next_start file p"
  by (simp add: next_start_def)

lemma next_start_mono:
  assumes "terminated file" "p \<le> k" "k \<le> length file"
  shows "next_start file p \<le> next_start file k"
proof (cases "p = k \<or> p = 0 \<or> file ! (p - 1) = NL")
  case True
  then show ?thesis using assms(2) next_start_ge [of k "file"] by (auto simp: next_start_def)
next
  case False
  then have n: "next_start file p = p + length (first_line (drop p file))" and pk: "p < k" "p < length file"
    using assms(2,3) by (simp_all add: next_start_def)
  show ?thesis
  proof (cases "k \<le> next_start file p")
    case True
    then show ?thesis using next_start_line [OF assms(1) pk(2,1)] n by simp
  next
    case False
    then show ?thesis using next_start_ge [of k "file"] by simp
  qed
qed

section \<open>What a range delivers\<close>

lemma stream_loop_slice:
  assumes "terminated file" "e < length file"
  shows "p = byteStart + offset \<Longrightarrow> p = 0 \<or> file ! (p - 1) = NL \<Longrightarrow> p \<le> e \<or> p = length file \<Longrightarrow>
    stream_loop byteStart e offset (drop p file) = slice file p (next_start file (e + 1))"
proof (induction "length file - p" arbitrary: p offset rule: less_induct)
  case less
  show ?case
  proof (cases "p = length file")
    case True
    then show ?thesis by (subst stream_loop.simps) (simp add: slice_def)
  next
    case False
    then have p: "p < length file" "p \<le> e" using less.prems(3) assms(2) by auto
    define L where "L = first_line (drop p file)"
    define q where "q = p + length L"
    note L = line_end [OF assms(1) p(1), folded L_def, folded q_def]
    have pq: "p < q" using L(1) by (simp add: q_def)
    have off: "byteStart + (offset + length L) = q" using less.prems(1) by (simp add: q_def)
    have step: "stream_loop byteStart e offset (drop p file) =
        (if q > e then L else L @ stream_loop byteStart e (offset + length L) (drop q file))"
      using L(5) off by (subst stream_loop.simps) (simp add: Let_def)
    show ?thesis
    proof (cases "q > e")
      case True
      then have "next_start file (e + 1) = q"
        using next_start_line [OF assms(1) p(1), of "e + 1"] p(2) by (simp add: q_def L_def)
      with True step L(4) show ?thesis by simp
    next
      case False
      then have "stream_loop byteStart e (offset + length L) (drop q file) = slice file q (next_start file (e + 1))"
      proof (intro less.hyps [of q "offset + length L"])
        show "length file - q < length file - p" using pq p by simp
        show "q = byteStart + (offset + length L)" using off by simp
        show "q = 0 \<or> file ! (q - 1) = NL" using L(2) by simp
        show "q \<le> e \<or> q = length file" using False by simp
      qed
      moreover have "q \<le> next_start file (e + 1)" using False next_start_ge [of "e + 1" "file"] by simp
      ultimately show ?thesis using False step L(4) slice_append [of p q "next_start file (e + 1)" "file"] pq by simp
    qed
  qed
qed

text \<open>The loop does not read past the newline that ends the record crossing the end of the range.\<close>

lemma stream_loop_prefix:
  "i < length raw \<Longrightarrow> raw ! i = NL \<Longrightarrow> e \<le> byteStart + offset + i \<Longrightarrow>
    stream_loop byteStart e offset (raw @ suf) = stream_loop byteStart e offset raw"
proof (induction "length raw" arbitrary: raw offset i rule: less_induct)
  case less
  have nl: "NL \<in> set raw" using nth_mem [OF less.prems(1)] less.prems(2) by simp
  define L where "L = first_line raw"
  have L: "L \<noteq> []" using ReadBytes_append(3) [OF nl] unfolding L_def by auto
  note r = ReadBytes_append(1,2) [OF nl, folded L_def]
  have unf: "stream_loop byteStart e offset raw = (if byteStart + (offset + length L) > e then L
        else L @ stream_loop byteStart e (offset + length L) (drop (length L) raw))"
    "stream_loop byteStart e offset (raw @ suf) = (if byteStart + (offset + length L) > e then L
        else L @ stream_loop byteStart e (offset + length L) (drop (length L) raw @ suf))"
    unfolding stream_loop.simps [of byteStart e offset] r by (simp_all add: Let_def)
  show ?case
  proof (cases "byteStart + (offset + length L) > e")
    case True
    then show ?thesis by (simp add: unf)
  next
    case False
    then have i: "length L \<le> i" using less.prems(3) by simp
    have "stream_loop byteStart e (offset + length L) (drop (length L) raw @ suf)
        = stream_loop byteStart e (offset + length L) (drop (length L) raw)"
    proof (rule less.hyps [of "drop (length L) raw" "i - length L"])
      show "length (drop (length L) raw) < length raw" using L less.prems(1) by (cases L) simp_all
      show "i - length L < length (drop (length L) raw)" using i less.prems(1) by simp
      show "drop (length L) raw ! (i - length L) = NL" using i less.prems(1,2) by simp
      show "e \<le> byteStart + (offset + length L) + (i - length L)" using i less.prems(3) by simp
    qed
    then show ?thesis using False by (simp add: unf)
  qed
qed

definition covers :: "string \<Rightarrow> nat \<Rightarrow> nat \<Rightarrow> string \<Rightarrow> bool" where
  "covers file s e raw \<longleftrightarrow> (\<exists>suf. drop s file = raw @ suf \<and>
     (suf = [] \<or> (\<exists>i < length raw. raw ! i = NL \<and> e \<le> s + i)))"

definition owns_line :: "string \<Rightarrow> nat \<Rightarrow> nat \<Rightarrow> bool" where
  "owns_line file s e \<longleftrightarrow> next_start file s \<le> e \<or> next_start file s = length file"

text \<open>The bytes read and what follows them in the file, when the split starts within a line.\<close>

lemma skip_first_line:
  assumes "terminated file" "s < length file" "\<not> (s = 0 \<or> file ! (s - 1) = NL)" "drop s file = raw @ suf"
    and "suf = [] \<or> NL \<in> set raw"
  obtains L where "ReadBytes raw = (L, drop (length L) raw, False)" "next_start file s = s + length L"
    "drop (length L) raw @ suf = drop (s + length L) file" "file ! (s + length L - 1) = NL"
proof -
  have nl: "NL \<in> set raw" using assms(5) terminated_drop [OF assms(1,2)] assms(4) by auto
  define L where "L = first_line raw"
  have fl: "first_line (drop s file) = L"
    unfolding L_def assms(4) first_line_def [of "raw @ suf"] using ReadBytes_append(2) [OF nl] by simp
  have "drop (length L) raw @ suf = drop (s + length L) file"
    using arg_cong [OF assms(4), of "drop (length L)"] ReadBytes_append(4) [OF nl, folded L_def]
    by (metis L_def ReadBytes_append(2) [OF nl] append_take_drop_id drop_drop add.commute append_assoc append_eq_conv_conj)
  moreover have "file ! (s + length L - 1) = NL"
    using line_end(2) [OF assms(1,2)] unfolding fl .
  moreover have "next_start file s = s + length L" using fl assms(3) by (simp add: next_start_def)
  ultimately show thesis using that ReadBytes_append(1) [OF nl, folded L_def] by blast
qed

lemma stream_lines_slice:
  assumes "terminated file" "s \<le> e" "e < length file" "covers file s e raw" "owns_line file s e"
  shows "stream_lines raw s e (s = 0 \<or> file ! (s - 1) = NL)
    = Inr (slice file (next_start file s) (next_start file (e + 1)))"
proof -
  from assms(4) obtain suf where suf: "drop s file = raw @ suf"
      "suf = [] \<or> (\<exists>i < length raw. raw ! i = NL \<and> e \<le> s + i)"
    unfolding covers_def by blast
  show ?thesis
  proof (cases "s = 0 \<or> file ! (s - 1) = NL")
    case True
    have "stream_loop s e 0 raw = stream_loop s e 0 (drop s file)"
      using suf(2) stream_loop_prefix [of _ raw e s 0 suf] unfolding suf(1) by auto
    also have "\<dots> = slice file s (next_start file (e + 1))"
      by (rule stream_loop_slice [OF assms(1,3)]) (use True assms(2) in auto)
    finally show ?thesis using True by (auto simp: stream_lines_def next_start_def)
  next
    case False
    have "s < length file" "suf = [] \<or> NL \<in> set raw" using assms(2,3) suf(2) by (auto dest: nth_mem)
    then obtain L where L: "ReadBytes raw = (L, drop (length L) raw, False)" "next_start file s = s + length L"
        "drop (length L) raw @ suf = drop (s + length L) file" "file ! (s + length L - 1) = NL"
      using skip_first_line [OF assms(1) _ False suf(1)] by blast
    have "stream_loop s e (length L) (drop (length L) raw) = stream_loop s e (length L) (drop (s + length L) file)"
    proof (cases "suf = []")
      case True
      then show ?thesis using L(3) by simp
    next
      case ne: False
      then obtain i where i: "i < length raw" "raw ! i = NL" "e \<le> s + i" using suf(2) by blast
      have "s + length L \<noteq> length file" using L(3) ne by auto
      then have "length L \<le> i" using assms(5) i(3) unfolding owns_line_def L(2) by simp
      then show ?thesis
        using stream_loop_prefix [of "i - length L" "drop (length L) raw" e s "length L" suf] i
        unfolding L(3) by simp
    qed
    also have "\<dots> = slice file (s + length L) (next_start file (e + 1))"
      using assms(5) L(4) by (intro stream_loop_slice [OF assms(1,3)]) (auto simp: owns_line_def L(2))
    finally show ?thesis using False L(1) by (simp add: stream_lines_def L(2))
  qed
qed

section \<open>The object storage\<close>

text \<open>What the storage promises for a range that starts inside the object: the bytes of the range.\<close>

definition serves :: "get_object \<Rightarrow> string \<Rightarrow> bool" where
  "serves get file \<longleftrightarrow> (\<forall>a b. a \<le> b \<and> a < length file \<longrightarrow> get a b = Inr (slice file a (b + 1)))"

lemma first_chunk:
  assumes "serves get file" "s \<le> e" "s < length file" "NL \<in> set (take splitReadChunkSize (drop s file))"
  shows "getRawRange get s e = Inr (take splitReadChunkSize (drop s file))"
proof -
  have "get s (s + splitReadChunkSize - 1) = Inr (take splitReadChunkSize (drop s file))"
    using assms(1,3) unfolding serves_def slice_def splitReadChunkSize_def by simp
  then show ?thesis
    using assms(2,4) unfolding getRawRange_def
    by (subst getRawRange_loop.simps) (auto simp: Let_def maxRawRangeBytes_def splitReadChunkSize_def)
qed

lemma boundary_known:
  assumes "serves get file" "s < length file"
  shows "(if s > 0 then fetchPrecedingByte get s else Inr True) = Inr (s = 0 \<or> file ! (s - 1) = NL)"
proof (cases "s = 0")
  case False
  then have "get (s - 1) (s - 1) = Inr [file ! (s - 1)]"
    using assms unfolding serves_def slice_def by (simp add: take_Suc hd_drop_conv_nth)
  with False show ?thesis by (simp add: fetchPrecedingByte_def)
qed simp

definition in_chunk :: "string \<Rightarrow> nat \<Rightarrow> nat \<Rightarrow> bool" where
  "in_chunk file s e \<longleftrightarrow> (\<exists>i < splitReadChunkSize. s + i < length file \<and> e \<le> s + i \<and> file ! (s + i) = NL)"

lemma in_chunk_covers:
  assumes "in_chunk file s e"
  shows "covers file s e (take splitReadChunkSize (drop s file))"
    and "NL \<in> set (take splitReadChunkSize (drop s file))"
    and "e - s < length (take splitReadChunkSize (drop s file))"
proof -
  from assms obtain i where i: "i < splitReadChunkSize" "s + i < length file" "e \<le> s + i" "file ! (s + i) = NL"
    unfolding in_chunk_def by blast
  then have n: "i < length (take splitReadChunkSize (drop s file))"
      "take splitReadChunkSize (drop s file) ! i = NL"
    by auto
  then show "covers file s e (take splitReadChunkSize (drop s file))"
    unfolding covers_def using i(3) append_take_drop_id [of splitReadChunkSize "drop s file"] by metis
  show "NL \<in> set (take splitReadChunkSize (drop s file))" using nth_mem [OF n(1)] n(2) by simp
  show "e - s < length (take splitReadChunkSize (drop s file))" using n(1) i(3) by auto
qed

lemma read_split:
  assumes "serves get file" "terminated file" "s \<le> e" "e < length file" "e \<noteq> 0"
    and "owns_line file s e" "in_chunk file s e" "checksum = sha256 (slice file s (e + 1))"
  shows "readSplitRecordsStreaming get whole sha256 s e checksum
    = Inr (slice file (next_start file s) (next_start file (e + 1)))"
proof -
  define raw where "raw = take splitReadChunkSize (drop s file)"
  note c = in_chunk_covers [OF assms(7), folded raw_def]
  have s: "s < length file" using assms(3,4) by simp
  have g: "getRawRange get s e = Inr raw"
    using first_chunk [OF assms(1,3) s] c(2) by (simp add: raw_def)
  have "take (e - s + 1) raw = slice file s (e + 1)"
    using c(3) assms(3) by (simp add: raw_def slice_def min_def Suc_diff_le split: if_splits)
  then have v: "(if checksum \<noteq> [] \<and> length raw \<ge> e - s + 1 then validateChecksum sha256 (take (e - s + 1) raw) checksum
      else Inr ()) = Inr ()"
    using assms(8) by (simp add: validateChecksum_def)
  show ?thesis
    unfolding readSplitRecordsStreaming_def g Let_def sum.case v boundary_known [OF assms(1) s]
    using assms(5) stream_lines_slice [OF assms(2-4) c(1) assms(6)] by simp
qed

section \<open>All splits together\<close>

text \<open>The checksums of the splits are those of their bytes.\<close>

definition range_checksum :: "(string \<Rightarrow> string) \<Rightarrow> string \<Rightarrow> nat \<Rightarrow> nat \<Rightarrow> string option" where
  "range_checksum sha256 file a b = Some (sha256 (slice file a (b + 1)))"

definition readable :: "string \<Rightarrow> input_split \<Rightarrow> bool" where
  "readable file sp \<longleftrightarrow> owns_line file (sp_start sp) (sp_end sp) \<and> in_chunk file (sp_start sp) (sp_end sp)"

abbreviation read_input ::
  "get_object \<Rightarrow> string \<Rightarrow> (string \<Rightarrow> string) \<Rightarrow> input_split \<Rightarrow> split_error + string" where
  "read_input get file sha256 sp \<equiv>
    readSplitRecordsStreaming get (Inr file) sha256 (sp_start sp) (sp_end sp) (sp_checksum sp)"

lemma split_loop_step:
  assumes "start < length file" "1 < splitSize"
    and "split_loop (range_checksum sha256 file) splitSize (length file) start = Some splits"
  obtains e rest where "splits = \<lparr> sp_start = start, sp_end = e, sp_checksum = sha256 (slice file start (e + 1)) \<rparr> # rest"
    "split_loop (range_checksum sha256 file) splitSize (length file) (start + splitSize) = Some rest"
    "start \<le> e" "e < length file" "e + 1 = start + splitSize \<or> e + 1 = length file \<and> length file < start + splitSize"
proof -
  define e where "e = (if start + splitSize - 1 \<ge> length file then length file - 1 else start + splitSize - 1)"
  define sp where "sp = \<lparr> sp_start = start, sp_end = e, sp_checksum = sha256 (slice file start (e + 1)) \<rparr>"
  have "split_loop (range_checksum sha256 file) splitSize (length file) start
      = map_option (\<lambda>ss. sp # ss) (split_loop (range_checksum sha256 file) splitSize (length file) (start + splitSize))"
    using assms(1,2) by (subst split_loop.simps) (simp add: Let_def range_checksum_def e_def sp_def)
  with assms(3) obtain rest where
      "split_loop (range_checksum sha256 file) splitSize (length file) (start + splitSize) = Some rest" "splits = sp # rest"
    by auto
  moreover have "start \<le> e" "e < length file"
      "e + 1 = start + splitSize \<or> e + 1 = length file \<and> length file < start + splitSize"
    using assms(1,2) unfolding e_def by auto
  ultimately show thesis using that unfolding sp_def by blast
qed

text \<open>The range from 0 to 0 means the whole object, which then is one byte long.\<close>

lemma split_reads:
  assumes "serves get file" "terminated file" "start \<le> e" "e < length file" "e = 0 \<longrightarrow> length file = 1"
    and "readable file \<lparr> sp_start = start, sp_end = e, sp_checksum = c \<rparr>" "c = sha256 (slice file start (e + 1))"
  shows "read_input get file sha256 \<lparr> sp_start = start, sp_end = e, sp_checksum = c \<rparr>
    = Inr (slice file (next_start file start) (next_start file (e + 1)))"
proof (cases "e = 0")
  case True
  then have "start = 0" "length file = 1" using assms(3,5) by simp_all
  then show ?thesis
    using True next_start_end [OF assms(2)]
    by (simp add: readSplitRecordsStreaming_def slice_def next_start_def [of _ 0])
next
  case False
  then show ?thesis using read_split [OF assms(1-4) False] assms(6,7) by (simp add: readable_def)
qed

lemma split_loop_reads:
  assumes "serves get file" "terminated file" "1 < splitSize"
  shows "split_loop (range_checksum sha256 file) splitSize (length file) start = Some splits \<Longrightarrow>
    \<forall>sp\<in>set splits. readable file sp \<Longrightarrow>
    \<exists>outs. map (read_input get file sha256) splits = map Inr outs
      \<and> concat outs = slice file (next_start file start) (length file)"
proof (induction "length file - start" arbitrary: start splits rule: less_induct)
  case less
  show ?case
  proof (cases "start < length file")
    case False
    then have "splits = []" using less.prems(1) by (simp add: split_loop.simps)
    moreover have "length file \<le> next_start file start" using False next_start_ge [of start "file"] by simp
    ultimately show ?thesis by (simp add: slice_def)
  next
    case True
    from split_loop_step [OF True assms(3) less.prems(1)] obtain e rest where
      sp: "splits = \<lparr> sp_start = start, sp_end = e, sp_checksum = sha256 (slice file start (e + 1)) \<rparr> # rest"
        "split_loop (range_checksum sha256 file) splitSize (length file) (start + splitSize) = Some rest"
      and e: "start \<le> e" "e < length file" "e + 1 = start + splitSize \<or> e + 1 = length file \<and> length file < start + splitSize" .
    have "length file - (start + splitSize) < length file - start" using True assms(3) by linarith
    then obtain outs where outs: "map (read_input get file sha256) rest = map Inr outs"
        "concat outs = slice file (next_start file (start + splitSize)) (length file)"
      using less.hyps [OF _ sp(2)] less.prems(2) sp(1) by auto
    have "e = 0 \<longrightarrow> length file = 1" using e assms(3) by linarith
    with split_reads [OF assms(1,2) e(1,2)] less.prems(2) sp(1)
    have r: "read_input get file sha256 (hd splits) = Inr (slice file (next_start file start) (next_start file (e + 1)))" by simp
    have "slice file (next_start file start) (next_start file (e + 1)) @ concat outs
        = slice file (next_start file start) (length file)"
      using e(3)
    proof
      assume "e + 1 = start + splitSize"
      then show ?thesis
        using outs(2) slice_append [of "next_start file start" "next_start file (e + 1)" "length file" "file"]
          next_start_mono [OF assms(2), of start "e + 1"] next_start_le [OF assms(2), of "e + 1"] e(1,2) by simp
    next
      assume l: "e + 1 = length file \<and> length file < start + splitSize"
      then have "concat outs = []" using outs(2) next_start_ge [of "start + splitSize" "file"] by (simp add: slice_def)
      then show ?thesis using l next_start_end [OF assms(2)] by simp
    qed
    then show ?thesis
      using sp(1) outs(1) r by (intro exI [of _ "slice file (next_start file start) (next_start file (e + 1)) # outs"]) simp
  qed
qed

lemma buildInputSplits_loop:
  assumes "1 < targetSize" "file \<noteq> []"
  shows "split_loop (range_checksum sha256 file) (nat targetSize) (length file) 0
    = Some (buildInputSplits targetSize (range_checksum sha256 file) (Some (length file)))"
proof -
  have "\<exists>ss. split_loop (range_checksum sha256 file) (nat targetSize) (length file) start = Some ss" for start
  proof (induction "length file - start" arbitrary: start rule: less_induct)
    case less
    show ?case
    proof (cases "start < length file")
      case True
      then have "length file - (start + nat targetSize) < length file - start" using assms(1) by linarith
      from less.hyps [OF this] show ?thesis
        by (subst split_loop.simps) (auto simp: Let_def range_checksum_def)
    qed (simp add: split_loop.simps)
  qed
  then obtain ss where ss: "split_loop (range_checksum sha256 file) (nat targetSize) (length file) 0 = Some ss"
    by blast
  moreover have "ss \<noteq> []"
    using ss assms unfolding split_loop.simps [of _ _ _ 0] by (auto simp: Let_def range_checksum_def)
  ultimately show ?thesis using assms by (simp add: buildInputSplits_def Let_def)
qed

text \<open>
  C12: The splits of an object deliver every record exactly once and in order:
  when every line is ended by a newline, some line starts in every split, and
  the newline that ends the record crossing the end of a split lies within
  \<^verbatim>\<open>splitReadChunkSize\<close> bytes of its start, every split is read without an error, its
  checksum is accepted, and the bytes the mappers get are together the object.
\<close>

theorem splits_deliver_all:
  assumes "serves get file" "terminated file" "file \<noteq> []" "1 < targetSize"
    and "\<forall>sp\<in>set (buildInputSplits targetSize (range_checksum sha256 file) (Some (length file))). readable file sp"
  shows "\<exists>outs. map (read_input get file sha256)
      (buildInputSplits targetSize (range_checksum sha256 file) (Some (length file))) = map Inr outs
    \<and> concat outs = file"
proof -
  have "1 < nat targetSize" using assms(4) by simp
  from split_loop_reads [OF assms(1,2) this buildInputSplits_loop [OF assms(4,3)] assms(5)]
  show ?thesis by (simp add: slice_def next_start_def)
qed

definition mem_store :: "string \<Rightarrow> get_object" where
  "mem_store file a b = (if a < length file then Inr (slice file a (b + 1)) else Inl GetObjectFailed)"

lemma mem_store_serves: "serves (mem_store file) file"
  by (simp add: serves_def mem_store_def)

definition ex_file :: string where
  "ex_file = ''ab'' @ [NL] @ ''cde'' @ [NL] @ ''f'' @ [NL]"

lemma ex_file_splits: "buildInputSplits 5 (range_checksum id ex_file) (Some (length ex_file)) =
    [\<lparr> sp_start = 0, sp_end = 4, sp_checksum = take 5 ex_file \<rparr>,
     \<lparr> sp_start = 5, sp_end = 8, sp_checksum = drop 5 ex_file \<rparr>]"
  by code_simp

lemma ex_file_readable:
  "\<forall>sp\<in>set (buildInputSplits 5 (range_checksum id ex_file) (Some (length ex_file))). readable ex_file sp"
proof -
  have "in_chunk ex_file 0 4" "in_chunk ex_file 5 8"
    unfolding in_chunk_def
    by (rule exI [of _ 6], simp add: splitReadChunkSize_def ex_file_def NL_def)
       (rule exI [of _ 3], simp add: splitReadChunkSize_def ex_file_def NL_def)
  moreover have "owns_line ex_file 0 4 \<and> owns_line ex_file 5 8" by code_simp
  ultimately show ?thesis by (simp add: ex_file_splits readable_def)
qed

theorem splits_deliver_all_witness:
  "\<exists>outs. map (read_input (mem_store ex_file) ex_file id)
      (buildInputSplits 5 (range_checksum id ex_file) (Some (length ex_file))) = map Inr outs
    \<and> concat outs = ex_file"
proof (rule splits_deliver_all [OF mem_store_serves _ _ _ ex_file_readable])
  show "terminated ex_file" "ex_file \<noteq> []" by (simp_all add: terminated_def ex_file_def)
  show "(1 :: int) < 5" by simp
qed

section \<open>Splits larger than a chunk\<close>

lemma stream_loop_length: "length (stream_loop byteStart e offset raw) \<le> length raw"
proof (induction byteStart e offset raw rule: stream_loop.induct)
  case (1 byteStart e offset raw)
  show ?case
  proof (cases "NL \<in> set raw")
    case True
    define L where "L = first_line raw"
    note r = ReadBytes_append(1) [OF True, folded L_def]
    have "length L \<le> length raw" using arg_cong [OF ReadBytes_append(4) [OF True], of length] by (simp add: L_def)
    moreover have "length (stream_loop byteStart e (offset + length L) (drop (length L) raw)) \<le> length raw - length L"
      if "\<not> byteStart + (offset + length L) > e"
      using "1" [OF r [symmetric] refl refl, of "offset + length L"] that by simp
    ultimately show ?thesis by (subst stream_loop.simps) (auto simp: r Let_def)
  next
    case False
    then show ?thesis by (subst stream_loop.simps) (simp add: ReadBytes_none)
  qed
qed

lemma stream_lines_length: "stream_lines raw s e b = Inr out \<Longrightarrow> length out \<le> length raw"
proof (cases "s > 0 \<and> \<not> b \<and> NL \<in> set raw")
  case True
  assume "stream_lines raw s e b = Inr out"
  then have "out = stream_loop s e (length (first_line raw)) (drop (length (first_line raw)) raw)"
    using True ReadBytes_append(1) [of raw] by (simp add: stream_lines_def)
  then show ?thesis using stream_loop_length [of s e "length (first_line raw)" "drop (length (first_line raw)) raw"] by simp
next
  case False
  assume "stream_lines raw s e b = Inr out"
  then show ?thesis
    using False stream_loop_length [of s e 0 raw] by (auto simp: stream_lines_def ReadBytes_none split: if_splits)
qed

text \<open>
  C17: \<^verbatim>\<open>getRawRange\<close> ignores the end of the range: it stops after the first chunk
  that holds any newline.  Of a split longer than \<^verbatim>\<open>splitReadChunkSize\<close> with a newline
  in its first chunk only that chunk is read; the reader reports no error, for
  every checksum of the split, and delivers at most one chunk.
\<close>

theorem large_split_truncated:
  assumes "serves get file" "s + splitReadChunkSize \<le> e" "e < length file"
    and "NL \<in> set (take splitReadChunkSize (drop s file))"
  shows "getRawRange get s e = Inr (take splitReadChunkSize (drop s file))
    \<and> (\<exists>out. length out \<le> splitReadChunkSize
        \<and> (\<forall>sha256 checksum. readSplitRecordsStreaming get (Inr file) sha256 s e checksum = Inr out))"
proof -
  define raw where "raw = take splitReadChunkSize (drop s file)"
  have s: "s < length file" "s \<le> e" "e \<noteq> 0"
    using assms(2,3) by (simp_all add: splitReadChunkSize_def)
  have g: "getRawRange get s e = Inr raw" using first_chunk [OF assms(1) s(2,1) assms(4)] by (simp add: raw_def)
  have len: "length raw \<le> splitReadChunkSize" "\<not> length raw \<ge> e - s + 1"
    using assms(2) by (auto simp: raw_def)
  have nl: "NL \<in> set raw" using assms(4) by (simp add: raw_def)
  have "\<exists>out. stream_lines raw s e (s = 0 \<or> file ! (s - 1) = NL) = Inr out"
    by (simp add: stream_lines_def ReadBytes_append(1) [OF nl])
  then obtain out where out: "stream_lines raw s e (s = 0 \<or> file ! (s - 1) = NL) = Inr out" by blast
  have "readSplitRecordsStreaming get (Inr file) sha256 s e checksum = Inr out" for sha256 checksum
    unfolding readSplitRecordsStreaming_def g Let_def sum.case boundary_known [OF assms(1) s(1)]
    using s(3) len(2) out by simp
  moreover have "length out \<le> splitReadChunkSize" using stream_lines_length [OF out] len(1) by simp
  ultimately show ?thesis using g raw_def by auto
qed

theorem large_split_truncated_witness:
  "\<exists>out. length out \<le> 2 ^ 20 \<and> readSplitRecordsStreaming (mem_store (replicate (2 ^ 26) NL))
      (Inr (replicate (2 ^ 26) NL)) id 0 (2 ^ 26 - 1) ''digest'' = Inr out"
proof -
  have "NL \<in> set (take splitReadChunkSize (drop 0 (replicate (2 ^ 26) NL)))"
    by (simp add: splitReadChunkSize_def)
  then show ?thesis
    using large_split_truncated [OF mem_store_serves, of 0 "2 ^ 26 - 1" "replicate (2 ^ 26) NL"]
    by (auto simp: splitReadChunkSize_def)
qed

text \<open>A record that spans a whole split makes the split deliver the record after it, which the next split delivers too.\<close>

lemma spanning_record_repeats:
  "stream_lines (drop 2 (''abcdef'' @ [NL] @ ''g'' @ [NL])) 2 3 False = Inr (''g'' @ [NL])"
  "stream_lines (drop 4 (''abcdef'' @ [NL] @ ''g'' @ [NL])) 4 8 False = Inr (''g'' @ [NL])"
  by code_simp+

text \<open>The buffered variant returns the nonempty lines of what the streaming reader writes.\<close>

function all_records :: "string \<Rightarrow> string list" where
  "all_records xs = (let (line, rest, eof) = ReadBytes xs
     in if eof then keep_line line else keep_line line @ all_records rest)"
  by pat_completeness auto
termination by (relation "measure length") (auto dest: ReadBytes_length [OF sym])

declare all_records.simps [simp del]

lemma all_records_line: "NL \<notin> set xs \<Longrightarrow> all_records (xs @ NL # ys) = keep_line (xs @ [NL]) @ all_records ys"
  by (subst all_records.simps) (simp add: ReadBytes_line)

lemma all_records_Nil [simp]: "all_records [] = []"
  by (subst all_records.simps) (simp add: keep_line_def trim_line_def)

lemma extract_loop_records: "extract_loop s e offset raw = all_records (stream_loop s e offset raw)"
proof (induction s e offset raw rule: stream_loop.induct)
  case (1 s e offset raw)
  show ?case
  proof (cases "NL \<in> set raw")
    case True
    then obtain xs ys where raw: "raw = xs @ NL # ys" and xs: "NL \<notin> set xs"
      using split_list_first by metis
    note r = ReadBytes_line [OF xs, of ys]
    have "extract_loop s e (offset + Suc (length xs)) ys = all_records (stream_loop s e (offset + Suc (length xs)) ys)"
      if "\<not> s + (offset + Suc (length xs)) > e"
      using "1" [OF _ refl refl, of "xs @ [NL]" ys False "offset + Suc (length xs)"] r raw that by simp
    then show ?thesis
      unfolding raw stream_loop.simps [of s e offset] extract_loop.simps [of s e offset] r
      using all_records_line [OF xs] all_records_line [OF xs, of "[]"] by (auto simp: Let_def)
  next
    case False
    then show ?thesis
      unfolding stream_loop.simps [of s e offset] extract_loop.simps [of s e offset] all_records.simps [of raw]
        ReadBytes_none [OF False] by (simp add: Let_def all_records.simps [of raw] ReadBytes_none)
  qed
qed

lemma extract_split_records:
  "extractSplitLines raw s e b = map_sum id all_records (stream_lines raw s e b)"
  by (auto simp: extractSplitLines_def stream_lines_def extract_loop_records split: prod.splits)

end
