(* ===== verification/Wk_Merge.thy ===== *)
theory Wk_Merge
  imports Prelude "HOL-Library.Char_ord" "HOL-Library.List_Lexorder" "HOL-Library.Product_Lexorder"
begin

text \<open>
  The sorted streams of the shuffle: \<^verbatim>\<open>worker-service/internal/shuffle/merge.go\<close>, the
  bounded multi-pass merge, and \<^verbatim>\<open>worker-service/internal/worker/spill.go\<close>, the sorter
  that spills to disk.  A stream is the list of its lines and whether reading
  fails after them; a file is the list of the lines written to it.  The JSON
  codec is a parameter.  Writing and creating files does not fail.
\<close>

section \<open>Records and streams\<close>

record kv =
  Key :: string
  Value :: string

record stream =
  s_lines :: "string list"
  s_fails :: bool

record json =
  unmarshal :: "string \<Rightarrow> kv option"
  encode :: "kv \<Rightarrow> string"

datatype merge_error = MalformedJSON nat | ReadStream nat

definition MaxBatchSize :: int where "MaxBatchSize = 900"
definition DefaultMaxRecordBytes :: int where "DefaultMaxRecordBytes = 1 * 1024 * 1024"

record merge_config =
  BatchSize :: int
  MaxRecordBytes :: int

record merge_stats =
  TotalPasses :: nat
  PeakOpenStreams :: nat
  SpillCount :: nat
  TotalRecords :: nat

definition DefaultMergeConfig :: merge_config where
  "DefaultMergeConfig = \<lparr> BatchSize = 500, MaxRecordBytes = DefaultMaxRecordBytes \<rparr>"

text \<open>
  One \<^verbatim>\<open>Scan\<close> with the checks around it.  The scanner drops a carriage return at
  the end of a line and gives up on a line that does not fit its buffer.
\<close>

definition drop_cr :: "string \<Rightarrow> string" where
  "drop_cr l = (if l \<noteq> [] \<and> last l = CHR 0x0D then butlast l else l)"

definition scan_record :: "json \<Rightarrow> nat \<Rightarrow> nat \<Rightarrow> stream \<Rightarrow> merge_error + (kv \<times> stream) option" where
  "scan_record js maxBytes i st =
    (case s_lines st of
       [] \<Rightarrow> if s_fails st then Inl (ReadStream i) else Inr None
     | l # ls \<Rightarrow>
         if length l \<ge> maxBytes then Inl (ReadStream i)
         else case unmarshal js (drop_cr l) of
           None \<Rightarrow> Inl (MalformedJSON i)
         | Some r \<Rightarrow> Inr (Some (r, st\<lparr> s_lines := ls \<rparr>)))"

section \<open>The heap merge\<close>

record heap_item =
  it_record :: kv
  it_scanner :: stream
  it_index :: nat

definition Less :: "heap_item \<Rightarrow> heap_item \<Rightarrow> bool" where
  "Less a b = (if Key (it_record a) = Key (it_record b) then it_index a < it_index b
     else Key (it_record a) < Key (it_record b))"

text \<open>
  The heap, as the list of its items in the order of \<^verbatim>\<open>Less\<close>: \<^verbatim>\<open>heap.Pop\<close> removes the
  least item, which is unique because the items of a heap have different indices.
\<close>

fun heap_push :: "heap_item \<Rightarrow> heap_item list \<Rightarrow> heap_item list" where
  "heap_push x [] = [x]"
| "heap_push x (y # ys) = (if Less y x then y # heap_push x ys else x # y # ys)"

fun heap_fill :: "json \<Rightarrow> nat \<Rightarrow> nat \<Rightarrow> stream list \<Rightarrow> heap_item list \<Rightarrow> merge_error + heap_item list" where
  "heap_fill js maxBytes i [] h = Inr h"
| "heap_fill js maxBytes i (st # sts) h =
    (case scan_record js maxBytes i st of
       Inl e \<Rightarrow> Inl e
     | Inr None \<Rightarrow> heap_fill js maxBytes (Suc i) sts h
     | Inr (Some (r, st')) \<Rightarrow>
         heap_fill js maxBytes (Suc i) sts (heap_push \<lparr> it_record = r, it_scanner = st', it_index = i \<rparr> h))"

fun heap_weight :: "heap_item list \<Rightarrow> nat" where
  "heap_weight [] = 0"
| "heap_weight (x # h) = Suc (length (s_lines (it_scanner x))) + heap_weight h"

lemma heap_weight_push [simp]: "heap_weight (heap_push x h) = Suc (length (s_lines (it_scanner x))) + heap_weight h"
  by (induction h) simp_all

lemma scan_shorter: "scan_record js m i st = Inr (Some (r, st')) \<Longrightarrow> length (s_lines st') < length (s_lines st)"
  by (auto simp: scan_record_def split: list.splits if_splits option.splits)

text \<open>The lines written, the number of records, and the error that ended the merge, if any.\<close>

function merge_loop :: "json \<Rightarrow> nat \<Rightarrow> heap_item list \<Rightarrow> string list \<times> nat \<times> merge_error option" where
  "merge_loop js maxBytes [] = ([], 0, None)"
| "merge_loop js maxBytes (x # h) =
    (let l = encode js (it_record x)
     in case scan_record js maxBytes (it_index x) (it_scanner x) of
          Inl e \<Rightarrow> ([l], 1, Some e)
        | Inr None \<Rightarrow> (let (out, n, err) = merge_loop js maxBytes h in (l # out, Suc n, err))
        | Inr (Some (r, st)) \<Rightarrow>
            (let (out, n, err) = merge_loop js maxBytes (heap_push (x\<lparr> it_record := r, it_scanner := st \<rparr>) h)
             in (l # out, Suc n, err)))"
  by pat_completeness auto
termination
  by (relation "measure (\<lambda>(js, m, h). heap_weight h)")
     (auto dest!: scan_shorter)

definition heapMerge :: "json \<Rightarrow> stream list \<Rightarrow> nat \<Rightarrow> string list \<times> nat \<times> merge_error option" where
  "heapMerge js readers maxBytes =
    (case heap_fill js maxBytes 0 readers [] of Inl e \<Rightarrow> ([], 0, Some e) | Inr h \<Rightarrow> merge_loop js maxBytes h)"

section \<open>Passes\<close>

definition spill_stream :: "string list \<Rightarrow> stream" where
  "spill_stream ls = \<lparr> s_lines = ls, s_fails = False \<rparr>"

text \<open>One pass over the inputs in batches; \<^verbatim>\<open>Inl\<close> is an error with the statistics so far.\<close>

function merge_pass :: "json \<Rightarrow> nat \<Rightarrow> nat \<Rightarrow> stream list \<Rightarrow> merge_stats \<Rightarrow>
    (merge_stats \<times> merge_error) + (stream list \<times> merge_stats)" where
  "merge_pass js batch maxBytes inputs stats =
    (if inputs = [] \<or> batch = 0 then Inr ([], stats)
     else let b = take batch inputs;
              stats1 = stats\<lparr> PeakOpenStreams := max (PeakOpenStreams stats) (length b),
                              SpillCount := SpillCount stats + 1 \<rparr>;
              (out, n, err) = heapMerge js b maxBytes
          in case err of Some e \<Rightarrow> Inl (stats1, e)
             | None \<Rightarrow> (case merge_pass js batch maxBytes (drop batch inputs) stats1 of
                          Inl x \<Rightarrow> Inl x
                        | Inr (nextInputs, stats2) \<Rightarrow> Inr (spill_stream out # nextInputs, stats2)))"
  by pat_completeness auto
termination by (relation "measure (\<lambda>(js, b, m, inputs, st). length inputs)") auto

declare merge_pass.simps [simp del]

lemma merge_pass_step:
  assumes "inputs \<noteq> []" "batch \<noteq> 0" "merge_pass js batch m inputs stats = Inr (ns, stats')"
  obtains out n ns' where "heapMerge js (take batch inputs) m = (out, n, None)" "ns = spill_stream out # ns'"
    "merge_pass js batch m (drop batch inputs) (stats\<lparr> PeakOpenStreams :=
       max (PeakOpenStreams stats) (length (take batch inputs)), SpillCount := SpillCount stats + 1 \<rparr>) = Inr (ns', stats')"
  using assms by (subst (asm) merge_pass.simps) (auto simp: Let_def split: prod.splits option.splits sum.splits)

lemma merge_pass_length:
  "merge_pass js batch m inputs stats = Inr (ns, stats') \<Longrightarrow> 0 < batch \<Longrightarrow> batch * length ns < length inputs + batch"
proof (induction "length inputs" arbitrary: inputs stats ns rule: less_induct)
  case less
  show ?case
  proof (cases "inputs = []")
    case True
    then show ?thesis using less.prems by (simp add: merge_pass.simps)
  next
    case False
    then obtain out n ns' where ns: "ns = spill_stream out # ns'"
        "merge_pass js batch m (drop batch inputs) (stats\<lparr> PeakOpenStreams :=
           max (PeakOpenStreams stats) (length (take batch inputs)), SpillCount := SpillCount stats + 1 \<rparr>) = Inr (ns', stats')"
      using merge_pass_step less.prems by (metis neq0_conv)
    have "batch * length ns' < length (drop batch inputs) + batch"
      by (rule less.hyps [OF _ ns(2) less.prems(2)]) (use False less.prems(2) in simp)
    then show ?thesis using ns(1) False by (cases "batch \<le> length inputs") auto
  qed
qed

text \<open>The passes until the streams that are left fit one batch, and the final one.\<close>

function merge_passes :: "json \<Rightarrow> nat \<Rightarrow> nat \<Rightarrow> stream list \<Rightarrow> merge_stats \<Rightarrow>
    string list \<times> merge_stats \<times> merge_error option" where
  "merge_passes js batch maxBytes inputs stats =
    (if 1 < batch \<and> length inputs > batch then
       (case merge_pass js batch maxBytes inputs (stats\<lparr> TotalPasses := TotalPasses stats + 1 \<rparr>) of
          Inl (stats1, e) \<Rightarrow> ([], stats1, Some e)
        | Inr (ns, stats1) \<Rightarrow> merge_passes js batch maxBytes ns stats1)
     else let stats1 = stats\<lparr> TotalPasses := TotalPasses stats + 1,
                              PeakOpenStreams := max (PeakOpenStreams stats) (length inputs) \<rparr>;
              (out, n, err) = heapMerge js inputs maxBytes
          in case err of Some e \<Rightarrow> (out, stats1, Some e)
             | None \<Rightarrow> (out, stats1\<lparr> TotalRecords := n \<rparr>, None))"
  by pat_completeness auto
termination
proof (relation "measure (\<lambda>(js, b, m, inputs, st). length inputs)")
  fix js batch m inputs stats x y ns stats1
  assume b: "1 < batch \<and> batch < length (inputs :: stream list)"
    and mp: "merge_pass js batch m inputs (stats\<lparr> TotalPasses := TotalPasses stats + 1 \<rparr>) = Inr y" "(ns, stats1) = y"
  have "0 < batch" using b by simp
  then have "batch * length ns < length inputs + batch"
    using merge_pass_length [of js batch m inputs _ ns stats1] mp by blast
  moreover have "2 * length ns \<le> batch * length ns" using b by simp
  ultimately have "length ns < length inputs" using b by linarith
  then show "((js, batch, m, ns, stats1), js, batch, m, inputs, stats)
      \<in> measure (\<lambda>(js, b, m, inputs, st). length inputs)" by simp
qed simp

declare merge_passes.simps [simp del]

definition clampBatch :: "int \<Rightarrow> nat" where
  "clampBatch b = nat (let b1 = (if b \<le> 1 then 500 else b) in if b1 > MaxBatchSize then MaxBatchSize else b1)"

definition clampRecord :: "int \<Rightarrow> nat" where
  "clampRecord m = nat (if m \<le> 0 then DefaultMaxRecordBytes else m)"

definition no_stats :: merge_stats where
  "no_stats = \<lparr> TotalPasses = 0, PeakOpenStreams = 0, SpillCount = 0, TotalRecords = 0 \<rparr>"

definition MergeInputs :: "json \<Rightarrow> stream list \<Rightarrow> merge_config \<Rightarrow> string list \<times> merge_stats \<times> merge_error option" where
  "MergeInputs js readers cfg =
    (if readers = [] then ([], no_stats, None)
     else let batch = clampBatch (BatchSize cfg); maxBytes = clampRecord (MaxRecordBytes cfg)
       in if length readers \<le> batch then
            (let (out, n, err) = heapMerge js readers maxBytes;
                 stats = no_stats\<lparr> TotalPasses := 1, PeakOpenStreams := length readers \<rparr>
             in case err of Some e \<Rightarrow> (out, stats, Some e) | None \<Rightarrow> (out, stats\<lparr> TotalRecords := n \<rparr>, None))
          else merge_passes js batch maxBytes readers no_stats)"

section \<open>Correctness of the heap merge\<close>

text \<open>A stream that can be read to its end, and the records on it.\<close>

definition good_stream :: "json \<Rightarrow> nat \<Rightarrow> stream \<Rightarrow> bool" where
  "good_stream js m st \<longleftrightarrow> \<not> s_fails st \<and> (\<forall>l\<in>set (s_lines st). length l < m \<and> unmarshal js (drop_cr l) \<noteq> None)"

definition recs :: "json \<Rightarrow> stream \<Rightarrow> kv list" where
  "recs js st = map (\<lambda>l. the (unmarshal js (drop_cr l))) (s_lines st)"

definition key_sorted :: "kv list \<Rightarrow> bool" where
  "key_sorted rs \<longleftrightarrow> sorted (map Key rs)"

lemma scan_good:
  assumes "good_stream js m st"
  shows "scan_record js m i st = (case recs js st of [] \<Rightarrow> Inr None | r # rs \<Rightarrow> Inr (Some (r, st\<lparr> s_lines := tl (s_lines st) \<rparr>)))"
  using assms by (cases "s_lines st") (auto simp: scan_record_def good_stream_def recs_def not_le)

lemma good_tl: "good_stream js m st \<Longrightarrow> good_stream js m (st\<lparr> s_lines := tl (s_lines st) \<rparr>)"
  by (cases "s_lines st") (simp_all add: good_stream_def)

lemma recs_tl: "recs js (st\<lparr> s_lines := tl (s_lines st) \<rparr>) = tl (recs js st)"
  by (simp add: recs_def map_tl)

text \<open>The records of a heap item, tagged with its index; the heap orders them by key and index.\<close>

definition item_recs :: "json \<Rightarrow> heap_item \<Rightarrow> kv list" where
  "item_recs js x = it_record x # recs js (it_scanner x)"

definition tagged :: "json \<Rightarrow> heap_item \<Rightarrow> (nat \<times> kv) list" where
  "tagged js x = map (Pair (it_index x)) (item_recs js x)"

definition tag_key :: "nat \<times> kv \<Rightarrow> string \<times> nat" where
  "tag_key p = (Key (snd p), fst p)"

definition head_key :: "heap_item \<Rightarrow> string \<times> nat" where
  "head_key x = (Key (it_record x), it_index x)"

definition heap_ok :: "json \<Rightarrow> nat \<Rightarrow> heap_item list \<Rightarrow> bool" where
  "heap_ok js m h \<longleftrightarrow> distinct (map it_index h) \<and> sorted (map head_key h)
    \<and> (\<forall>x\<in>set h. good_stream js m (it_scanner x) \<and> key_sorted (item_recs js x))"

lemma Less_iff: "Less a b \<longleftrightarrow> head_key a < head_key b"
  by (auto simp: Less_def head_key_def less_prod_def')

lemma mset_push [simp]: "mset (heap_push x h) = add_mset x (mset h)"
  by (induction h) auto

lemma set_push [simp]: "set (heap_push x h) = insert x (set h)"
  by (metis mset_push set_mset_add_mset_insert set_mset_mset)

lemma sorted_push: "sorted (map head_key h) \<Longrightarrow> sorted (map head_key (heap_push x h))"
  by (induction h) (auto simp: Less_iff not_less)

lemma heap_ok_push:
  assumes "heap_ok js m h" "it_index x \<notin> it_index ` set h" "good_stream js m (it_scanner x)" "key_sorted (item_recs js x)"
  shows "heap_ok js m (heap_push x h)"
proof -
  have "mset (map it_index (heap_push x h)) = mset (it_index x # map it_index h)" by simp
  then have "distinct (map it_index (heap_push x h))"
    using assms(1,2) mset_eq_imp_distinct_iff by (fastforce simp: heap_ok_def)
  then show ?thesis using assms sorted_push by (auto simp: heap_ok_def)
qed

lemma tagged_index: "p \<in> set (tagged js x) \<Longrightarrow> fst p = it_index x"
  by (auto simp: tagged_def)

text \<open>Records of different items have different tags, so the order of the items does not matter.\<close>

lemma sort_key_swap:
  assumes "\<forall>a\<in>set xs. \<forall>b\<in>set ys. f a \<noteq> f b"
  shows "sort_key f (xs @ ys @ zs) = sort_key f (ys @ xs @ zs)"
proof -
  have one: "\<forall>b\<in>set bs. f a \<noteq> f b \<Longrightarrow> insort_key f a (sort_key f (bs @ cs)) = sort_key f (bs @ a # cs)" for a bs cs
    by (induction bs) (auto simp: insort_key_left_comm)
  from assms show ?thesis by (induction xs) (auto simp: one)
qed

lemma sort_tagged_push:
  "it_index x \<notin> it_index ` set h \<Longrightarrow>
    sort_key tag_key (concat (map (tagged js) (heap_push x h))) = sort_key tag_key (tagged js x @ concat (map (tagged js) h))"
proof (induction h)
  case (Cons y h)
  show ?case
  proof (cases "Less y x")
    case True
    have d: "\<forall>a\<in>set (tagged js x). \<forall>b\<in>set (tagged js y). tag_key a \<noteq> tag_key b"
      using Cons.prems by (auto simp: tag_key_def dest!: tagged_index)
    have "sort_key tag_key (tagged js y @ concat (map (tagged js) (heap_push x h)))
        = foldr (insort_key tag_key) (tagged js y) (sort_key tag_key (concat (map (tagged js) (heap_push x h))))"
      by (simp add: sort_key_def)
    also have "\<dots> = sort_key tag_key (tagged js y @ tagged js x @ concat (map (tagged js) h))"
      using Cons by (simp add: sort_key_def)
    also have "\<dots> = sort_key tag_key (tagged js x @ tagged js y @ concat (map (tagged js) h))"
      by (rule sort_key_swap [OF d, symmetric])
    finally show ?thesis using True by simp
  qed simp
qed simp

text \<open>What the loop writes is the list of all records in the order of key and stream.\<close>

definition heap_sorted :: "json \<Rightarrow> heap_item list \<Rightarrow> (nat \<times> kv) list" where
  "heap_sorted js h = sort_key tag_key (concat (map (tagged js) h))"

lemma tagged_le:
  assumes "key_sorted (item_recs js x)" "p \<in> set (tagged js x)" "k \<le> head_key x"
  shows "k \<le> tag_key p"
proof -
  have "Key (it_record x) \<le> Key (snd p)" "fst p = it_index x"
    using assms(1,2) by (auto simp: key_sorted_def tagged_def item_recs_def)
  then have "head_key x \<le> tag_key p" by (auto simp: head_key_def tag_key_def less_eq_prod_def le_less)
  then show ?thesis using assms(3) by simp
qed

lemma heap_sorted_Cons:
  assumes "heap_ok js m (x # h)"
  shows "heap_sorted js (x # h) = (it_index x, it_record x)
    # sort_key tag_key (map (Pair (it_index x)) (recs js (it_scanner x)) @ concat (map (tagged js) h))"
proof -
  define rest where "rest = map (Pair (it_index x)) (recs js (it_scanner x)) @ concat (map (tagged js) h)"
  have "\<forall>p\<in>set rest. tag_key (it_index x, it_record x) \<le> tag_key p"
  proof
    fix p assume "p \<in> set rest"
    then consider "p \<in> set (tagged js x)" | y where "y \<in> set h" "p \<in> set (tagged js y)"
      by (auto simp: rest_def tagged_def item_recs_def)
    then have "head_key x \<le> tag_key p"
    proof cases
      case 1
      then show ?thesis using tagged_le [of js x p "head_key x"] assms by (simp add: heap_ok_def)
    next
      case 2
      then show ?thesis using tagged_le [of js y p "head_key x"] assms by (auto simp: heap_ok_def)
    qed
    then show "tag_key (it_index x, it_record x) \<le> tag_key p" by (simp add: head_key_def tag_key_def)
  qed
  then have "insort_key tag_key (it_index x, it_record x) (sort_key tag_key rest)
      = (it_index x, it_record x) # sort_key tag_key rest"
    by (intro insort_is_Cons) simp
  then show ?thesis by (simp add: heap_sorted_def rest_def tagged_def item_recs_def)
qed

lemma merge_loop_sorted:
  "heap_ok js m h \<Longrightarrow> merge_loop js m h =
    (map (encode js \<circ> snd) (heap_sorted js h), length (heap_sorted js h), None)"
proof (induction js m h rule: merge_loop.induct)
  case (2 js m x h)
  have g: "good_stream js m (it_scanner x)" and h: "heap_ok js m h" and d: "it_index x \<notin> it_index ` set h"
    using "2.prems" by (auto simp: heap_ok_def)
  note c = heap_sorted_Cons [OF "2.prems"]
  show ?case
  proof (cases "recs js (it_scanner x)")
    case Nil
    then have s: "scan_record js m (it_index x) (it_scanner x) = Inr None" by (simp add: scan_good [OF g])
    have "merge_loop js m h = (map (encode js \<circ> snd) (heap_sorted js h), length (heap_sorted js h), None)"
      using "2.IH"(1) [OF refl s refl h] .
    then show ?thesis using c Nil s by (simp add: Let_def heap_sorted_def)
  next
    case (Cons r rs)
    define st where "st = (it_scanner x)\<lparr> s_lines := tl (s_lines (it_scanner x)) \<rparr>"
    define x' where "x' = x\<lparr> it_record := r, it_scanner := st \<rparr>"
    have s: "scan_record js m (it_index x) (it_scanner x) = Inr (Some (r, st))"
      by (simp add: scan_good [OF g] Cons st_def)
    have items: "item_recs js x' = recs js (it_scanner x)"
      by (simp add: item_recs_def x'_def st_def recs_tl Cons)
    have "heap_ok js m (heap_push x' h)"
    proof (rule heap_ok_push [OF h])
      show "it_index x' \<notin> it_index ` set h" using d by (simp add: x'_def)
      show "good_stream js m (it_scanner x')" using good_tl [OF g] by (simp add: x'_def st_def)
      show "key_sorted (item_recs js x')"
        using "2.prems" unfolding items by (auto simp: heap_ok_def key_sorted_def item_recs_def)
    qed
    from "2.IH"(2) [OF refl s refl refl this [unfolded x'_def]]
    have ih: "merge_loop js m (heap_push x' h) =
        (map (encode js \<circ> snd) (heap_sorted js (heap_push x' h)), length (heap_sorted js (heap_push x' h)), None)"
      by (simp add: x'_def)
    have "heap_sorted js (heap_push x' h) =
        sort_key tag_key (map (Pair (it_index x)) (recs js (it_scanner x)) @ concat (map (tagged js) h))"
      using sort_tagged_push [of x' h js] d items by (simp add: heap_sorted_def tagged_def x'_def)
    then show ?thesis using c s ih by (simp add: Let_def x'_def [symmetric])
  qed
qed (simp add: heap_sorted_def)

lemma sort_key_parts: "sort_key f (sort_key f xs @ ys) = sort_key f (xs @ ys)"
proof (rule properties_for_sort_key)
  fix k
  have st: "filter (\<lambda>x. f k = f x) (sort_key f zs) = filter (\<lambda>x. f k = f x) zs" for zs
    using sort_key_stable [of f "f k" zs] by (simp add: eq_commute)
  show "filter (\<lambda>x. f k = f x) (sort_key f (xs @ ys)) = filter (\<lambda>x. f k = f x) (sort_key f xs @ ys)"
    by (simp add: st)
qed simp_all

lemma sort_key_append: "sort_key f (xs @ sort_key f ys) = sort_key f (xs @ ys)"
proof (rule properties_for_sort_key)
  fix k
  have st: "filter (\<lambda>x. f k = f x) (sort_key f zs) = filter (\<lambda>x. f k = f x) zs" for zs
    using sort_key_stable [of f "f k" zs] by (simp add: eq_commute)
  show "filter (\<lambda>x. f k = f x) (sort_key f (xs @ ys)) = filter (\<lambda>x. f k = f x) (xs @ sort_key f ys)"
    by (simp add: st)
qed simp_all

fun stream_tags :: "json \<Rightarrow> nat \<Rightarrow> stream list \<Rightarrow> (nat \<times> kv) list" where
  "stream_tags js i [] = []"
| "stream_tags js i (st # sts) = map (Pair i) (recs js st) @ stream_tags js (Suc i) sts"

definition sorted_stream :: "json \<Rightarrow> nat \<Rightarrow> stream \<Rightarrow> bool" where
  "sorted_stream js m st \<longleftrightarrow> good_stream js m st \<and> key_sorted (recs js st)"

lemma heap_fill_sorted:
  "heap_ok js m h \<Longrightarrow> \<forall>x\<in>set h. it_index x < i \<Longrightarrow> \<forall>st\<in>set sts. sorted_stream js m st \<Longrightarrow>
    \<exists>h'. heap_fill js m i sts h = Inr h' \<and> heap_ok js m h'
      \<and> heap_sorted js h' = sort_key tag_key (concat (map (tagged js) h) @ stream_tags js i sts)"
proof (induction sts arbitrary: i h)
  case (Cons st sts)
  have g: "good_stream js m st" and ks: "key_sorted (recs js st)" using Cons.prems(3) by (auto simp: sorted_stream_def)
  show ?case
  proof (cases "recs js st")
    case Nil
    have "\<forall>x\<in>set h. it_index x < Suc i" using Cons.prems(2) by auto
    then show ?thesis using Cons.IH [of h "Suc i"] Cons.prems Nil by (simp add: scan_good [OF g])
  next
    case r: (Cons r rs)
    define x where "x = \<lparr> it_record = r, it_scanner = st\<lparr> s_lines := tl (s_lines st) \<rparr>, it_index = i \<rparr>"
    have items: "item_recs js x = recs js st" by (simp add: item_recs_def x_def recs_tl r)
    have new: "it_index x \<notin> it_index ` set h" using Cons.prems(2) by (auto simp: x_def)
    have ok: "heap_ok js m (heap_push x h)"
      using heap_ok_push [OF Cons.prems(1) new] good_tl [OF g] ks items by (simp add: x_def)
    have lt: "\<forall>y\<in>set (heap_push x h). it_index y < Suc i" using Cons.prems(2) by (auto simp: x_def)
    have "heap_fill js m i (st # sts) h = heap_fill js m (Suc i) sts (heap_push x h)"
      by (simp add: scan_good [OF g] r x_def)
    moreover have "sort_key tag_key (concat (map (tagged js) (heap_push x h)) @ stream_tags js (Suc i) sts)
        = sort_key tag_key (concat (map (tagged js) h) @ stream_tags js i (st # sts))"
    proof -
      have d: "\<forall>a\<in>set (tagged js x). \<forall>b\<in>set (concat (map (tagged js) h)). tag_key a \<noteq> tag_key b"
        using new by (auto simp: tag_key_def dest!: tagged_index)
      have "sort_key tag_key (concat (map (tagged js) (heap_push x h)) @ stream_tags js (Suc i) sts)
          = sort_key tag_key (sort_key tag_key (tagged js x @ concat (map (tagged js) h)) @ stream_tags js (Suc i) sts)"
        using sort_tagged_push [OF new] sort_key_parts by metis
      also have "\<dots> = sort_key tag_key (concat (map (tagged js) h) @ tagged js x @ stream_tags js (Suc i) sts)"
        unfolding sort_key_parts append_assoc by (rule sort_key_swap [OF d])
      finally show ?thesis by (simp add: tagged_def items) (simp add: x_def)
    qed
    ultimately show ?thesis using Cons.IH [OF ok lt] Cons.prems(3) by simp
  qed
qed (simp add: heap_sorted_def)

text \<open>Without the tags this is the stable sort of the concatenated streams.\<close>

lemma insort_untag:
  "\<forall>q\<in>set qs. fst p \<le> fst q \<Longrightarrow>
    map snd (insort_key tag_key p qs) = insort_key Key (snd p) (map snd qs)"
  by (induction qs) (auto simp: tag_key_def less_eq_prod_def)

lemma sort_untag: "sorted (map fst ps) \<Longrightarrow> map snd (sort_key tag_key ps) = sort_key Key (map snd ps)"
  by (induction ps) (auto simp: insort_untag)

lemma stream_tags_index: "p \<in> set (stream_tags js i sts) \<Longrightarrow> i \<le> fst p"
  by (induction sts arbitrary: i) (auto dest: Suc_leD)

lemma stream_tags_sorted: "sorted (map fst (stream_tags js i sts))"
proof (induction sts arbitrary: i)
  case (Cons st sts)
  have "sorted (map fst (map (Pair i) (recs js st)))" by (induction "recs js st") (simp_all add: sorted_map)
  then show ?case using Cons by (auto simp: sorted_append dest!: stream_tags_index intro: Suc_leD)
qed simp

lemma stream_tags_recs: "map snd (stream_tags js i sts) = concat (map (recs js) sts)"
  by (induction sts arbitrary: i) (simp_all add: comp_def)

definition merged :: "json \<Rightarrow> stream list \<Rightarrow> kv list" where
  "merged js sts = sort_key Key (concat (map (recs js) sts))"

lemma heapMerge_sorts:
  assumes "\<forall>st\<in>set sts. sorted_stream js m st"
  shows "heapMerge js sts m = (map (encode js) (merged js sts), length (merged js sts), None)"
proof -
  have "heap_ok js m []" by (simp add: heap_ok_def)
  then obtain h where h: "heap_fill js m 0 sts [] = Inr h" "heap_ok js m h"
      "heap_sorted js h = sort_key tag_key (stream_tags js 0 sts)"
    using heap_fill_sorted [of js m "[]" 0 sts] assms by auto
  have m: "map snd (heap_sorted js h) = merged js sts"
    unfolding h(3) merged_def sort_untag [OF stream_tags_sorted] stream_tags_recs ..
  then have "length (heap_sorted js h) = length (merged js sts)" by (metis length_map)
  then show ?thesis
    unfolding heapMerge_def h(1) sum.case merge_loop_sorted [OF h(2)] by (simp flip: m)
qed

section \<open>Correctness of the passes\<close>

text \<open>What the codec promises for records that were read from a line, and that their lines fit the scanner again.\<close>

definition json_ok :: "json \<Rightarrow> bool" where
  "json_ok js \<longleftrightarrow> (\<forall>l r. unmarshal js l = Some r \<longrightarrow> unmarshal js (drop_cr (encode js r)) = Some r)"

definition fits :: "json \<Rightarrow> nat \<Rightarrow> kv list \<Rightarrow> bool" where
  "fits js m rs \<longleftrightarrow> (\<forall>r\<in>set rs. length (encode js r) < m)"

definition rereadable :: "json \<Rightarrow> kv list \<Rightarrow> bool" where
  "rereadable js rs \<longleftrightarrow> (\<forall>r\<in>set rs. unmarshal js (drop_cr (encode js r)) = Some r)"

lemma recs_rereadable: "json_ok js \<Longrightarrow> good_stream js m st \<Longrightarrow> rereadable js (recs js st)"
  by (fastforce simp: json_ok_def good_stream_def rereadable_def recs_def)

lemma spill_recs: "rereadable js rs \<Longrightarrow> recs js (spill_stream (map (encode js) rs)) = rs"
  by (induction rs) (simp_all add: rereadable_def recs_def spill_stream_def)

lemma spill_sorted:
  "rereadable js rs \<Longrightarrow> fits js m rs \<Longrightarrow> key_sorted rs \<Longrightarrow> sorted_stream js m (spill_stream (map (encode js) rs))"
  unfolding sorted_stream_def good_stream_def using spill_recs
  by (auto simp: rereadable_def fits_def spill_stream_def)

lemma set_merged [simp]: "set (merged js sts) = (\<Union>st\<in>set sts. set (recs js st))"
  by (simp add: merged_def)

lemma merged_sorted: "key_sorted (merged js sts)"
  by (simp add: merged_def key_sorted_def)

definition inputs_ok :: "json \<Rightarrow> nat \<Rightarrow> stream list \<Rightarrow> bool" where
  "inputs_ok js m sts \<longleftrightarrow> (\<forall>st\<in>set sts. sorted_stream js m st \<and> rereadable js (recs js st) \<and> fits js m (recs js st))"

lemma merge_pass_sorts:
  assumes "0 < batch"
  shows "inputs_ok js m inputs \<Longrightarrow> \<exists>ns stats'. merge_pass js batch m inputs stats = Inr (ns, stats')
    \<and> inputs_ok js m ns \<and> merged js ns = merged js inputs
    \<and> PeakOpenStreams stats' \<le> max (PeakOpenStreams stats) batch"
proof (induction "length inputs" arbitrary: inputs stats rule: less_induct)
  case less
  show ?case
  proof (cases "inputs = []")
    case True
    then show ?thesis by (simp add: merge_pass.simps inputs_ok_def)
  next
    case False
    define b where "b = take batch inputs"
    define d where "d = drop batch inputs"
    define stats1 where "stats1 = stats\<lparr> PeakOpenStreams := max (PeakOpenStreams stats) (length b), SpillCount := SpillCount stats + 1 \<rparr>"
    have ok: "inputs_ok js m b" "inputs_ok js m d"
      using less.prems by (auto simp: inputs_ok_def b_def d_def dest: in_set_takeD in_set_dropD)
    have hm: "heapMerge js b m = (map (encode js) (merged js b), length (merged js b), None)"
      using ok(1) by (intro heapMerge_sorts) (simp add: inputs_ok_def)
    have rd: "rereadable js (merged js b)" "fits js m (merged js b)"
      using ok(1) by (auto simp: inputs_ok_def rereadable_def fits_def)
    define out where "out = spill_stream (map (encode js) (merged js b))"
    have out: "recs js out = merged js b" "inputs_ok js m [out]"
      using rd spill_recs [OF rd(1)] spill_sorted [OF rd merged_sorted] by (simp_all add: out_def inputs_ok_def)
    have "length d < length inputs" using False assms by (simp add: d_def)
    from less.hyps [OF this ok(2), of stats1] obtain ns stats' where
      ns: "merge_pass js batch m d stats1 = Inr (ns, stats')" "inputs_ok js m ns" "merged js ns = merged js d"
        "PeakOpenStreams stats' \<le> max (PeakOpenStreams stats1) batch" by blast
    have step: "merge_pass js batch m inputs stats = Inr (out # ns, stats')"
      using False assms hm ns(1)
      by (subst merge_pass.simps) (simp add: Let_def b_def [symmetric] d_def [symmetric] stats1_def out_def)
    have "merged js (out # ns) = sort_key Key (concat (map (recs js) b) @ concat (map (recs js) ns))"
      by (simp add: merged_def out(1) sort_key_parts)
    also have "\<dots> = sort_key Key (concat (map (recs js) b) @ sort_key Key (concat (map (recs js) ns)))"
      by (simp add: sort_key_append)
    also have "\<dots> = sort_key Key (concat (map (recs js) b) @ sort_key Key (concat (map (recs js) d)))"
      using ns(3) by (simp add: merged_def)
    also have "\<dots> = sort_key Key (concat (map (recs js) (b @ d)))" by (simp add: sort_key_append)
    also have "\<dots> = merged js inputs" by (simp add: merged_def b_def d_def)
    finally have "merged js (out # ns) = merged js inputs" .
    moreover have "PeakOpenStreams stats' \<le> max (PeakOpenStreams stats) batch"
      using ns(4) by (simp add: stats1_def b_def)
    moreover have "inputs_ok js m (out # ns)" using out(2) ns(2) by (simp add: inputs_ok_def)
    ultimately show ?thesis using step by blast
  qed
qed

lemma merge_passes_sorts:
  "inputs_ok js m inputs \<Longrightarrow> 1 < batch \<Longrightarrow> PeakOpenStreams stats \<le> batch \<Longrightarrow>
    \<exists>stats'. merge_passes js batch m inputs stats = (map (encode js) (merged js inputs), stats', None)
      \<and> TotalRecords stats' = length (merged js inputs) \<and> PeakOpenStreams stats' \<le> batch"
proof (induction "length inputs" arbitrary: inputs stats rule: less_induct)
  case less
  show ?case
  proof (cases "length inputs > batch")
    case True
    have "0 < batch" using less.prems(2) by simp
    from merge_pass_sorts [OF this less.prems(1), of "stats\<lparr> TotalPasses := TotalPasses stats + 1 \<rparr>"]
    obtain ns stats' where ns: "merge_pass js batch m inputs (stats\<lparr> TotalPasses := TotalPasses stats + 1 \<rparr>) = Inr (ns, stats')"
        "inputs_ok js m ns" "merged js ns = merged js inputs"
        "PeakOpenStreams stats' \<le> max (PeakOpenStreams (stats\<lparr> TotalPasses := TotalPasses stats + 1 \<rparr>)) batch" by blast
    have "batch * length ns < length inputs + batch" using merge_pass_length [OF ns(1) \<open>0 < batch\<close>] .
    moreover have "2 * length ns \<le> batch * length ns" using less.prems(2) by simp
    ultimately have lt: "length ns < length inputs" using True by linarith
    have pk: "PeakOpenStreams stats' \<le> batch" using ns(4) less.prems(3) by simp
    show ?thesis
      using less.hyps [OF lt ns(2) less.prems(2) pk] True less.prems(2) ns(1,3)
      by (subst merge_passes.simps) simp
  next
    case False
    have "heapMerge js inputs m = (map (encode js) (merged js inputs), length (merged js inputs), None)"
      using less.prems(1) by (intro heapMerge_sorts) (simp add: inputs_ok_def)
    then show ?thesis using False less.prems(3) by (subst merge_passes.simps) (simp add: Let_def)
  qed
qed

lemma clampBatch_bounds: "1 < clampBatch b" "clampBatch b \<le> 900"
  by (auto simp: clampBatch_def MaxBatchSize_def Let_def)

lemma MergeInputs_merged:
  assumes "inputs_ok js (clampRecord (MaxRecordBytes cfg)) readers"
  shows "\<exists>stats. MergeInputs js readers cfg = (map (encode js) (merged js readers), stats, None)
    \<and> TotalRecords stats = length (merged js readers) \<and> PeakOpenStreams stats \<le> clampBatch (BatchSize cfg)"
proof (cases "readers = [] \<or> length readers > clampBatch (BatchSize cfg)")
  case True
  then show ?thesis
    using merge_passes_sorts [OF assms clampBatch_bounds(1), of no_stats "BatchSize cfg"]
    by (auto simp: MergeInputs_def no_stats_def merged_def Let_def)
next
  case False
  have "heapMerge js readers (clampRecord (MaxRecordBytes cfg)) = (map (encode js) (merged js readers), length (merged js readers), None)"
    using assms by (intro heapMerge_sorts) (simp add: inputs_ok_def)
  then show ?thesis using False by (auto simp: MergeInputs_def no_stats_def Let_def)
qed

text \<open>
  C13: The merge of sorted streams is the stable sort of their records: equal
  keys stay in the order of the streams and, within one stream, in its order.
  This holds for every number of streams and every batch size, so the passes
  over spill files lose and reorder nothing; no more than \<^verbatim>\<open>MaxBatchSize\<close> streams are
  open at once, and the record count of the statistics is right.
\<close>

theorem MergeInputs_sorts:
  assumes "json_ok js"
    and "\<forall>st\<in>set readers. sorted_stream js (clampRecord (MaxRecordBytes cfg)) st
      \<and> fits js (clampRecord (MaxRecordBytes cfg)) (recs js st)"
  shows "\<exists>stats. MergeInputs js readers cfg =
      (map (encode js) (sort_key Key (concat (map (recs js) readers))), stats, None)
    \<and> TotalRecords stats = length (concat (map (recs js) readers)) \<and> PeakOpenStreams stats \<le> 900"
proof -
  have "inputs_ok js (clampRecord (MaxRecordBytes cfg)) readers"
    using assms recs_rereadable by (auto simp: inputs_ok_def sorted_stream_def)
  from MergeInputs_merged [OF this] show ?thesis
    using clampBatch_bounds(2) [of "BatchSize cfg"] by (auto simp: merged_def intro: order_trans)
qed

text \<open>A small codec: a line is the key, a colon, the value and a closing brace.\<close>

definition ex_unmarshal :: "string \<Rightarrow> kv option" where
  "ex_unmarshal l = (if l \<noteq> [] \<and> last l = CHR ''}'' \<and> CHR '':'' \<in> set (butlast l)
     then Some \<lparr> Key = takeWhile (\<lambda>c. c \<noteq> CHR '':'') l, Value = butlast (tl (dropWhile (\<lambda>c. c \<noteq> CHR '':'') l)) \<rparr>
     else None)"

definition ex_json :: json where
  "ex_json = \<lparr> unmarshal = ex_unmarshal, encode = (\<lambda>r. Key r @ '':'' @ Value r @ ''}'') \<rparr>"

lemma ex_json_ok: "json_ok ex_json"
proof -
  have "CHR '':'' \<notin> set (Key r)" if "ex_unmarshal l = Some r" for l r
    using that set_takeWhileD by (fastforce simp: ex_unmarshal_def split: if_splits)
  moreover have "ex_unmarshal (Key r @ '':'' @ Value r @ ''}'') = Some r" if "CHR '':'' \<notin> set (Key r)" for r
  proof -
    have "takeWhile (\<lambda>c. c \<noteq> CHR '':'') (Key r @ '':'' @ Value r @ ''}'') = Key r"
      "dropWhile (\<lambda>c. c \<noteq> CHR '':'') (Key r @ '':'' @ Value r @ ''}'') = '':'' @ Value r @ ''}''"
      using that by (auto simp: takeWhile_append dropWhile_append)
    then show ?thesis by (simp add: ex_unmarshal_def butlast_append)
  qed
  ultimately show ?thesis by (auto simp: json_ok_def ex_json_def drop_cr_def)
qed

definition ex_streams :: "stream list" where
  "ex_streams = [spill_stream [''a:1}'', ''c:2}''], spill_stream [''b:3}'', ''c:4}''], spill_stream [''a:5}'']]"

lemma ex_streams_ok:
  "\<forall>st\<in>set ex_streams. sorted_stream ex_json (clampRecord 64) st \<and> fits ex_json (clampRecord 64) (recs ex_json st)"
  by code_simp

theorem MergeInputs_sorts_witness:
  "\<exists>stats. MergeInputs ex_json ex_streams \<lparr> BatchSize = 2, MaxRecordBytes = 64 \<rparr> =
      (map (encode ex_json) (sort_key Key (concat (map (recs ex_json) ex_streams))), stats, None)
    \<and> TotalRecords stats = 5 \<and> PeakOpenStreams stats \<le> 900"
proof -
  have "length (concat (map (recs ex_json) ex_streams)) = 5" by code_simp
  then show ?thesis
    using MergeInputs_sorts [OF ex_json_ok, of ex_streams "\<lparr> BatchSize = 2, MaxRecordBytes = 64 \<rparr>"] ex_streams_ok by simp
qed

text \<open>
  The encoder escapes the characters of HTML, so a record may be longer on a
  spill file than on its input, and a merge in several passes fails where one
  pass succeeds.
\<close>

definition esc_json :: json where
  "esc_json = \<lparr> unmarshal = ex_unmarshal,
     encode = (\<lambda>r. Key r @ '':'' @ concat (map (\<lambda>c. if c = CHR ''<'' then [CHR 0x5C] @ ''u003c'' else [c]) (Value r)) @ ''}'') \<rparr>"

definition esc_streams :: "stream list" where
  "esc_streams = [spill_stream [''a:<<}''], spill_stream [''b:1}''], spill_stream [''c:2}'']]"

lemma spill_may_exceed_limit:
  "snd (snd (MergeInputs esc_json esc_streams \<lparr> BatchSize = 3, MaxRecordBytes = 8 \<rparr>)) = None"
  "snd (snd (MergeInputs esc_json esc_streams \<lparr> BatchSize = 2, MaxRecordBytes = 8 \<rparr>)) = Some (ReadStream 0)"
  by code_simp+

section \<open>The spilling sorter\<close>

definition recordOverheadBytes :: int where "recordOverheadBytes = 32"
definition defaultSpillThresholdBytes :: int where "defaultSpillThresholdBytes = 64 * 1024 * 1024"

record sorter =
  thresholdBytes :: int
  buffer :: "kv list"
  bufferBytes :: int
  spillFiles :: "stream list"

definition newSpillingSorter :: "int \<Rightarrow> sorter" where
  "newSpillingSorter t = \<lparr> thresholdBytes = (if t \<le> 0 then defaultSpillThresholdBytes else t),
     buffer = [], bufferBytes = 0, spillFiles = [] \<rparr>"

text \<open>\<^verbatim>\<open>sort.Slice\<close> is a parameter: it sorts by key, in no particular order of equal keys.\<close>

definition spill :: "(kv list \<Rightarrow> kv list) \<Rightarrow> json \<Rightarrow> sorter \<Rightarrow> sorter" where
  "spill sortSlice js s =
    (if buffer s = [] then s
     else s\<lparr> spillFiles := spillFiles s @ [spill_stream (map (encode js) (sortSlice (buffer s)))],
             buffer := [], bufferBytes := 0 \<rparr>)"

definition sorter_Add :: "(kv list \<Rightarrow> kv list) \<Rightarrow> json \<Rightarrow> kv \<Rightarrow> sorter \<Rightarrow> sorter" where
  "sorter_Add sortSlice js r s =
    (let s1 = s\<lparr> buffer := buffer s @ [r],
                 bufferBytes := bufferBytes s + int (length (Key r)) + int (length (Value r)) + recordOverheadBytes \<rparr>
     in if bufferBytes s1 \<ge> thresholdBytes s1 then spill sortSlice js s1 else s1)"

definition AddAll :: "(kv list \<Rightarrow> kv list) \<Rightarrow> json \<Rightarrow> kv list \<Rightarrow> sorter \<Rightarrow> sorter" where
  "AddAll sortSlice js rs s = fold (sorter_Add sortSlice js) rs s"

definition Finalize :: "(kv list \<Rightarrow> kv list) \<Rightarrow> json \<Rightarrow> sorter \<Rightarrow> string list \<times> merge_error option" where
  "Finalize sortSlice js s =
    (if spillFiles s = [] then (map (encode js) (sortSlice (buffer s)), None)
     else let (out, stats, err) = MergeInputs js (spillFiles (spill sortSlice js s)) \<lparr> BatchSize = 0, MaxRecordBytes = 0 \<rparr>
          in (out, err))"

definition sortRecordsSpilling ::
  "(kv list \<Rightarrow> kv list) \<Rightarrow> json \<Rightarrow> kv list \<Rightarrow> int \<Rightarrow> string list \<times> merge_error option" where
  "sortRecordsSpilling sortSlice js records threshold =
    Finalize sortSlice js (AddAll sortSlice js records (newSpillingSorter threshold))"

definition storable :: "json \<Rightarrow> kv list \<Rightarrow> bool" where
  "storable js rs \<longleftrightarrow> rereadable js rs \<and> fits js (clampRecord 0) rs"

definition sorter_inv :: "json \<Rightarrow> kv list \<Rightarrow> sorter \<Rightarrow> bool" where
  "sorter_inv js rs s \<longleftrightarrow> mset rs = mset (buffer s) + mset (concat (map (recs js) (spillFiles s)))
    \<and> inputs_ok js (clampRecord 0) (spillFiles s) \<and> storable js rs
    \<and> 0 < thresholdBytes s \<and> bufferBytes s < thresholdBytes s
    \<and> bufferBytes s = (\<Sum>r\<leftarrow>buffer s. int (length (Key r)) + int (length (Value r)) + recordOverheadBytes)"

lemma storable_mset: "mset rs = mset rs' \<Longrightarrow> storable js rs = storable js rs'"
  unfolding storable_def rereadable_def fits_def by (metis set_mset_mset)

lemma spill_inv:
  assumes "sorting Key sortSlice" "storable js rs" "0 < thresholdBytes s" "inputs_ok js (clampRecord 0) (spillFiles s)"
    "mset rs = mset (buffer s) + mset (concat (map (recs js) (spillFiles s)))"
    "buffer s = [] \<longrightarrow> bufferBytes s = 0"
  shows "sorter_inv js rs (spill sortSlice js s) \<and> buffer (spill sortSlice js s) = []"
proof -
  define b where "b = sortSlice (buffer s)"
  have b: "mset b = mset (buffer s)" "key_sorted b" using sorting.srt_mset [OF assms(1)] sorting.srt_sorted [OF assms(1)] by (simp_all add: key_sorted_def b_def)
  have "set b \<subseteq> set rs" using b(1) assms(5) by (metis set_mset_mset set_mset_union sup.cobounded1)
  then have "rereadable js b" "fits js (clampRecord 0) b"
    using assms(2) by (auto simp: storable_def rereadable_def fits_def)
  then have "recs js (spill_stream (map (encode js) b)) = b"
      "inputs_ok js (clampRecord 0) [spill_stream (map (encode js) b)]"
    using spill_recs spill_sorted b(2) by (simp_all add: inputs_ok_def)
  then show ?thesis
    using assms b unfolding sorter_inv_def spill_def b_def [symmetric] by (auto simp: inputs_ok_def)
qed

lemma sorter_inv_Add:
  assumes "sorting Key sortSlice" "sorter_inv js rs s" "storable js (r # rs)"
  shows "sorter_inv js (rs @ [r]) (sorter_Add sortSlice js r s)"
proof -
  define s1 where "s1 = s\<lparr> buffer := buffer s @ [r],
     bufferBytes := bufferBytes s + int (length (Key r)) + int (length (Value r)) + recordOverheadBytes \<rparr>"
  have st: "storable js (rs @ [r])" using assms(3) storable_mset [of "r # rs" "rs @ [r]"] by simp
  have m: "mset (rs @ [r]) = mset (buffer s1) + mset (concat (map (recs js) (spillFiles s1)))"
    using assms(2) by (simp add: sorter_inv_def s1_def)
  have i: "inputs_ok js (clampRecord 0) (spillFiles s1)" "0 < thresholdBytes s1"
    using assms(2) by (simp_all add: sorter_inv_def s1_def)
  show ?thesis
  proof (cases "bufferBytes s1 \<ge> thresholdBytes s1")
    case True
    then show ?thesis
      using spill_inv [OF assms(1) st i(2,1) m] by (simp add: sorter_Add_def s1_def [symmetric] Let_def) (simp add: s1_def)
  next
    case False
    then have "sorter_inv js (rs @ [r]) s1"
      using assms(2) st m i unfolding sorter_inv_def by (simp add: s1_def)
    then show ?thesis using False by (simp add: sorter_Add_def s1_def [symmetric] Let_def)
  qed
qed

lemma sorter_inv_AddAll:
  assumes "sorting Key sortSlice"
  shows "sorter_inv js rs s \<Longrightarrow> storable js (rs @ rs') \<Longrightarrow> sorter_inv js (rs @ rs') (AddAll sortSlice js rs' s)"
proof (induction rs' arbitrary: rs s)
  case (Cons r rs')
  have "storable js (r # rs)" using Cons.prems(2) by (auto simp: storable_def rereadable_def fits_def)
  from Cons.IH [OF sorter_inv_Add [OF assms Cons.prems(1) this]] show ?case
    using Cons.prems(2) by (simp add: AddAll_def)
qed (simp add: AddAll_def)

lemma sorter_inv_new:
  assumes "sorting Key sortSlice" "storable js rs"
  shows "sorter_inv js rs (AddAll sortSlice js rs (newSpillingSorter threshold))"
proof -
  have "sorter_inv js [] (newSpillingSorter threshold)"
    by (simp add: sorter_inv_def newSpillingSorter_def inputs_ok_def storable_def rereadable_def fits_def
        defaultSpillThresholdBytes_def)
  from sorter_inv_AddAll [OF assms(1) this, of rs] show ?thesis using assms(2) by simp
qed

text \<open>The sorter returns all records in the order of their keys, whether it spilled or not.\<close>

lemma sortRecordsSpilling_sorts:
  assumes "sorting Key sortSlice" "storable js rs"
  shows "\<exists>out. sortRecordsSpilling sortSlice js rs threshold = (map (encode js) out, None)
    \<and> mset out = mset rs \<and> key_sorted out"
proof -
  define s where "s = AddAll sortSlice js rs (newSpillingSorter threshold)"
  have inv: "sorter_inv js rs s" using sorter_inv_new [OF assms] by (simp add: s_def)
  show ?thesis
  proof (cases "spillFiles s = []")
    case True
    then show ?thesis
      using inv sorting.srt_mset [OF assms(1)] sorting.srt_sorted [OF assms(1)]
      by (intro exI [of _ "sortSlice (buffer s)"])
        (simp add: sortRecordsSpilling_def Finalize_def s_def [symmetric] key_sorted_def sorter_inv_def)
  next
    case False
    define s1 where "s1 = spill sortSlice js s"
    have s1: "sorter_inv js rs s1" "buffer s1 = []"
      using spill_inv [OF assms, of s] inv by (auto simp: sorter_inv_def s1_def)
    have ok: "inputs_ok js (clampRecord (MaxRecordBytes \<lparr> BatchSize = 0, MaxRecordBytes = 0 \<rparr>)) (spillFiles s1)"
      using s1 by (simp add: sorter_inv_def)
    show ?thesis
      using MergeInputs_merged [OF ok] False s1 merged_sorted
      by (intro exI [of _ "merged js (spillFiles s1)"])
        (auto simp: sortRecordsSpilling_def Finalize_def s_def [symmetric] s1_def [symmetric] sorter_inv_def merged_def)
  qed
qed

text \<open>Between two calls the records held in memory stay below the threshold.\<close>

lemma sorter_memory_bounded:
  assumes "sorting Key sortSlice" "storable js rs"
  shows "bufferBytes (AddAll sortSlice js rs (newSpillingSorter threshold))
    < thresholdBytes (AddAll sortSlice js rs (newSpillingSorter threshold))"
  using sorter_inv_new [OF assms, of threshold] unfolding sorter_inv_def by simp

end
