(* ===== verification/Wk_Shuffle.thy ===== *)
theory Wk_Shuffle
  imports Wk_Split Wk_Merge Routing
begin

text \<open>
  From the sorted output of a map task to the input of a reduce task: the
  partition loop of \<^verbatim>\<open>runMap\<close> (\<^verbatim>\<open>map.go\<close>), the chunking writer (\<^verbatim>\<open>partition_writer.go\<close>), the
  shuffle server (\<^verbatim>\<open>manager-service/internal/grpc/shuffle.go\<close>) and the download and
  merge of \<^verbatim>\<open>runReduce\<close> (\<^verbatim>\<open>reduce.go\<close>).  The hash of the checksums is a parameter; the
  connections do not fail, and one stream is received at a time.
\<close>

section \<open>The partition writer\<close>

definition shuffleChunkSizeBytes :: nat where "shuffleChunkSizeBytes = 2 ^ 20"

record writer =
  pw_buf :: string
  pw_sent :: "string list"
  pw_hashed :: string
  pw_closed :: bool

definition writer_new :: writer where
  "writer_new = \<lparr> pw_buf = [], pw_sent = [], pw_hashed = [], pw_closed = False \<rparr>"

function send_full :: "string \<Rightarrow> string list \<Rightarrow> string \<times> string list" where
  "send_full buf sent =
    (if length buf \<ge> shuffleChunkSizeBytes
     then send_full (drop shuffleChunkSizeBytes buf) (sent @ [take shuffleChunkSizeBytes buf])
     else (buf, sent))"
  by pat_completeness auto
termination by (relation "measure (\<lambda>(b, s). length b)") (auto simp: shuffleChunkSizeBytes_def)

declare send_full.simps [simp del]

definition writer_Write :: "string \<Rightarrow> writer \<Rightarrow> writer" where
  "writer_Write p w =
    (let (buf, sent) = send_full (pw_buf w @ p) (pw_sent w)
     in w\<lparr> pw_buf := buf, pw_sent := sent, pw_hashed := pw_hashed w @ p \<rparr>)"

fun nat_str :: "nat \<Rightarrow> string" where
  "nat_str n = (if n < 10 then [char_of (48 + n)] else nat_str (n div 10) @ [char_of (48 + n mod 10)])"

declare nat_str.simps [simp del]

definition shuffle_uri :: "string \<Rightarrow> int \<Rightarrow> string" where
  "shuffle_uri job p = ''shuffle://'' @ job @ ''/'' @ (if p < 0 then ''-'' else []) @ nat_str (nat \<bar>p\<bar>)"

datatype map_error = WriterClosed | DecodeSorted | ReadSorted | PartitionPanic

definition writer_Close ::
  "(string \<Rightarrow> string) \<Rightarrow> string \<Rightarrow> int \<Rightarrow> writer \<Rightarrow> map_error + (string \<times> string \<times> writer)" where
  "writer_Close sha256 job p w =
    (if pw_closed w then Inl WriterClosed
     else Inr (shuffle_uri job p, sha256 (pw_hashed w),
       w\<lparr> pw_closed := True, pw_sent := pw_sent w @ (if pw_buf w = [] then [] else [pw_buf w]), pw_buf := [] \<rparr>))"

text \<open>Aborting closes the stream too: what was sent before is received by the server.\<close>

definition writer_Abort :: "writer \<Rightarrow> writer" where
  "writer_Abort w = w\<lparr> pw_closed := True \<rparr>"

section \<open>The partition loop of a map task\<close>

text \<open>The writers in the order in which they were opened.\<close>

fun partition_loop :: "json \<Rightarrow> int \<Rightarrow> string list \<Rightarrow> (int \<times> writer) list \<Rightarrow> map_error + (int \<times> writer) list" where
  "partition_loop js R [] ws = Inr ws"
| "partition_loop js R (l # ls) ws =
    (if int (length l) \<ge> DefaultMaxRecordBytes then Inl ReadSorted
     else let line = drop_cr l
     in if TrimSpace line = [] then partition_loop js R ls ws
        else case unmarshal js line of
          None \<Rightarrow> Inl DecodeSorted
        | Some r \<Rightarrow> (case hashPartition (Key r) R of
            Inl _ \<Rightarrow> Inl PartitionPanic
          | Inr p \<Rightarrow>
              let w = (case map_of ws p of None \<Rightarrow> writer_new | Some w \<Rightarrow> w)
              in partition_loop js R ls (AList.update p (writer_Write [NL] (writer_Write line w)) ws)))"

text \<open>One round of the insertion sort \<^verbatim>\<open>sortInts\<close> moves the greater elements of the sorted prefix up.\<close>

definition insert_int :: "int \<Rightarrow> int list \<Rightarrow> int list" where
  "insert_int v prefix =
    rev (dropWhile (\<lambda>x. x > v) (rev prefix)) @ v # rev (takeWhile (\<lambda>x. x > v) (rev prefix))"

definition sortInts :: "int list \<Rightarrow> int list" where
  "sortInts xs = fold insert_int xs []"

record map_output =
  mo_partition :: int
  mo_uri :: string
  mo_checksum :: string
  mo_chunks :: "string list"

fun close_all :: "(string \<Rightarrow> string) \<Rightarrow> string \<Rightarrow> (int \<times> writer) list \<Rightarrow> int list \<Rightarrow> map_error + map_output list" where
  "close_all sha256 job ws [] = Inr []"
| "close_all sha256 job ws (p # ps) =
    (case map_of ws p of None \<Rightarrow> Inl WriterClosed
     | Some w \<Rightarrow> (case writer_Close sha256 job p w of Inl e \<Rightarrow> Inl e
       | Inr (uri, chk, w') \<Rightarrow> (case close_all sha256 job ws ps of Inl e \<Rightarrow> Inl e
         | Inr os \<Rightarrow> Inr (\<lparr> mo_partition = p, mo_uri = uri, mo_checksum = chk, mo_chunks = pw_sent w' \<rparr> # os))))"

definition map_partitions ::
  "(string \<Rightarrow> string) \<Rightarrow> json \<Rightarrow> string \<Rightarrow> int \<Rightarrow> string list \<Rightarrow> map_error + map_output list" where
  "map_partitions sha256 js job totalReducers ls =
    (let R = (if totalReducers \<le> 0 then 1 else totalReducers)
     in case partition_loop js R ls [] of Inl e \<Rightarrow> Inl e
        | Inr ws \<Rightarrow> close_all sha256 job ws (sortInts (map fst ws)))"

section \<open>The shuffle server\<close>

definition maxShufflePartitionBytes :: int where "maxShufflePartitionBytes = 256 * 2 ^ 20"
definition maxShuffleJobBytes :: int where "maxShuffleJobBytes = 2 * 2 ^ 30"
definition shuffleChunkSize :: nat where "shuffleChunkSize = 2 ^ 20"

record chunk =
  c_job :: string
  c_partition :: int
  c_data :: string
  c_checksum :: string

record shuffle_server =
  sh_data :: "string \<rightharpoonup> (int \<rightharpoonup> string list)"
  sh_jobSizes :: "string \<Rightarrow> int"
  sh_partSizes :: "string \<Rightarrow> int \<Rightarrow> int"

definition NewShuffleServer :: shuffle_server where
  "NewShuffleServer = \<lparr> sh_data = Map.empty, sh_jobSizes = (\<lambda>_. 0), sh_partSizes = (\<lambda>_ _. 0) \<rparr>"

datatype shuffle_error = JobIdRequired | MixedTarget | StreamExceeds | PartitionExceeded | JobExceeded | NoShuffleData

definition job_data :: "shuffle_server \<Rightarrow> string \<Rightarrow> int \<rightharpoonup> string list" where
  "job_data s j = (case sh_data s j of None \<Rightarrow> Map.empty | Some m \<Rightarrow> m)"

definition push_commit :: "string \<Rightarrow> int \<Rightarrow> string \<Rightarrow> shuffle_server \<Rightarrow> shuffle_error option \<times> shuffle_server" where
  "push_commit j p payload s =
    (let m = job_data s j; s1 = s\<lparr> sh_data := (sh_data s)(j \<mapsto> m) \<rparr>;
         newPart = sh_partSizes s j p + int (length payload); newJob = sh_jobSizes s j + int (length payload)
     in if newPart > maxShufflePartitionBytes then (Some PartitionExceeded, s1)
        else if newJob > maxShuffleJobBytes then (Some JobExceeded, s1)
        else (None, s1\<lparr>
          sh_data := (sh_data s1)(j \<mapsto> m(p \<mapsto> (case m p of None \<Rightarrow> [] | Some bs \<Rightarrow> bs) @ [payload])),
          sh_partSizes := (sh_partSizes s1)(j := (sh_partSizes s1 j)(p := newPart)),
          sh_jobSizes := (sh_jobSizes s1)(j := newJob) \<rparr>))"

fun push_loop ::
  "(string \<times> int) option \<Rightarrow> string \<Rightarrow> chunk list \<Rightarrow> shuffle_server \<Rightarrow> shuffle_error option \<times> shuffle_server" where
  "push_loop tgt buf [] s = (case tgt of None \<Rightarrow> (None, s) | Some (j, p) \<Rightarrow> push_commit j p buf s)"
| "push_loop tgt buf (c # cs) s =
    (if c_job c = [] then (Some JobIdRequired, s)
     else let (j, p) = (case tgt of None \<Rightarrow> (c_job c, c_partition c) | Some t \<Rightarrow> t);
              incoming = int (length buf) + int (length (c_data c))
     in if c_job c \<noteq> j \<or> c_partition c \<noteq> p then (Some MixedTarget, s)
        else if incoming > maxShufflePartitionBytes then (Some StreamExceeds, s)
        else if sh_partSizes s j p + incoming > maxShufflePartitionBytes then (Some PartitionExceeded, s)
        else if sh_jobSizes s j + incoming > maxShuffleJobBytes then (Some JobExceeded, s)
        else push_loop (Some (j, p)) (buf @ c_data c) cs s)"

definition PushShuffleData :: "chunk list \<Rightarrow> shuffle_server \<Rightarrow> shuffle_error option \<times> shuffle_server" where
  "PushShuffleData cs s = push_loop None [] cs s"

function blob_chunks :: "string \<Rightarrow> string list" where
  "blob_chunks blob = (if blob = [] then [] else take shuffleChunkSize blob # blob_chunks (drop shuffleChunkSize blob))"
  by pat_completeness auto
termination by (relation "measure length") (auto simp: shuffleChunkSize_def)

declare blob_chunks.simps [simp del]

definition segment_chunks :: "(string \<Rightarrow> string) \<Rightarrow> string \<Rightarrow> int \<Rightarrow> string \<Rightarrow> chunk list" where
  "segment_chunks sha256 j p blob =
    map (\<lambda>d. \<lparr> c_job = j, c_partition = p, c_data = d, c_checksum = [] \<rparr>) (blob_chunks blob)
    @ [\<lparr> c_job = j, c_partition = p, c_data = [], c_checksum = sha256 blob \<rparr>]"

definition GetShuffleData :: "(string \<Rightarrow> string) \<Rightarrow> string \<Rightarrow> int \<Rightarrow> shuffle_server \<Rightarrow> shuffle_error + chunk list" where
  "GetShuffleData sha256 j p s =
    (case sh_data s j of None \<Rightarrow> Inl NoShuffleData
     | Some m \<Rightarrow> (case m p of None \<Rightarrow> Inr []
       | Some blobs \<Rightarrow> Inr (concat (map (segment_chunks sha256 j p) blobs))))"

section \<open>The inputs of a reduce task\<close>

text \<open>\<^verbatim>\<open>splitChecksumURI\<close> cuts at the last hash sign.\<close>

definition splitChecksumURI :: "string \<Rightarrow> string \<times> string" where
  "splitChecksumURI raw =
    (if CHR ''#'' \<notin> set raw then (raw, [])
     else let fragment = rev (takeWhile (\<lambda>c. c \<noteq> CHR ''#'') (rev raw));
              base = rev (tl (dropWhile (\<lambda>c. c \<noteq> CHR ''#'') (rev raw)))
     in if take 7 fragment = ''sha256='' then (base, drop 7 fragment) else (raw, []))"

datatype reduce_error = MetadataMismatch nat | SegmentMismatch nat

definition resolveExpectedChecksum :: "string list \<Rightarrow> nat \<Rightarrow> string \<Rightarrow> reduce_error + string" where
  "resolveExpectedChecksum expected idx chunkChecksum =
    (let fromAssignment = (if idx < length expected then expected ! idx else []); c = TrimSpace chunkChecksum
     in if fromAssignment \<noteq> [] \<and> c \<noteq> [] \<and> fromAssignment \<noteq> c then Inl (MetadataMismatch idx)
        else if fromAssignment \<noteq> [] then Inr fromAssignment else Inr c)"

definition validateChecksumHex :: "(string \<Rightarrow> string) \<Rightarrow> string \<Rightarrow> string \<Rightarrow> bool" where
  "validateChecksumHex sha256 data expected \<longleftrightarrow> expected = [] \<or> sha256 data = expected"

definition finalizeSegment ::
  "(string \<Rightarrow> string) \<Rightarrow> string list \<Rightarrow> nat \<Rightarrow> string \<Rightarrow> string \<Rightarrow> reduce_error + unit" where
  "finalizeSegment sha256 expected idx segment chunkChecksum =
    (case resolveExpectedChecksum expected idx chunkChecksum of Inl e \<Rightarrow> Inl e
     | Inr e \<Rightarrow> if validateChecksumHex sha256 segment e then Inr () else Inl (SegmentMismatch idx))"

fun recv_loop :: "(string \<Rightarrow> string) \<Rightarrow> string list \<Rightarrow> chunk list \<Rightarrow> string \<Rightarrow> string list \<Rightarrow> reduce_error + string list" where
  "recv_loop sha256 expected [] segment done =
    (if segment = [] then Inr done
     else case finalizeSegment sha256 expected (length done) segment [] of Inl e \<Rightarrow> Inl e
       | Inr _ \<Rightarrow> Inr (done @ [segment]))"
| "recv_loop sha256 expected (c # cs) segment done =
    (if c_data c = [] then
       if segment \<noteq> [] then
         (case finalizeSegment sha256 expected (length done) segment (c_checksum c) of Inl e \<Rightarrow> Inl e
          | Inr _ \<Rightarrow> recv_loop sha256 expected cs [] (done @ [segment]))
       else recv_loop sha256 expected cs [] done
     else recv_loop sha256 expected cs (segment @ c_data c) done)"

definition downloadShuffleInputsFromService ::
  "(string \<Rightarrow> string) \<Rightarrow> string list \<Rightarrow> chunk list \<Rightarrow> reduce_error + string list" where
  "downloadShuffleInputsFromService sha256 locations cs =
    recv_loop sha256 (map (\<lambda>l. snd (splitChecksumURI l)) locations) cs [] []"

text \<open>The lines a scanner finds in the bytes of a segment.\<close>

function scan_lines :: "string \<Rightarrow> string list" where
  "scan_lines xs = (let (line, rest, eof) = ReadBytes xs
     in if eof then (if line = [] then [] else [line]) else butlast line # scan_lines rest)"
  by pat_completeness auto
termination by (relation "measure length") (auto dest: ReadBytes_length [OF sym])

declare scan_lines.simps [simp del]

definition mergeShuffleInputs ::
  "json \<Rightarrow> int \<Rightarrow> int \<Rightarrow> string list \<Rightarrow> string list \<times> merge_stats \<times> merge_error option" where
  "mergeShuffleInputs js batchSize maxRecordBytes segments =
    (let cfg = DefaultMergeConfig;
         cfg1 = (if batchSize > 0 then cfg\<lparr> BatchSize := batchSize \<rparr> else cfg);
         cfg2 = (if maxRecordBytes > 0 then cfg1\<lparr> MaxRecordBytes := maxRecordBytes \<rparr> else cfg1)
     in MergeInputs js (map (\<lambda>seg. spill_stream (scan_lines seg)) segments) cfg2)"

section \<open>What the writers send\<close>

definition writer_data :: "writer \<Rightarrow> string" where
  "writer_data w = concat (pw_sent w) @ pw_buf w"

definition writer_ok :: "writer \<Rightarrow> bool" where
  "writer_ok w \<longleftrightarrow> \<not> pw_closed w \<and> pw_hashed w = writer_data w"

lemma send_full_data: "send_full buf sent = (b, s) \<Longrightarrow> concat s @ b = concat sent @ buf"
proof (induction buf sent rule: send_full.induct)
  case (1 buf sent)
  then show ?case
    by (cases "length buf \<ge> shuffleChunkSizeBytes") (auto simp: send_full.simps [of buf sent])
qed

lemma send_full_chunks:
  "send_full buf sent = (b, s) \<Longrightarrow> length b < shuffleChunkSizeBytes
    \<and> (\<forall>c\<in>set s. c \<in> set sent \<or> length c = shuffleChunkSizeBytes)"
proof (induction buf sent rule: send_full.induct)
  case (1 buf sent)
  then show ?case
    by (cases "length buf \<ge> shuffleChunkSizeBytes") (force simp: send_full.simps [of buf sent])+
qed

lemma writer_Write_data: "writer_data (writer_Write p w) = writer_data w @ p"
  using send_full_data [of "pw_buf w @ p" "pw_sent w"]
  by (auto simp: writer_Write_def writer_data_def split: prod.splits)

lemma writer_Write_ok: "writer_ok w \<Longrightarrow> writer_ok (writer_Write p w)"
  using writer_Write_data [of p w] by (auto simp: writer_ok_def) (auto simp: writer_Write_def split: prod.splits)

lemma writer_new_ok: "writer_ok writer_new" "writer_data writer_new = []"
  by (simp_all add: writer_ok_def writer_new_def writer_data_def)

lemma insert_int_snoc: "insert_int v (xs @ [x]) = (if x > v then insert_int v xs @ [x] else xs @ [x, v])"
  by (simp add: insert_int_def)

lemma insert_int_sorted: "sorted xs \<Longrightarrow> sorted (insert_int v xs) \<and> mset (insert_int v xs) = add_mset v (mset xs)"
proof (induction xs rule: rev_induct)
  case (snoc x xs)
  from snoc have s: "sorted (insert_int v xs)" "mset (insert_int v xs) = add_mset v (mset xs)"
    by (auto simp: sorted_append)
  from s(2) have "set (insert_int v xs) = insert v (set xs)" by (metis set_mset_add_mset_insert set_mset_mset)
  with s snoc.prems show ?case by (auto simp: insert_int_snoc sorted_append)
qed (simp add: insert_int_def)

interpretation int_sort: sorting "\<lambda>x. x" sortInts
proof -
  have f: "sorted acc \<Longrightarrow> sorted (fold insert_int xs acc) \<and> mset (fold insert_int xs acc) = mset xs + mset acc" for xs acc
    by (induction xs arbitrary: acc) (auto simp: insert_int_sorted)
  show "sorting (\<lambda>x. x) sortInts"
    by unfold_locales (use f [of "[]"] in \<open>simp_all add: sortInts_def\<close>)
qed

lemma sortInts_sort: "sortInts xs = sort xs"
  using int_sort.srt_unique by simp

text \<open>The partition of a record, and the lines of records as bytes.\<close>

definition key_part :: "int \<Rightarrow> kv \<Rightarrow> int" where
  "key_part R r = (case hashPartition (Key r) R of Inl _ \<Rightarrow> 0 | Inr p \<Rightarrow> p)"

definition unlines :: "json \<Rightarrow> kv list \<Rightarrow> string" where
  "unlines js rs = concat (map (\<lambda>r. encode js r @ [NL]) rs)"

definition line_ok :: "json \<Rightarrow> kv \<Rightarrow> bool" where
  "line_ok js r \<longleftrightarrow> unmarshal js (encode js r) = Some r \<and> drop_cr (encode js r) = encode js r
    \<and> NL \<notin> set (encode js r) \<and> TrimSpace (encode js r) \<noteq> [] \<and> int (length (encode js r)) < DefaultMaxRecordBytes"

lemma hashPartition_part: "R \<noteq> 0 \<Longrightarrow> hashPartition (Key r) R = Inr (key_part R r)"
  by (simp add: key_part_def hashPartition_def)

definition ws_ok :: "(int \<times> writer) list \<Rightarrow> bool" where
  "ws_ok ws \<longleftrightarrow> distinct (map fst ws) \<and> (\<forall>x\<in>set ws. writer_ok (snd x))"

definition ws_data :: "(int \<times> writer) list \<Rightarrow> int \<Rightarrow> string" where
  "ws_data ws p = (case map_of ws p of None \<Rightarrow> [] | Some w \<Rightarrow> writer_data w)"

lemma alist_update_mem: "x \<in> set (AList.update p w ws) \<Longrightarrow> x = (p, w) \<or> x \<in> set ws"
  by (induction ws) (auto split: if_splits)

lemma ws_ok_update: "ws_ok ws \<Longrightarrow> writer_ok w \<Longrightarrow> ws_ok (AList.update p w ws)"
  unfolding ws_ok_def by (auto simp: distinct_update dest!: alist_update_mem)

lemma ws_writer_ok: "ws_ok ws \<Longrightarrow> writer_ok (case map_of ws p of None \<Rightarrow> writer_new | Some w \<Rightarrow> w)"
  by (auto simp: ws_ok_def writer_new_ok split: option.splits dest!: map_of_SomeD)

lemma partition_loop_data:
  assumes "R \<noteq> 0"
  shows "ws_ok ws \<Longrightarrow> \<forall>r\<in>set rs. line_ok js r \<Longrightarrow>
    \<exists>ws'. partition_loop js R (map (encode js) rs) ws = Inr ws' \<and> ws_ok ws'
      \<and> fst ` set ws' = fst ` set ws \<union> key_part R ` set rs
      \<and> (\<forall>p. ws_data ws' p = ws_data ws p @ unlines js (filter (\<lambda>r. key_part R r = p) rs))"
proof (induction rs arbitrary: ws)
  case (Cons r rs)
  define w where "w = (case map_of ws (key_part R r) of None \<Rightarrow> writer_new | Some w \<Rightarrow> w)"
  define w' where "w' = writer_Write [NL] (writer_Write (encode js r) w)"
  define ws1 where "ws1 = AList.update (key_part R r) w' ws"
  have r: "line_ok js r" using Cons.prems(2) by simp
  have step: "partition_loop js R (map (encode js) (r # rs)) ws = partition_loop js R (map (encode js) rs) ws1"
    using r hashPartition_part [OF assms, of r] by (simp add: line_ok_def ws1_def w'_def w_def Let_def)
  have ok: "ws_ok ws1"
    using ws_writer_ok [OF Cons.prems(1)] by (simp add: ws1_def w'_def w_def ws_ok_update Cons.prems(1) writer_Write_ok)
  have data: "ws_data ws1 p = ws_data ws p @ (if p = key_part R r then encode js r @ [NL] else [])" for p
    by (auto simp: ws_data_def ws1_def w'_def w_def update_conv' writer_Write_data writer_new_ok split: option.splits)
  have keys: "fst ` set ws1 = insert (key_part R r) (fst ` set ws)"
    by (simp add: ws1_def dom_map_of_conv_image_fst [symmetric] update_conv')
  obtain ws' where ws': "partition_loop js R (map (encode js) rs) ws1 = Inr ws'" "ws_ok ws'"
      "fst ` set ws' = fst ` set ws1 \<union> key_part R ` set rs"
      "\<forall>p. ws_data ws' p = ws_data ws1 p @ unlines js (filter (\<lambda>r. key_part R r = p) rs)"
    using Cons.IH [OF ok] Cons.prems(2) by auto
  have "\<forall>p. ws_data ws' p = ws_data ws p @ unlines js (filter (\<lambda>x. key_part R x = p) (r # rs))"
    using ws'(4) data by (auto simp: unlines_def)
  then show ?case using step ws'(1-3) keys by auto
qed (simp add: unlines_def)

definition output_of :: "(string \<Rightarrow> string) \<Rightarrow> json \<Rightarrow> string \<Rightarrow> int \<Rightarrow> kv list \<Rightarrow> map_output \<Rightarrow> bool" where
  "output_of sha256 js job R rs o1 \<longleftrightarrow>
    (let d = unlines js (filter (\<lambda>r. key_part R r = mo_partition o1) rs)
     in d \<noteq> [] \<and> concat (mo_chunks o1) = d \<and> mo_checksum o1 = sha256 d
        \<and> mo_uri o1 = shuffle_uri job (mo_partition o1))"

lemma close_all_outputs:
  assumes "ws_ok ws" "set ps \<subseteq> fst ` set ws"
  shows "\<exists>os. close_all sha256 job ws ps = Inr os \<and> map mo_partition os = ps
    \<and> (\<forall>o1\<in>set os. concat (mo_chunks o1) = ws_data ws (mo_partition o1)
        \<and> mo_checksum o1 = sha256 (ws_data ws (mo_partition o1)) \<and> mo_uri o1 = shuffle_uri job (mo_partition o1))"
  using assms(2)
proof (induction ps)
  case (Cons p ps)
  then obtain os where os: "close_all sha256 job ws ps = Inr os" "map mo_partition os = ps"
      "\<forall>o1\<in>set os. concat (mo_chunks o1) = ws_data ws (mo_partition o1)
        \<and> mo_checksum o1 = sha256 (ws_data ws (mo_partition o1)) \<and> mo_uri o1 = shuffle_uri job (mo_partition o1)"
    by auto
  from Cons.prems obtain w where w: "map_of ws p = Some w"
    by (metis in_mono list.set_intros(1) map_of_eq_None_iff not_None_eq)
  then have "writer_ok w" using assms(1) by (auto simp: ws_ok_def dest!: map_of_SomeD)
  then show ?case
    using os w by (auto simp: writer_Close_def writer_ok_def ws_data_def writer_data_def)
qed simp

lemma map_partitions_outputs:
  assumes "0 < R" "\<forall>r\<in>set rs. line_ok js r"
  shows "\<exists>os. map_partitions sha256 js job R (map (encode js) rs) = Inr os
    \<and> map mo_partition os = sorted_list_of_set (key_part R ` set rs) \<and> (\<forall>o1\<in>set os. output_of sha256 js job R rs o1)"
proof -
  have "ws_ok []" by (simp add: ws_ok_def)
  with partition_loop_data [of R "[]" rs js] assms obtain ws where
    ws: "partition_loop js R (map (encode js) rs) [] = Inr ws" "ws_ok ws" "fst ` set ws = key_part R ` set rs"
      "\<forall>p. ws_data ws p = unlines js (filter (\<lambda>r. key_part R r = p) rs)"
    by (auto simp: ws_data_def)
  have "sort (map fst ws) = sorted_list_of_set (set (map fst ws))"
    unfolding sorted_list_of_set_sort_remdups using ws(2) by (simp add: ws_ok_def distinct_remdups_id)
  then have ps: "sortInts (map fst ws) = sorted_list_of_set (key_part R ` set rs)"
    using ws(3) by (simp add: sortInts_sort)
  from close_all_outputs [OF ws(2), of "sortInts (map fst ws)" sha256 job] ws(3) obtain os where
    os: "close_all sha256 job ws (sortInts (map fst ws)) = Inr os" "map mo_partition os = sortInts (map fst ws)"
      "\<forall>o1\<in>set os. concat (mo_chunks o1) = ws_data ws (mo_partition o1)
        \<and> mo_checksum o1 = sha256 (ws_data ws (mo_partition o1)) \<and> mo_uri o1 = shuffle_uri job (mo_partition o1)"
    using ps by auto
  have "\<forall>o1\<in>set os. output_of sha256 js job R rs o1"
  proof
    fix o1 assume o1: "o1 \<in> set os"
    then have "mo_partition o1 \<in> set (map mo_partition os)" by simp
    then have "mo_partition o1 \<in> key_part R ` set rs" unfolding os(2) ps by simp
    then have "unlines js (filter (\<lambda>r. key_part R r = mo_partition o1) rs) \<noteq> []"
      by (auto simp: unlines_def filter_empty_conv)
    then show "output_of sha256 js job R rs o1" using os(3) ws(4) o1 by (simp add: output_of_def Let_def)
  qed
  then show ?thesis using ws(1) os(1,2) ps assms(1) by (auto simp: map_partitions_def)
qed

section \<open>What the server stores\<close>

definition server_blobs :: "string \<Rightarrow> int \<Rightarrow> shuffle_server \<Rightarrow> string list" where
  "server_blobs j p s = (case job_data s j p of None \<Rightarrow> [] | Some bs \<Rightarrow> bs)"

definition chunks_for :: "string \<Rightarrow> int \<Rightarrow> string list \<Rightarrow> chunk list" where
  "chunks_for j p ds = map (\<lambda>d. \<lparr> c_job = j, c_partition = p, c_data = d, c_checksum = [] \<rparr>) ds"

definition stored :: "string \<Rightarrow> int \<Rightarrow> string \<Rightarrow> shuffle_server \<Rightarrow> shuffle_server \<Rightarrow> bool" where
  "stored j p payload s s' \<longleftrightarrow> sh_data s' j \<noteq> None
    \<and> (\<forall>q. server_blobs j q s' = server_blobs j q s @ (if q = p then [payload] else []))
    \<and> (\<forall>q. sh_partSizes s' j q = sh_partSizes s j q + (if q = p then int (length payload) else 0))
    \<and> sh_jobSizes s' j = sh_jobSizes s j + int (length payload)"

lemma push_commit_stored:
  assumes "sh_partSizes s j p + int (length payload) \<le> maxShufflePartitionBytes"
    "sh_jobSizes s j + int (length payload) \<le> maxShuffleJobBytes"
  shows "\<exists>s'. push_commit j p payload s = (None, s') \<and> stored j p payload s s'"
  using assms by (auto simp: push_commit_def Let_def stored_def server_blobs_def job_data_def split: option.splits)

lemma push_loop_stored:
  "j \<noteq> [] \<Longrightarrow> 0 \<le> sh_partSizes s j p \<Longrightarrow>
    sh_partSizes s j p + int (length (buf @ concat ds)) \<le> maxShufflePartitionBytes \<Longrightarrow>
    sh_jobSizes s j + int (length (buf @ concat ds)) \<le> maxShuffleJobBytes \<Longrightarrow>
    \<exists>s'. push_loop (Some (j, p)) buf (chunks_for j p ds) s = (None, s') \<and> stored j p (buf @ concat ds) s s'"
proof (induction ds arbitrary: buf)
  case Nil
  then show ?case using push_commit_stored [of s j p buf] by (simp add: chunks_for_def)
next
  case (Cons d ds)
  have "push_loop (Some (j, p)) buf (chunks_for j p (d # ds)) s = push_loop (Some (j, p)) (buf @ d) (chunks_for j p ds) s"
    using Cons.prems by (simp add: chunks_for_def Let_def)
  then show ?case using Cons.IH [of "buf @ d"] Cons.prems by simp
qed

lemma PushShuffleData_stored:
  assumes "j \<noteq> []" "concat ds \<noteq> []" "0 \<le> sh_partSizes s j p"
    "sh_partSizes s j p + int (length (concat ds)) \<le> maxShufflePartitionBytes"
    "sh_jobSizes s j + int (length (concat ds)) \<le> maxShuffleJobBytes"
  shows "\<exists>s'. PushShuffleData (chunks_for j p ds) s = (None, s') \<and> stored j p (concat ds) s s'"
proof (cases ds)
  case (Cons d ds')
  have "PushShuffleData (chunks_for j p ds) s = push_loop (Some (j, p)) [] (chunks_for j p ds) s"
    using assms(1) by (simp add: PushShuffleData_def Cons chunks_for_def Let_def)
  then show ?thesis using push_loop_stored [OF assms(1,3), of "[]" ds] assms(4,5) by simp
qed (use assms in simp)

text \<open>
  The state of the server changes only when a stream has ended, under the
  lock: a run is a sequence of such commits, however the streams interleave.
\<close>

inductive server_step :: "shuffle_server \<Rightarrow> shuffle_server \<Rightarrow> bool" where
  server_commit: "push_commit j p payload s = (err, s') \<Longrightarrow> server_step s s'"

inductive_cases server_stepE: "server_step s s'"

abbreviation server_reach :: "shuffle_server \<Rightarrow> bool" where
  "server_reach \<equiv> reach (\<lambda>s. s = NewShuffleServer) server_step"

definition blob_bytes :: "string \<Rightarrow> int \<Rightarrow> shuffle_server \<Rightarrow> int" where
  "blob_bytes j p s = int (length (concat (server_blobs j p s)))"

definition job_inv :: "shuffle_server \<Rightarrow> string \<Rightarrow> bool" where
  "job_inv s j \<longleftrightarrow> finite (dom (job_data s j)) \<and> sh_jobSizes s j = (\<Sum>p\<in>dom (job_data s j). blob_bytes j p s)
    \<and> (\<Sum>p\<in>dom (job_data s j). blob_bytes j p s) \<le> maxShuffleJobBytes
    \<and> (\<forall>p. sh_partSizes s j p = blob_bytes j p s \<and> blob_bytes j p s \<le> maxShufflePartitionBytes)"

definition server_inv :: "shuffle_server \<Rightarrow> bool" where
  "server_inv s \<longleftrightarrow> (\<forall>j. job_inv s j)"

lemma push_commit_cases:
  assumes "push_commit j p payload s = (err, s')"
  obtains "err \<noteq> None" "job_data s' = job_data s" "sh_partSizes s' = sh_partSizes s" "sh_jobSizes s' = sh_jobSizes s"
  | "err = None" "sh_partSizes s j p + int (length payload) \<le> maxShufflePartitionBytes"
    "sh_jobSizes s j + int (length payload) \<le> maxShuffleJobBytes"
    "job_data s' = (job_data s)(j := (job_data s j)(p \<mapsto> server_blobs j p s @ [payload]))"
    "sh_partSizes s' = (sh_partSizes s)(j := (sh_partSizes s j)(p := sh_partSizes s j p + int (length payload)))"
    "sh_jobSizes s' = (sh_jobSizes s)(j := sh_jobSizes s j + int (length payload))"
  using assms
  by (auto simp: push_commit_def Let_def server_blobs_def job_data_def fun_eq_iff split: if_splits option.splits)

lemma server_inv_commit:
  assumes "server_inv s" "push_commit j p payload s = (err, s')"
  shows "server_inv s'"
  using assms(2)
proof (cases rule: push_commit_cases)
  case 1
  then have b: "blob_bytes k q s' = blob_bytes k q s" for k q by (simp add: blob_bytes_def server_blobs_def)
  show ?thesis using assms(1) unfolding server_inv_def job_inv_def 1(2-4) b .
next
  case 2
  have b: "blob_bytes k q s' = blob_bytes k q s + (if k = j \<and> q = p then int (length payload) else 0)" for k q
    using 2(4) by (simp add: blob_bytes_def server_blobs_def)
  have inv: "job_inv s k" for k using assms(1) by (simp add: server_inv_def)
  have "p \<notin> dom (job_data s j) \<Longrightarrow> blob_bytes j p s = 0"
    by (auto simp: blob_bytes_def server_blobs_def split: option.splits)
  then have "(\<Sum>q\<in>insert p (dom (job_data s j)). blob_bytes j q s) = (\<Sum>q\<in>dom (job_data s j). blob_bytes j q s)"
    using inv [of j] by (cases "p \<in> dom (job_data s j)") (simp_all add: insert_absorb job_inv_def)
  then have sum: "(\<Sum>q\<in>insert p (dom (job_data s j)). blob_bytes j q s')
      = (\<Sum>q\<in>dom (job_data s j). blob_bytes j q s) + int (length payload)"
    using inv [of j] by (simp add: b sum.distrib job_inv_def)
  have "job_inv s' k" for k
  proof (cases "k = j")
    case True
    then show ?thesis using inv [of j] 2(2-6) sum unfolding job_inv_def by (simp add: b)
  next
    case False
    then show ?thesis using inv [of k] 2(4-6) unfolding job_inv_def by (simp add: b)
  qed
  then show ?thesis by (simp add: server_inv_def)
qed

interpretation shuffling: invariant_system "\<lambda>s. s = NewShuffleServer" server_step server_inv
proof
  show "server_inv s" if "s = NewShuffleServer" for s
    using that by (simp add: server_inv_def job_inv_def NewShuffleServer_def job_data_def blob_bytes_def server_blobs_def
        maxShuffleJobBytes_def maxShufflePartitionBytes_def)
  show "server_inv s'" if "server_inv s" "server_step s s'" for s s'
    using that by (auto elim: server_stepE intro: server_inv_commit)
qed

lemma push_loop_reach: "server_reach s \<Longrightarrow> server_reach (snd (push_loop tgt buf cs s))"
proof (induction cs arbitrary: tgt buf)
  case Nil
  show ?case
  proof (cases tgt)
    case (Some t)
    obtain err s' where e: "push_commit (fst t) (snd t) buf s = (err, s')" by (cases "push_commit (fst t) (snd t) buf s")
    show ?thesis using reach_step [OF Nil server_commit [OF e]] e Some by (simp add: case_prod_unfold)
  qed (use Nil in simp)
next
  case (Cons c cs)
  obtain j p where "(case tgt of None \<Rightarrow> (c_job c, c_partition c) | Some t \<Rightarrow> t) = (j, p)" by (metis surj_pair)
  then show ?case using Cons by (simp add: Let_def)
qed

text \<open>
  C15: However streams interleave, the shuffle server never holds more than 256
  MiB for a partition and 2 GiB for a job, and its counters are the sizes of what
  it holds; every call of \<^verbatim>\<open>PushShuffleData\<close> leads from such a state to such a state.
\<close>

theorem shuffle_server_bounded:
  assumes "server_reach s"
  shows "sh_partSizes s j p = blob_bytes j p s \<and> blob_bytes j p s \<le> 256 * 2 ^ 20
    \<and> sh_jobSizes s j = (\<Sum>q\<in>dom (job_data s j). blob_bytes j q s)
    \<and> (\<Sum>q\<in>dom (job_data s j). blob_bytes j q s) \<le> 2 * 2 ^ 30
    \<and> server_reach (snd (PushShuffleData cs s))"
  using shuffling.reach_inv [OF assms] push_loop_reach [OF assms]
  unfolding server_inv_def job_inv_def maxShufflePartitionBytes_def maxShuffleJobBytes_def PushShuffleData_def by metis

definition ex_server :: shuffle_server where
  "ex_server = snd (PushShuffleData [\<lparr> c_job = ''j'', c_partition = 1, c_data = ''ab'', c_checksum = [] \<rparr>] NewShuffleServer)"

theorem shuffle_server_bounded_witness:
  "blob_bytes ''j'' 1 ex_server = 2 \<and> sh_partSizes ex_server ''j'' 1 = 2 \<and> sh_jobSizes ex_server ''j'' \<le> 2 * 2 ^ 30"
proof -
  have "server_reach ex_server"
    unfolding ex_server_def using shuffle_server_bounded [OF reach_init] by blast
  moreover have "blob_bytes ''j'' 1 ex_server = 2"
    by (simp add: ex_server_def PushShuffleData_def push_commit_def NewShuffleServer_def blob_bytes_def server_blobs_def
        job_data_def Let_def maxShufflePartitionBytes_def maxShuffleJobBytes_def)
  ultimately show ?thesis using shuffle_server_bounded [of ex_server "''j''" 1] by simp
qed

text \<open>The outputs of the map tasks of a job, pushed one after the other.\<close>

fun push_all :: "string \<Rightarrow> map_output list \<Rightarrow> shuffle_server \<Rightarrow> shuffle_error option \<times> shuffle_server" where
  "push_all j [] s = (None, s)"
| "push_all j (o1 # os) s =
    (case PushShuffleData (chunks_for j (mo_partition o1) (mo_chunks o1)) s of
       (Some e, s') \<Rightarrow> (Some e, s')
     | (None, s') \<Rightarrow> push_all j os s')"

definition data_of :: "map_output \<Rightarrow> string" where
  "data_of o1 = concat (mo_chunks o1)"

definition bytes_for :: "int \<Rightarrow> map_output list \<Rightarrow> int" where
  "bytes_for p os = (\<Sum>o1\<leftarrow>filter (\<lambda>o1. mo_partition o1 = p) os. int (length (data_of o1)))"

definition bytes_all :: "map_output list \<Rightarrow> int" where
  "bytes_all os = (\<Sum>o1\<leftarrow>os. int (length (data_of o1)))"

lemma bytes_nonneg [simp]: "0 \<le> bytes_for p os" "0 \<le> bytes_all os"
  by (induction os) (simp_all add: bytes_for_def bytes_all_def)

lemma push_all_stored:
  "j \<noteq> [] \<Longrightarrow> \<forall>o1\<in>set os. data_of o1 \<noteq> [] \<Longrightarrow> \<forall>p. 0 \<le> sh_partSizes s j p \<Longrightarrow>
    \<forall>p. sh_partSizes s j p + bytes_for p os \<le> maxShufflePartitionBytes \<Longrightarrow>
    sh_jobSizes s j + bytes_all os \<le> maxShuffleJobBytes \<Longrightarrow>
    \<exists>s'. push_all j os s = (None, s') \<and> (os \<noteq> [] \<longrightarrow> sh_data s' j \<noteq> None)
      \<and> (\<forall>p. server_blobs j p s' = server_blobs j p s @ map data_of (filter (\<lambda>o1. mo_partition o1 = p) os))"
proof (induction os arbitrary: s)
  case (Cons o1 os)
  define p where "p = mo_partition o1"
  have le: "int (length (data_of o1)) \<le> bytes_for p (o1 # os)" "int (length (data_of o1)) \<le> bytes_all (o1 # os)"
    using bytes_nonneg(1) [of p os] bytes_nonneg(2) [of os] by (simp_all add: bytes_for_def bytes_all_def p_def)
  have "sh_partSizes s j p + int (length (data_of o1)) \<le> maxShufflePartitionBytes"
    using le(1) Cons.prems(4) [rule_format, of p] by linarith
  moreover have "sh_jobSizes s j + int (length (data_of o1)) \<le> maxShuffleJobBytes"
    using le(2) Cons.prems(5) by linarith
  ultimately obtain s1 where s1: "PushShuffleData (chunks_for j p (mo_chunks o1)) s = (None, s1)"
      "stored j p (data_of o1) s s1"
    using PushShuffleData_stored [of j "mo_chunks o1" s p] Cons.prems(1-3) by (auto simp: data_of_def)
  have sz: "sh_partSizes s1 j q + bytes_for q os = sh_partSizes s j q + bytes_for q (o1 # os)" for q
    using s1(2) by (auto simp: stored_def bytes_for_def p_def)
  have "\<forall>q. 0 \<le> sh_partSizes s1 j q" using s1(2) Cons.prems(3) by (simp add: stored_def)
  moreover have "\<forall>q. sh_partSizes s1 j q + bytes_for q os \<le> maxShufflePartitionBytes"
    using sz Cons.prems(4) by simp
  moreover have "sh_jobSizes s1 j + bytes_all os \<le> maxShuffleJobBytes"
    using s1(2) Cons.prems(5) by (simp add: stored_def bytes_all_def)
  ultimately obtain s' where s': "push_all j os s1 = (None, s')" "os \<noteq> [] \<longrightarrow> sh_data s' j \<noteq> None"
      "\<forall>q. server_blobs j q s' = server_blobs j q s1 @ map data_of (filter (\<lambda>o1. mo_partition o1 = q) os)"
    using Cons.IH [of s1] Cons.prems(1,2) by auto
  have "sh_data s' j \<noteq> None" using s' s1(2) by (cases "os = []") (auto simp: stored_def)
  then show ?case using s'(1,3) s1 by (auto simp: stored_def p_def)
qed simp

section \<open>What the reducer receives\<close>

lemma blob_chunks_ok: "concat (blob_chunks blob) = blob \<and> (\<forall>c\<in>set (blob_chunks blob). c \<noteq> [])"
proof (induction blob rule: blob_chunks.induct)
  case (1 blob)
  then show ?case
    by (subst (1 2) blob_chunks.simps) (auto simp: shuffleChunkSize_def)
qed

lemma recv_data:
  "\<forall>d\<in>set ds. d \<noteq> [] \<Longrightarrow> recv_loop sha256 expected (chunks_for j p ds @ cs) seg done
    = recv_loop sha256 expected cs (seg @ concat ds) done"
  by (induction ds arbitrary: seg) (simp_all add: chunks_for_def)

definition expects :: "(string \<Rightarrow> string) \<Rightarrow> string list \<Rightarrow> nat \<Rightarrow> string list \<Rightarrow> bool" where
  "expects sha256 expected i blobs \<longleftrightarrow>
    (\<forall>k < length blobs. i + k < length expected \<longrightarrow> expected ! (i + k) \<in> {[], sha256 (blobs ! k)})"

definition hex_digest :: "(string \<Rightarrow> string) \<Rightarrow> bool" where
  "hex_digest sha256 \<longleftrightarrow> (\<forall>x. TrimSpace (sha256 x) = sha256 x)"

lemma recv_segments:
  assumes "hex_digest sha256"
  shows "\<forall>b\<in>set blobs. b \<noteq> [] \<Longrightarrow> expects sha256 expected (length done) blobs \<Longrightarrow>
    recv_loop sha256 expected (concat (map (segment_chunks sha256 j p) blobs)) [] done = Inr (done @ blobs)"
proof (induction blobs arbitrary: "done")
  case (Cons b bs)
  have c: "concat (blob_chunks b) = b" "\<forall>d\<in>set (blob_chunks b). d \<noteq> []" using blob_chunks_ok by auto
  have e: "length done < length expected \<Longrightarrow> expected ! length done \<in> {[], sha256 b}"
    using Cons.prems(2) unfolding expects_def by (metis add.right_neutral length_greater_0_conv list.distinct(1) nth_Cons_0)
  have f: "finalizeSegment sha256 expected (length done) b (sha256 b) = Inr ()"
    using e assms by (auto simp: finalizeSegment_def resolveExpectedChecksum_def hex_digest_def
        validateChecksumHex_def Let_def)
  have n: "expects sha256 expected (length (done @ [b])) bs"
    using Cons.prems(2) unfolding expects_def by (metis Suc_less_eq add_Suc_right add_Suc length_Cons length_append_singleton nth_Cons_Suc)
  have "recv_loop sha256 expected (concat (map (segment_chunks sha256 j p) (b # bs))) [] done
      = recv_loop sha256 expected (concat (map (segment_chunks sha256 j p) bs)) [] (done @ [b])"
    using recv_data [OF c(2)] c(1) Cons.prems(1) f
    by (simp add: segment_chunks_def chunks_for_def [symmetric])
  then show ?case using Cons.IH [OF _ n] Cons.prems(1) by simp
qed simp

section \<open>From map outputs to reduce inputs\<close>

lemma scan_lines_unlines: "\<forall>r\<in>set rs. NL \<notin> set (encode js r) \<Longrightarrow> scan_lines (unlines js rs) = map (encode js) rs"
proof (induction rs)
  case Nil
  then show ?case by (simp add: unlines_def scan_lines.simps [of "[]"])
next
  case (Cons r rs)
  then have "ReadBytes (unlines js (r # rs)) = (encode js r @ [NL], unlines js rs, False)"
    using ReadBytes_line [of "encode js r" "unlines js rs"] by (simp add: unlines_def)
  then show ?case using Cons by (subst scan_lines.simps) simp
qed

lemma filter_one:
  "distinct (map f xs) \<Longrightarrow> \<forall>x\<in>set xs. g x = h (f x) \<Longrightarrow>
    map g (filter (\<lambda>x. f x = p) xs) = (if p \<in> f ` set xs then [h p] else [])"
proof (induction xs)
  case (Cons x xs)
  show ?case
  proof (cases "f x = p")
    case True
    then have "filter (\<lambda>x. f x = p) xs = []" using Cons.prems(1) by (auto simp: filter_empty_conv image_iff)
    then show ?thesis using True Cons.prems(2) by simp
  next
    case False
    then show ?thesis using Cons by auto
  qed
qed simp

abbreviation for_part :: "int \<Rightarrow> int \<Rightarrow> kv list \<Rightarrow> kv list" where
  "for_part R p \<equiv> filter (\<lambda>r. key_part R r = p)"

lemma task_blobs:
  assumes "map mo_partition os = sorted_list_of_set (key_part R ` set rs)" "\<forall>o1\<in>set os. output_of sha256 js job R rs o1"
  shows "map data_of (filter (\<lambda>o1. mo_partition o1 = p) os)
    = (if for_part R p rs = [] then [] else [unlines js (for_part R p rs)])"
proof -
  have "distinct (map mo_partition os)" unfolding assms(1) by simp
  moreover have "\<forall>o1\<in>set os. data_of o1 = unlines js (for_part R (mo_partition o1) rs)"
    using assms(2) by (auto simp: output_of_def data_of_def Let_def)
  ultimately have "map data_of (filter (\<lambda>o1. mo_partition o1 = p) os)
      = (if p \<in> mo_partition ` set os then [unlines js (for_part R p rs)] else [])"
    by (rule filter_one [where h = "\<lambda>p. unlines js (for_part R p rs)"])
  moreover have "mo_partition ` set os = key_part R ` set rs" using arg_cong [OF assms(1), of set] by simp
  ultimately show ?thesis by (auto simp: filter_empty_conv image_iff)
qed

lemma unlines_append: "unlines js (xs @ ys) = unlines js xs @ unlines js ys"
  by (simp add: unlines_def)

lemma length_by_part:
  "finite S \<Longrightarrow> key_part R ` set rs \<subseteq> S \<Longrightarrow> (\<Sum>p\<in>S. int (length (unlines js (for_part R p rs)))) = int (length (unlines js rs))"
proof (induction rs)
  case (Cons r rs)
  have "(\<Sum>p\<in>S. int (length (unlines js (for_part R p (r # rs)))))
      = (\<Sum>p\<in>S. (if p = key_part R r then int (length (encode js r @ [NL])) else 0) + int (length (unlines js (for_part R p rs))))"
    by (intro sum.cong) (auto simp: unlines_def)
  also have "\<dots> = int (length (encode js r @ [NL])) + int (length (unlines js rs))"
    using Cons by (simp add: sum.distrib)
  finally show ?case by (simp add: unlines_def)
qed (simp add: unlines_def)

lemma task_bytes:
  assumes "map mo_partition os = sorted_list_of_set (key_part R ` set rs)" "\<forall>o1\<in>set os. output_of sha256 js job R rs o1"
  shows "bytes_all os = int (length (unlines js rs))"
proof -
  have "bytes_all os = (\<Sum>p\<leftarrow>map mo_partition os. int (length (unlines js (for_part R p rs))))"
    unfolding bytes_all_def using assms(2)
    by (auto simp: output_of_def data_of_def Let_def comp_def intro!: arg_cong [of _ _ sum_list])
  also have "\<dots> = (\<Sum>p\<in>key_part R ` set rs. int (length (unlines js (for_part R p rs))))"
    unfolding assms(1) by (simp add: sum_list_distinct_conv_sum_set)
  finally show ?thesis using length_by_part [of "key_part R ` set rs" R rs js] by simp
qed

definition task_ok :: "json \<Rightarrow> kv list \<Rightarrow> bool" where
  "task_ok js rs \<longleftrightarrow> key_sorted rs \<and> (\<forall>r\<in>set rs. line_ok js r)"

text \<open>The outputs of all tasks together.\<close>

lemma all_tasks:
  assumes "0 < R" "\<forall>rs\<in>set tasks. task_ok js rs"
  shows "\<exists>oss. map (\<lambda>rs. map_partitions sha256 js job R (map (encode js) rs)) tasks = map Inr oss
    \<and> (\<forall>o1\<in>set (concat oss). data_of o1 \<noteq> [])
    \<and> (\<forall>p. map data_of (filter (\<lambda>o1. mo_partition o1 = p) (concat oss))
          = map (unlines js) (filter (\<lambda>rs. rs \<noteq> []) (map (for_part R p) tasks)))
    \<and> (\<forall>p. bytes_for p (concat oss) = int (length (unlines js (for_part R p (concat tasks)))))
    \<and> bytes_all (concat oss) = int (length (unlines js (concat tasks)))"
  using assms(2)
proof (induction tasks)
  case (Cons rs tasks)
  then obtain oss where oss: "map (\<lambda>rs. map_partitions sha256 js job R (map (encode js) rs)) tasks = map Inr oss"
      "\<forall>o1\<in>set (concat oss). data_of o1 \<noteq> []"
      "\<forall>p. map data_of (filter (\<lambda>o1. mo_partition o1 = p) (concat oss))
          = map (unlines js) (filter (\<lambda>rs. rs \<noteq> []) (map (for_part R p) tasks))"
      "\<forall>p. bytes_for p (concat oss) = int (length (unlines js (for_part R p (concat tasks))))"
      "bytes_all (concat oss) = int (length (unlines js (concat tasks)))" by auto
  from map_partitions_outputs [OF assms(1), of rs js sha256 job] Cons.prems obtain os where
    os: "map_partitions sha256 js job R (map (encode js) rs) = Inr os"
      "map mo_partition os = sorted_list_of_set (key_part R ` set rs)" "\<forall>o1\<in>set os. output_of sha256 js job R rs o1"
    by (auto simp: task_ok_def)
  have b: "bytes_for p os = int (length (unlines js (for_part R p rs)))" for p
  proof -
    have "bytes_for p os = (\<Sum>d\<leftarrow>map data_of (filter (\<lambda>o1. mo_partition o1 = p) os). int (length d))"
      by (simp add: bytes_for_def comp_def)
    then show ?thesis unfolding task_blobs [OF os(2,3)] by (simp add: unlines_def)
  qed
  have "\<forall>o1\<in>set os. data_of o1 \<noteq> []" using os(3) by (auto simp: output_of_def data_of_def Let_def)
  then have ne: "\<forall>o1\<in>set (concat (os # oss)). data_of o1 \<noteq> []" using oss(2) by auto
  have bl: "map data_of (filter (\<lambda>o1. mo_partition o1 = p) (concat (os # oss)))
      = map (unlines js) (filter (\<lambda>rs. rs \<noteq> []) (map (for_part R p) (rs # tasks)))" for p
    using task_blobs [OF os(2,3), of p] oss(3) [rule_format, of p] by simp
  have bf: "bytes_for p (concat (os # oss)) = int (length (unlines js (for_part R p (concat (rs # tasks)))))" for p
    using b [of p] oss(4) [rule_format, of p] by (simp add: bytes_for_def unlines_append)
  have ba: "bytes_all (concat (os # oss)) = int (length (unlines js (concat (rs # tasks))))"
    using task_bytes [OF os(2,3)] oss(5) by (simp add: bytes_all_def unlines_append)
  show ?case
    using os(1) oss(1) ne bl bf ba by (intro exI [of _ "os # oss"]) simp
qed (simp add: bytes_for_def bytes_all_def unlines_def)

text \<open>The segments of one partition are merged into its sorted records.\<close>

lemma merge_segments:
  assumes "\<forall>rs\<in>set parts. task_ok js rs"
  shows "\<exists>stats. mergeShuffleInputs js batchSize 0 (map (unlines js) parts)
    = (map (encode js) (sort_key Key (concat parts)), stats, None)"
proof -
  define cfg where "cfg = (if batchSize > 0 then DefaultMergeConfig\<lparr> BatchSize := batchSize \<rparr> else DefaultMergeConfig)"
  have m: "clampRecord (MaxRecordBytes cfg) = nat DefaultMaxRecordBytes"
    by (simp add: cfg_def clampRecord_def DefaultMergeConfig_def DefaultMaxRecordBytes_def)
  have str: "map (\<lambda>seg. spill_stream (scan_lines seg)) (map (unlines js) parts) = map (\<lambda>rs. spill_stream (map (encode js) rs)) parts"
    using assms by (auto simp: task_ok_def line_ok_def scan_lines_unlines)
  have re: "rereadable js rs" "fits js (nat DefaultMaxRecordBytes) rs" "key_sorted rs" if "rs \<in> set parts" for rs
    using assms that by (auto simp: task_ok_def line_ok_def rereadable_def fits_def zless_nat_eq_int_zless)
  have ok: "inputs_ok js (clampRecord (MaxRecordBytes cfg)) (map (\<lambda>rs. spill_stream (map (encode js) rs)) parts)"
    unfolding m inputs_ok_def using re spill_sorted spill_recs by (auto simp: spill_recs)
  have "map (recs js) (map (\<lambda>rs. spill_stream (map (encode js) rs)) parts) = parts"
    using re(1) spill_recs by (simp add: comp_def map_idI)
  then have "merged js (map (\<lambda>rs. spill_stream (map (encode js) rs)) parts) = sort_key Key (concat parts)"
    by (simp add: merged_def)
  then show ?thesis
    using MergeInputs_merged [OF ok] unfolding mergeShuffleInputs_def str by (auto simp: Let_def cfg_def)
qed

text \<open>What the reducer of a partition reads, given the blobs the server holds for it.\<close>

lemma partition_delivered:
  assumes "hex_digest sha256" "\<forall>rs\<in>set tasks. task_ok js rs" "sh_data s job \<noteq> None"
    and blobs: "server_blobs job p s = map (unlines js) (filter (\<lambda>rs. rs \<noteq> []) (map (for_part R p) tasks))"
    and e: "expects sha256 (map (\<lambda>l. snd (splitChecksumURI l)) locations) 0 (server_blobs job p s)"
  shows "\<exists>cs segments stats. GetShuffleData sha256 job p s = Inr cs
      \<and> downloadShuffleInputsFromService sha256 locations cs = Inr segments
      \<and> mergeShuffleInputs js batchSize 0 segments
          = (map (encode js) (sort_key Key (for_part R p (concat tasks))), stats, None)"
proof -
  define parts where "parts = filter (\<lambda>rs. rs \<noteq> []) (map (for_part R p) tasks)"
  note blobs = blobs [folded parts_def]
  have "\<forall>b\<in>set (map (unlines js) parts). b \<noteq> []" by (auto simp: parts_def unlines_def)
  with recv_segments [OF assms(1), of "map (unlines js) parts" _ "[]"] e
  have d: "downloadShuffleInputsFromService sha256 locations
      (concat (map (segment_chunks sha256 job p) (map (unlines js) parts))) = Inr (map (unlines js) parts)"
    unfolding downloadShuffleInputsFromService_def blobs by simp
  have g: "GetShuffleData sha256 job p s = Inr (concat (map (segment_chunks sha256 job p) (map (unlines js) parts)))"
    using assms(3) blobs by (auto simp: GetShuffleData_def server_blobs_def job_data_def split: option.splits)
  have "\<forall>rs\<in>set parts. task_ok js rs"
    using assms(2) by (auto simp: parts_def task_ok_def key_sorted_def sorted_filter)
  moreover have "concat parts = for_part R p (concat tasks)"
    unfolding parts_def by (induction tasks) auto
  ultimately show ?thesis using merge_segments [of parts js batchSize] g d by auto
qed

text \<open>
  C14: The shuffle delivers every record to one reducer, sorted: when the sorted
  outputs of all map tasks of a job are partitioned, sent, stored and fetched
  again within the limits of the server, the reducer of partition \<^verbatim>\<open>p\<close> reads the stable
  sort of exactly the records whose keys hash to \<^verbatim>\<open>p\<close>, for any locations whose
  checksums are those of the stored segments.
\<close>

theorem shuffle_delivers:
  assumes "hex_digest sha256" "0 < R" "job \<noteq> []" "\<forall>rs\<in>set tasks. task_ok js rs" "concat tasks \<noteq> []"
    and "\<forall>p. int (length (unlines js (for_part R p (concat tasks)))) \<le> maxShufflePartitionBytes"
    and "int (length (unlines js (concat tasks))) \<le> maxShuffleJobBytes"
  shows "\<exists>oss s. map (\<lambda>rs. map_partitions sha256 js job R (map (encode js) rs)) tasks = map Inr oss
    \<and> push_all job (concat oss) NewShuffleServer = (None, s)
    \<and> (\<forall>p locations. expects sha256 (map (\<lambda>l. snd (splitChecksumURI l)) locations) 0 (server_blobs job p s) \<longrightarrow>
        (\<exists>cs segments stats. GetShuffleData sha256 job p s = Inr cs
          \<and> downloadShuffleInputsFromService sha256 locations cs = Inr segments
          \<and> mergeShuffleInputs js batchSize 0 segments
              = (map (encode js) (sort_key Key (for_part R p (concat tasks))), stats, None)))"
proof -
  obtain oss where oss: "map (\<lambda>rs. map_partitions sha256 js job R (map (encode js) rs)) tasks = map Inr oss"
      "\<forall>o1\<in>set (concat oss). data_of o1 \<noteq> []"
      "\<forall>p. map data_of (filter (\<lambda>o1. mo_partition o1 = p) (concat oss))
          = map (unlines js) (filter (\<lambda>rs. rs \<noteq> []) (map (for_part R p) tasks))"
      "\<forall>p. bytes_for p (concat oss) = int (length (unlines js (for_part R p (concat tasks))))"
      "bytes_all (concat oss) = int (length (unlines js (concat tasks)))"
    using all_tasks [OF assms(2,4)] by blast
  have "concat oss \<noteq> []"
  proof
    assume e: "concat oss = []"
    have "unlines js (concat tasks) = []" using oss(5) unfolding e by (simp add: bytes_all_def)
    then show False using assms(5) by (cases "concat tasks") (auto simp: unlines_def)
  qed
  with push_all_stored [OF assms(3) oss(2), of NewShuffleServer] oss(4,5) assms(6,7) obtain s where
    s: "push_all job (concat oss) NewShuffleServer = (None, s)" "sh_data s job \<noteq> None"
      "\<forall>p. server_blobs job p s = map data_of (filter (\<lambda>o1. mo_partition o1 = p) (concat oss))"
    by (auto simp: NewShuffleServer_def server_blobs_def job_data_def)
  then have "\<forall>p. server_blobs job p s = map (unlines js) (filter (\<lambda>rs. rs \<noteq> []) (map (for_part R p) tasks))"
    using oss(3) by simp
  with partition_delivered [OF assms(1,4) s(2)] oss(1) s(1) show ?thesis by blast
qed

lemma unlines_filter_le: "length (unlines js (filter P rs)) \<le> length (unlines js rs)"
  by (induction rs) (simp_all add: unlines_def)

definition ex_digest :: "string \<Rightarrow> string" where
  "ex_digest x = ''00''"

definition ex_tasks :: "kv list list" where
  "ex_tasks = [[\<lparr> Key = ''a'', Value = ''1'' \<rparr>, \<lparr> Key = ''c'', Value = ''2'' \<rparr>], [\<lparr> Key = ''b'', Value = ''3'' \<rparr>]]"

lemma ex_tasks_ok: "\<forall>rs\<in>set ex_tasks. task_ok ex_json rs"
  by code_simp

theorem shuffle_delivers_witness:
  "\<exists>oss s. map (\<lambda>rs. map_partitions ex_digest ex_json ''j'' 2 (map (encode ex_json) rs)) ex_tasks = map Inr oss
    \<and> push_all ''j'' (concat oss) NewShuffleServer = (None, s)
    \<and> (\<exists>cs segments stats. GetShuffleData ex_digest ''j'' 0 s = Inr cs
          \<and> downloadShuffleInputsFromService ex_digest [] cs = Inr segments
          \<and> mergeShuffleInputs ex_json 0 0 segments
              = (map (encode ex_json) (sort_key Key (for_part 2 0 (concat ex_tasks))), stats, None))"
proof -
  have "TrimSpace ''00'' = ''00''" by code_simp
  then have h: "hex_digest ex_digest" by (simp add: hex_digest_def ex_digest_def)
  have n: "concat ex_tasks \<noteq> []" by (simp add: ex_tasks_def)
  have l: "length (unlines ex_json (concat ex_tasks)) = 15" by code_simp
  have p: "\<forall>p. int (length (unlines ex_json (for_part 2 p (concat ex_tasks)))) \<le> maxShufflePartitionBytes"
    using unlines_filter_le [of ex_json _ "concat ex_tasks"] unfolding l maxShufflePartitionBytes_def
    by (intro allI) (rule order_trans [of _ 15], simp_all)
  have j: "int (length (unlines ex_json (concat ex_tasks))) \<le> maxShuffleJobBytes"
    unfolding l maxShuffleJobBytes_def by simp
  have e: "expects ex_digest (map (\<lambda>l. snd (splitChecksumURI l)) []) 0 blobs" for blobs by (simp add: expects_def)
  have "(0 :: int) < 2" "''j'' \<noteq> []" by simp_all
  from shuffle_delivers [OF h this ex_tasks_ok n p j, of 0] obtain oss s where
    s: "map (\<lambda>rs. map_partitions ex_digest ex_json ''j'' 2 (map (encode ex_json) rs)) ex_tasks = map Inr oss"
      "push_all ''j'' (concat oss) NewShuffleServer = (None, s)"
    and r: "\<And>p locations. expects ex_digest (map (\<lambda>l. snd (splitChecksumURI l)) locations) 0 (server_blobs ''j'' p s) \<Longrightarrow>
        \<exists>cs segments stats. GetShuffleData ex_digest ''j'' p s = Inr cs
          \<and> downloadShuffleInputsFromService ex_digest locations cs = Inr segments
          \<and> mergeShuffleInputs ex_json 0 0 segments
              = (map (encode ex_json) (sort_key Key (for_part 2 p (concat ex_tasks))), stats, None)"
    by blast
  from r [OF e] s show ?thesis by blast
qed

end
