(* ===== verification/Job_Flow.thy ===== *)
theory Job_Flow
  imports Scheduler_Props Wk_Shuffle
begin

text \<open>
  The manager and the worker together: what the scheduler records of the
  outputs of a map task, and which reduce tasks it takes for empty.
\<close>

section \<open>A job with one map task and two reducers\<close>

definition flow_req :: ScheduleJobRequest where
  "flow_req = \<lparr> rq_JobID = ''j'', rq_UserID = ''u'', rq_InputURI = ''i'', rq_MapperURI = ''m'',
     rq_ReducerURI = ''r'', rq_CombinerURI = '''', rq_MTasks = 1, rq_RTasks = 2, rq_InputChecksum = '''',
     rq_Tasks = [ex_task ''a'' ''Map'' 0, ex_task ''c'' ''Reduce'' 0, ex_task ''d'' ''Reduce'' 1] \<rparr>"

text \<open>The map task writes one record, whose key belongs to partition 1.\<close>

definition flow_records :: "kv list" where
  "flow_records = [\<lparr> Key = ''b'', Value = ''3'' \<rparr>]"

definition flow_outputs :: "map_output list" where
  "flow_outputs = (case map_partitions ex_digest ex_json ''j'' 2 (map (encode ex_json) flow_records) of
     Inl _ \<Rightarrow> [] | Inr os \<Rightarrow> os)"

definition flow_run :: "(seconds \<times> string \<times> sched_op) list" where
  "flow_run = [(100, ''e'', OpSchedule flow_req), (101, ''f'', OpGetNext ''j'' ''wk''),
     (102, ''g'', OpComplete ''a'' ''f'' ''fx'' (map mo_uri flow_outputs) (map mo_checksum flow_outputs)),
     (103, ''h'', OpGetNext ''j'' ''wk''), (104, ''i'', OpComplete ''c'' ''h'' ''hx'' [''o''] [''k''])]"

definition flow_world :: world where
  "flow_world = ex_run flow_run ex_w0"

lemma flow_partition: "hashPartition ''b'' 2 = Inr 1"
  by code_simp

lemma flow_line: "ex_unmarshal ''b:3}'' = Some \<lparr> Key = ''b'', Value = ''3'' \<rparr>" "drop_cr ''b:3}'' = ''b:3}''"
    "TrimSpace ''b:3}'' \<noteq> []"
  by code_simp+

lemma flow_map: "map_partitions ex_digest ex_json ''j'' 2 (map (encode ex_json) flow_records) = Inr
    [\<lparr> mo_partition = 1, mo_uri = shuffle_uri ''j'' 1, mo_checksum = ''00'', mo_chunks = [''b:3}'' @ [NL]] \<rparr>]"
  by (simp add: map_partitions_def flow_records_def ex_json_def flow_line flow_partition DefaultMaxRecordBytes_def
      sortInts_sort writer_Close_def writer_Write_def writer_new_def send_full.simps shuffleChunkSizeBytes_def ex_digest_def)

lemma flow_outputs_eq: "flow_outputs =
    [\<lparr> mo_partition = 1, mo_uri = shuffle_uri ''j'' 1, mo_checksum = ''00'', mo_chunks = [''b:3}'' @ [NL]] \<rparr>]"
  by (simp add: flow_outputs_def flow_map)

lemma flow_run_eq: "flow_run = [(100, ''e'', OpSchedule flow_req), (101, ''f'', OpGetNext ''j'' ''wk''),
     (102, ''g'', OpComplete ''a'' ''f'' ''fx'' [shuffle_uri ''j'' 1] [''00'']),
     (103, ''h'', OpGetNext ''j'' ''wk''), (104, ''i'', OpComplete ''c'' ''h'' ''hx'' [''o''] [''k''])]"
  by (simp add: flow_run_def flow_outputs_eq)

lemma flow_reach: "sched_reach ex_parse flow_world"
  unfolding flow_world_def flow_run_eq by (rule ex_run_reach [OF ex_w0_reach]) code_simp

lemma flow_rows:
  "map (\<lambda>t. (task_id t, task_type t, replica_index t, task_status t)) (tasks (w_db flow_world)) =
    [(''a'', MapTask, 0, Completed), (''c'', ReduceTask, 0, Completed), (''d'', ReduceTask, 1, Completed)]"
  "map attempt_task (attempts (w_db flow_world)) = [''a'', ''c'']"
  "map job_status (jobs (w_db flow_world)) = [JobCleaning]"
  "map output_uri (filter (\<lambda>o1. output_task o1 = ''a'') (task_outputs (w_db flow_world))) = [shuffle_uri ''j'' 1]"
  unfolding flow_world_def flow_run_eq by code_simp+

text \<open>
  C16: The manager can lose the data of a partition.  A map task reports the
  outputs of its nonempty partitions only, and the manager numbers the reported
  outputs from 0.  There is a run in which the records of the job are all in
  partition 1, the manager takes the reduce task of partition 1 for empty and
  completes it without any attempt, and the job ends with every task completed.
\<close>

theorem reduce_partition_lost:
  "\<exists>w os t. map_partitions ex_digest ex_json ''j'' 2 (map (encode ex_json) flow_records) = Inr os
    \<and> sched_reach ex_parse w
    \<and> map output_uri (filter (\<lambda>o1. output_task o1 = ''a'') (task_outputs (w_db w))) = map mo_uri os
    \<and> t \<in> set (tasks (w_db w)) \<and> task_type t = ReduceTask \<and> task_status t = Completed
    \<and> task_id t \<notin> attempt_task ` set (attempts (w_db w))
    \<and> map job_status (jobs (w_db w)) = [JobCleaning] \<and> map task_status (tasks (w_db w)) = [Completed, Completed, Completed]
    \<and> (\<exists>o1\<in>set os. mo_partition o1 = replica_index t \<and> concat (mo_chunks o1) \<noteq> [])"
proof -
  have "(''d'', ReduceTask, 1, Completed) \<in> set (map (\<lambda>t. (task_id t, task_type t, replica_index t, task_status t))
      (tasks (w_db flow_world)))" unfolding flow_rows(1) by simp
  then obtain t where t: "t \<in> set (tasks (w_db flow_world))" "task_id t = ''d''" "task_type t = ReduceTask"
      "replica_index t = 1" "task_status t = Completed"
    by auto
  have "''d'' \<notin> set (map attempt_task (attempts (w_db flow_world)))" unfolding flow_rows(2) by simp
  moreover have "map task_status (tasks (w_db flow_world)) = [Completed, Completed, Completed]"
    using arg_cong [OF flow_rows(1), of "map (\<lambda>(i, ty, r, st). st)"] by (simp add: comp_def)
  ultimately show ?thesis
    using t flow_map flow_reach flow_rows(3,4)
    by (intro exI [of _ flow_world] exI [of _ flow_outputs] exI [of _ t]) (simp add: flow_outputs_eq)
qed

end
