(* ===== verification/Js_Prelude.thy ===== *)
theory Js_Prelude
  imports Prelude "HOL-Library.List_Lexorder"
begin

text \<open>
  What the JavaScript components share: strings as lists of UTF-16 code units,
  exceptions as values, and the string and array methods of the language that
  the bundled scripts call.
\<close>

section \<open>Strings and errors\<close>

type_synonym code_unit = int

type_synonym ustring = "code_unit list"

datatype js_error = TypeError | RangeError | JsError ustring

type_synonym 'a js = "js_error + 'a"

definition js_bind :: "'a js \<Rightarrow> ('a \<Rightarrow> 'b js) \<Rightarrow> 'b js" where
  "js_bind m f = (case m of Inl e \<Rightarrow> Inl e | Inr x \<Rightarrow> f x)"

lemma js_bind_simps [simp]: "js_bind (Inl e) f = Inl e" "js_bind (Inr x) f = f x"
  by (simp_all add: js_bind_def)

lemma js_bind_Inr_iff: "js_bind m f = Inr y \<longleftrightarrow> (\<exists>x. m = Inr x \<and> f x = Inr y)"
  by (cases m) simp_all

text \<open>An ASCII literal of the source.\<close>

definition lit :: "string \<Rightarrow> ustring" where
  "lit s = map of_char s"

lemma lit_append: "lit (s @ t) = lit s @ lit t"
  by (simp add: lit_def)

lemma lit_Nil [simp]: "lit [] = []"
  by (simp add: lit_def)

lemma lit_eq_iff [simp]: "lit s = lit t \<longleftrightarrow> s = t"
  unfolding lit_def by (rule inj_map_eq_map) (rule injI, simp)

section \<open>Arrays\<close>

text \<open>Reading a property of an array element: outside the array the element is undefined.\<close>

definition js_nth :: "'a list \<Rightarrow> int \<Rightarrow> 'a js" where
  "js_nth xs i = (if 0 \<le> i \<and> i < int (length xs) then Inr (xs ! nat i) else Inl TypeError)"

lemma js_nth_in [simp]: "0 \<le> i \<Longrightarrow> i < int (length xs) \<Longrightarrow> js_nth xs i = Inr (xs ! nat i)"
  by (simp add: js_nth_def)

fun js_map :: "('a \<Rightarrow> 'b js) \<Rightarrow> 'a list \<Rightarrow> 'b list js" where
  "js_map f [] = Inr []"
| "js_map f (x # xs) = js_bind (f x) (\<lambda>y. js_bind (js_map f xs) (\<lambda>ys. Inr (y # ys)))"

lemma js_map_total: "(\<And>x. x \<in> set xs \<Longrightarrow> f x = Inr (g x)) \<Longrightarrow> js_map f xs = Inr (map g xs)"
  by (induction xs) simp_all

text \<open>\<^verbatim>\<open>String.prototype.substring\<close> on arguments that are not negative, and \<^verbatim>\<open>Array.prototype.join\<close>.\<close>

definition substring :: "ustring \<Rightarrow> nat \<Rightarrow> nat \<Rightarrow> ustring" where
  "substring t s e =
    (let a = min s (length t); b = min e (length t) in take (max a b - min a b) (drop (min a b) t))"

lemma substring_le: "s \<le> e \<Longrightarrow> e \<le> length t \<Longrightarrow> substring t s e = take (e - s) (drop s t)"
  by (simp add: substring_def min_def max_def)

lemma substring_split:
  "s \<le> m \<Longrightarrow> m \<le> e \<Longrightarrow> e \<le> length t \<Longrightarrow> substring t s m @ substring t m e = substring t s e"
proof -
  assume a: "s \<le> m" "m \<le> e" "e \<le> length t"
  then have "take (e - s) (drop s t) = take (m - s) (drop s t) @ take (e - m) (drop (m - s) (drop s t))"
    using take_add [of "m - s" "e - m" "drop s t"] by simp
  then show ?thesis using a by (simp add: substring_le)
qed

fun js_join :: "ustring \<Rightarrow> ustring list \<Rightarrow> ustring" where
  "js_join d [] = []"
| "js_join d [x] = x"
| "js_join d (x # y # xs) = x @ d @ js_join d (y # xs)"

lemma js_join_Nil: "js_join [] xs = concat xs"
  by (induction "[] :: ustring" xs rule: js_join.induct) simp_all

text \<open>\<^verbatim>\<open>split\<close> at every occurrence of a code unit, and at maximal runs of code units of a class.\<close>

fun split_at :: "code_unit \<Rightarrow> ustring \<Rightarrow> ustring list" where
  "split_at c [] = [[]]"
| "split_at c (x # xs) = (if x = c then [] # split_at c xs
     else case split_at c xs of [] \<Rightarrow> [[x]] | p # ps \<Rightarrow> (x # p) # ps)"

fun split_runs :: "(code_unit \<Rightarrow> bool) \<Rightarrow> bool \<Rightarrow> ustring \<Rightarrow> ustring list" where
  "split_runs P inrun [] = [[]]"
| "split_runs P inrun (x # xs) =
    (if P x then (if inrun then split_runs P True xs else [] # split_runs P True xs)
     else case split_runs P False xs of [] \<Rightarrow> [[x]] | p # ps \<Rightarrow> (x # p) # ps)"

lemma split_at_not_Nil [simp]: "split_at c s \<noteq> []"
  by (induction c s rule: split_at.induct) (auto split: list.splits)

lemma split_at_no_sep: "p \<in> set (split_at c s) \<Longrightarrow> c \<notin> set p"
  by (induction c s arbitrary: p rule: split_at.induct) (auto split: list.splits if_splits)

lemma join_split_at: "js_join [c] (split_at c s) = s"
proof (induction c s rule: split_at.induct)
  case (2 c x xs)
  obtain p ps where "split_at c xs = p # ps" by (cases "split_at c xs") simp_all
  with 2 show ?case by (cases ps) auto
qed simp

lemma split_at_append:
  "c \<notin> set p \<Longrightarrow> split_at c (p @ c # s) = p # split_at c s"
  by (induction p) simp_all

lemma split_at_free: "c \<notin> set p \<Longrightarrow> split_at c p = [p]"
  by (induction p) simp_all

lemma split_join_at:
  "ps \<noteq> [] \<Longrightarrow> (\<And>p. p \<in> set ps \<Longrightarrow> c \<notin> set p) \<Longrightarrow> split_at c (js_join [c] ps) = ps"
proof (induction "[c]" ps rule: js_join.induct)
  case (3 x y xs)
  then show ?case by (simp add: split_at_append)
qed (simp_all add: split_at_free)

section \<open>Character classes of the language\<close>

definition line_terminator :: "code_unit \<Rightarrow> bool" where
  "line_terminator c \<longleftrightarrow> c = 10 \<or> c = 13 \<or> c = 8232 \<or> c = 8233"

definition js_space :: "code_unit \<Rightarrow> bool" where
  "js_space c \<longleftrightarrow> 9 \<le> c \<and> c \<le> 13 \<or> c = 32 \<or> c = 160 \<or> c = 5760 \<or> 8192 \<le> c \<and> c \<le> 8202
     \<or> c = 8232 \<or> c = 8233 \<or> c = 8239 \<or> c = 8287 \<or> c = 12288 \<or> c = 65279"

definition is_digit :: "code_unit \<Rightarrow> bool" where
  "is_digit c \<longleftrightarrow> 48 \<le> c \<and> c \<le> 57"

definition digits_val :: "ustring \<Rightarrow> int" where
  "digits_val ds = foldl (\<lambda>v c. 10 * v + (c - 48)) 0 ds"

definition js_trim :: "ustring \<Rightarrow> ustring" where
  "js_trim s = rev (dropWhile js_space (rev (dropWhile js_space s)))"

section \<open>The contract of a segmenter\<close>

text \<open>What the search index expects of a tokenizer: the tokens are a partition of the text into nonempty pieces.\<close>

locale segmenter =
  fixes seg :: "ustring \<Rightarrow> ustring list"
  assumes seg_concat: "concat (seg s) = s"
    and seg_nonempty: "[] \<notin> set (seg s)"
begin

lemma seg_count: "length (seg s) \<le> length s"
proof -
  have "[] \<notin> set ps \<Longrightarrow> length ps \<le> length (concat ps)" for ps :: "ustring list"
  proof (induction ps)
    case (Cons p ps)
    then show ?case by (cases p) auto
  qed simp
  from this [OF seg_nonempty] show ?thesis by (simp add: seg_concat)
qed

lemma seg_Nil_iff: "seg s = [] \<longleftrightarrow> s = []"
  using seg_concat [of s] seg_count [of s] by (cases "seg s") auto

lemma seg_inj: "seg s = seg t \<Longrightarrow> s = t"
  using seg_concat by metis

end

end
