(* ===== verification/Js_Path.thy ===== *)
theory Js_Path
  imports Js_Prelude
begin

text \<open>
  The POSIX path module bundled in \<^verbatim>\<open>wordcut.js\<close> (module 22): normalization,
  resolution, joining and relative paths.  An argument that is not a string
  is \<^const>\<open>None\<close>.
\<close>

section \<open>Definitions\<close>

definition SLASH :: code_unit where "SLASH = 47"
definition dot :: ustring where "dot = lit ''.''"
definition dotdot :: ustring where "dotdot = lit ''..''"

text \<open>
  The loop of \<^verbatim>\<open>normalizeArray\<close> runs from the last part to the first and splices the
  parts it drops; the first argument holds the parts not yet visited, last
  one first, the second the parts kept so far.
\<close>

fun normalizeArray_loop :: "ustring list \<Rightarrow> ustring list \<Rightarrow> nat \<Rightarrow> ustring list \<times> nat" where
  "normalizeArray_loop [] kept up = (kept, up)"
| "normalizeArray_loop (part # before) kept up =
    (if part = dot then normalizeArray_loop before kept up
     else if part = dotdot then normalizeArray_loop before kept (up + 1)
     else if up > 0 then normalizeArray_loop before kept (up - 1)
     else normalizeArray_loop before (part # kept) up)"

definition normalizeArray :: "ustring list \<Rightarrow> bool \<Rightarrow> ustring list" where
  "normalizeArray parts allowAboveRoot =
    (let (ps, up) = normalizeArray_loop (rev parts) [] 0
     in if allowAboveRoot then replicate up dotdot @ ps else ps)"

text \<open>\<^verbatim>\<open>filter\<close> of the module with the predicate \<^verbatim>\<open>!!p\<close> or \<^verbatim>\<open>p\<close>: strings that are not empty.\<close>

definition filter_truthy :: "ustring list \<Rightarrow> ustring list" where
  "filter_truthy xs = filter (\<lambda>p. p \<noteq> []) xs"

text \<open>\<^verbatim>\<open>substr(str, start)\<close> with a start that may be negative.\<close>

definition path_substr :: "ustring \<Rightarrow> int \<Rightarrow> ustring" where
  "path_substr str start =
    (let st = (if start < 0 then max 0 (int (length str) + start) else start) in drop (nat st) str)"

definition isAbsolute :: "ustring \<Rightarrow> bool" where
  "isAbsolute path \<longleftrightarrow> take 1 path = [SLASH]"

definition path_normalize :: "ustring \<Rightarrow> ustring" where
  "path_normalize path =
    (let isAbs = isAbsolute path;
         trailingSlash = (path_substr path (-1) = [SLASH]);
         p1 = js_join [SLASH] (normalizeArray (filter_truthy (split_at SLASH path)) (\<not> isAbs));
         p2 = (if p1 = [] \<and> \<not> isAbs then dot else p1);
         p3 = (if p2 \<noteq> [] \<and> trailingSlash then p2 @ [SLASH] else p2)
     in (if isAbs then [SLASH] else []) @ p3)"

definition path_join :: "ustring option list \<Rightarrow> ustring js" where
  "path_join paths =
    (if None \<in> set paths then Inl TypeError
     else Inr (path_normalize (js_join [SLASH] (filter_truthy (map the paths)))))"

text \<open>\<^verbatim>\<open>process.cwd\<close> of the bundled process module.\<close>

definition process_cwd :: ustring where "process_cwd = [SLASH]"

text \<open>The loop of \<^verbatim>\<open>resolve\<close> over the arguments, last first, with the working directory at the end.\<close>

fun resolve_loop :: "ustring option list \<Rightarrow> ustring \<Rightarrow> bool \<Rightarrow> (ustring \<times> bool) js" where
  "resolve_loop [] resolvedPath resolvedAbsolute = Inr (resolvedPath, resolvedAbsolute)"
| "resolve_loop (a # as) resolvedPath resolvedAbsolute =
    (if resolvedAbsolute then Inr (resolvedPath, resolvedAbsolute)
     else case a of None \<Rightarrow> Inl TypeError
     | Some path \<Rightarrow>
       if path = [] then resolve_loop as resolvedPath resolvedAbsolute
       else resolve_loop as (path @ [SLASH] @ resolvedPath) (take 1 path = [SLASH]))"

definition path_resolve :: "ustring option list \<Rightarrow> ustring js" where
  "path_resolve args = js_bind (resolve_loop (rev args @ [Some process_cwd]) [] False) (\<lambda>(rp, isAbs).
     let p = js_join [SLASH] (normalizeArray (filter_truthy (split_at SLASH rp)) (\<not> isAbs));
         res = (if isAbs then [SLASH] else []) @ p
     in Inr (if res = [] then dot else res))"

text \<open>\<^verbatim>\<open>trim\<close> of \<^verbatim>\<open>relative\<close>, with the second argument of \<^verbatim>\<open>slice\<close> as the source has it.\<close>

definition relative_trim :: "ustring list \<Rightarrow> ustring list" where
  "relative_trim arr =
    (let start = length (takeWhile (\<lambda>p. p = []) arr);
         end' = int (length arr) - 1 - int (length (takeWhile (\<lambda>p. p = []) (rev arr)))
     in if int start > end' then []
        else drop start (take (nat (end' - int start + 1)) arr))"

fun samePartsLength :: "ustring list \<Rightarrow> ustring list \<Rightarrow> nat" where
  "samePartsLength (f # fs) (t # ts) = (if f \<noteq> t then 0 else Suc (samePartsLength fs ts))"
| "samePartsLength _ _ = 0"

definition path_relative :: "ustring option \<Rightarrow> ustring option \<Rightarrow> ustring js" where
  "path_relative from to' =
    js_bind (path_resolve [from]) (\<lambda>f. js_bind (path_resolve [to']) (\<lambda>t.
      let fromParts = relative_trim (split_at SLASH (path_substr f 1));
          toParts = relative_trim (split_at SLASH (path_substr t 1));
          k = samePartsLength fromParts toParts
      in Inr (js_join [SLASH] (replicate (length fromParts - k) dotdot @ drop k toParts))))"

section \<open>Normalization against a forward reference\<close>

text \<open>
  The reference reads the parts from the left and keeps a stack of the
  directories entered so far.
\<close>

fun cd_up :: "bool \<Rightarrow> ustring list \<Rightarrow> ustring list" where
  "cd_up a [] = (if a then [dotdot] else [])"
| "cd_up a (d # ds) = (if d = dotdot then dotdot # d # ds else ds)"

fun walk :: "bool \<Rightarrow> ustring list \<Rightarrow> ustring list \<Rightarrow> ustring list" where
  "walk a st [] = rev st"
| "walk a st (p # ps) = (if p = dot then walk a st ps
     else if p = dotdot then walk a (cd_up a st) ps else walk a (p # st) ps)"

definition names :: "ustring list \<Rightarrow> bool" where
  "names ps \<longleftrightarrow> (\<forall>p\<in>set ps. p \<noteq> dot \<and> p \<noteq> dotdot)"

definition net :: "ustring list \<Rightarrow> ustring list \<times> nat" where
  "net ps = normalizeArray_loop (rev ps) [] 0"

lemma normalizeArray_net:
  "normalizeArray ps a = (if a then replicate (snd (net ps)) dotdot @ fst (net ps) else fst (net ps))"
  by (simp add: normalizeArray_def net_def case_prod_unfold Let_def)

lemma net_Nil [simp]: "net [] = ([], 0)"
  by (simp add: net_def)

lemma dots_neq [simp]: "dot \<noteq> dotdot" "dotdot \<noteq> dot" "dot \<noteq> []" "dotdot \<noteq> []" "[] \<noteq> dot" "[] \<noteq> dotdot"
  by (simp_all add: dot_def dotdot_def lit_def)

lemma loop_append:
  "normalizeArray_loop (xs @ ys) kept up =
    (let (k, u) = normalizeArray_loop xs kept up in normalizeArray_loop ys k u)"
  by (induction xs kept up rule: normalizeArray_loop.induct) auto

lemma net_Cons:
  "net (p # ps) = (let (k, u) = net ps in
     if p = dot then (k, u) else if p = dotdot then (k, u + 1)
     else if u > 0 then (k, u - 1) else (p # k, u))"
  by (simp add: net_def loop_append case_prod_unfold Let_def)

lemma net_names: "names (fst (net ps))"
proof (induction ps)
  case (Cons p ps)
  then show ?case by (auto simp: net_Cons case_prod_unfold Let_def names_def)
qed (simp add: names_def)

lemma walk_net: "walk a st ps = rev ((cd_up a ^^ snd (net ps)) st) @ fst (net ps)"
proof (induction ps arbitrary: st)
  case (Cons p ps)
  show ?case
  proof (cases "snd (net ps)")
    case 0
    then show ?thesis by (simp add: Cons.IH net_Cons case_prod_unfold Let_def funpow_swap1)
  next
    case (Suc n)
    have "cd_up a (p # st) = st" if "p \<noteq> dotdot" using that by simp
    then show ?thesis using Suc
      by (simp add: Cons.IH net_Cons case_prod_unfold Let_def funpow_swap1 del: cd_up.simps)
  qed
qed simp

lemma cd_up_empty: "(cd_up a ^^ n) [] = (if a then replicate n dotdot else [])"
proof (induction n)
  case (Suc n)
  then show ?case by (cases n) (auto simp: cd_up.simps)
qed simp

lemma normalizeArray_walk: "normalizeArray parts a = walk a [] parts"
  by (simp add: normalizeArray_net walk_net cd_up_empty)

section \<open>Components of a path string\<close>

abbreviation parts :: "ustring \<Rightarrow> ustring list" where
  "parts s \<equiv> filter_truthy (split_at SLASH s)"

definition good :: "ustring list \<Rightarrow> bool" where
  "good ps \<longleftrightarrow> (\<forall>p\<in>set ps. p \<noteq> [] \<and> SLASH \<notin> set p)"

lemma good_simps [simp]:
  "good []" "good (p # ps) \<longleftrightarrow> p \<noteq> [] \<and> SLASH \<notin> set p \<and> good ps" "good (ps @ qs) \<longleftrightarrow> good ps \<and> good qs"
  by (auto simp: good_def)

lemma names_simps [simp]:
  "names []" "names (p # ps) \<longleftrightarrow> p \<noteq> dot \<and> p \<noteq> dotdot \<and> names ps" "names (ps @ qs) \<longleftrightarrow> names ps \<and> names qs"
  by (auto simp: names_def)

lemma slash_free_dots [simp]: "SLASH \<notin> set dot" "SLASH \<notin> set dotdot"
  by (simp_all add: dot_def dotdot_def lit_def SLASH_def)

lemma good_replicate [simp]: "good (replicate n dotdot)"
  by (induction n) simp_all

lemma split_at_mid: "split_at c (s @ c # t) = split_at c s @ split_at c t"
  by (induction s) (auto split: list.splits)

lemma filter_truthy_simps [simp]:
  "filter_truthy [] = []" "filter_truthy ([] # ps) = filter_truthy ps"
  "filter_truthy (ps @ qs) = filter_truthy ps @ filter_truthy qs"
  by (simp_all add: filter_truthy_def)

lemma parts_simps [simp]:
  "parts (s @ SLASH # t) = parts s @ parts t" "parts (SLASH # t) = parts t" "parts [] = []"
  by (simp_all add: split_at_mid)

lemma parts_snoc [simp]: "parts (s @ [SLASH]) = parts s"
  using parts_simps(1) [of s "[]"] by simp

lemma parts_good: "good (parts s)"
  by (auto simp: good_def filter_truthy_def dest: split_at_no_sep)

lemma good_filter: "good ps \<Longrightarrow> filter_truthy ps = ps"
  by (simp add: filter_truthy_def good_def)

lemma split_join_good: "good ps \<Longrightarrow> ps \<noteq> [] \<Longrightarrow> split_at SLASH (js_join [SLASH] ps) = ps"
  by (rule split_join_at) (auto simp: good_def)

lemma parts_join: "good ps \<Longrightarrow> parts (js_join [SLASH] ps) = ps"
  by (cases "ps = []") (simp_all add: split_join_good good_filter)

lemma join_good:
  "good ps \<Longrightarrow> ps \<noteq> [] \<Longrightarrow> js_join [SLASH] ps \<noteq> [] \<and> hd (js_join [SLASH] ps) \<noteq> SLASH \<and> last (js_join [SLASH] ps) \<noteq> SLASH"
proof (induction "[SLASH]" ps rule: js_join.induct)
  case (2 x)
  then show ?case using hd_in_set last_in_set by (metis good_simps(2) js_join.simps(2))
next
  case (3 x y xs)
  then show ?case by (auto simp: hd_append dest: hd_in_set)
qed simp

lemma join_empty_iff: "good ps \<Longrightarrow> js_join [SLASH] ps = [] \<longleftrightarrow> ps = []"
  using join_good by fastforce

lemma net_set: "set (fst (net ps)) \<subseteq> set ps"
  by (induction ps) (auto simp: net_Cons case_prod_unfold Let_def split: if_splits)

lemma normalizeArray_good: "good ps \<Longrightarrow> good (normalizeArray ps a)"
  using net_set [of ps] by (auto simp: normalizeArray_net good_def split: if_splits)

lemma net_of_names: "names ns \<Longrightarrow> net ns = (ns, 0)"
  by (induction ns) (simp_all add: net_Cons)

lemma net_normal: "names ns \<Longrightarrow> net (replicate k dotdot @ ns) = (ns, k)"
proof (induction k)
  case (Suc k)
  then show ?case using net_Cons [of dotdot "replicate k dotdot @ ns"] by simp
qed (simp add: net_of_names)

lemma normalizeArray_idem: "normalizeArray (normalizeArray ps a) a = normalizeArray ps a"
  using net_names [of ps] net_normal [of "fst (net ps)" "snd (net ps)"] net_of_names [of "fst (net ps)"]
  by (simp add: normalizeArray_net)

lemma normalizeArray_names: "names (normalizeArray ps False)"
  using net_names [of ps] by (simp add: normalizeArray_net)

lemma normalizeArray_dot: "normalizeArray [dot] a = []"
  by (simp add: normalizeArray_def)

section \<open>Idempotence of normalization\<close>

lemma substr_last: "path_substr s (-1) = [SLASH] \<longleftrightarrow> s \<noteq> [] \<and> last s = SLASH"
  by (cases s rule: rev_cases) (simp_all add: path_substr_def max_def)

lemma absolute_iff: "isAbsolute s \<longleftrightarrow> s \<noteq> [] \<and> hd s = SLASH"
  by (cases s) (simp_all add: isAbsolute_def)

definition path_string :: "bool \<Rightarrow> bool \<Rightarrow> ustring list \<Rightarrow> ustring" where
  "path_string isAbs tr ps =
    (if isAbs then SLASH # js_join [SLASH] ps @ (if tr \<and> ps \<noteq> [] then [SLASH] else [])
     else (if ps = [] then dot else js_join [SLASH] ps) @ (if tr then [SLASH] else []))"

lemma path_normalize_string:
  "path_normalize p = path_string (isAbsolute p) (path_substr p (-1) = [SLASH])
     (normalizeArray (parts p) (\<not> isAbsolute p))"
  using join_empty_iff [OF normalizeArray_good [OF parts_good]]
  by (cases "isAbsolute p") (simp_all add: path_normalize_def path_string_def Let_def)

lemma parts_dot [simp]: "parts dot = [dot]"
  by (simp add: split_at_free filter_truthy_def)

lemma parts_path_string: "good ps \<Longrightarrow> parts (path_string isAbs tr ps) = (if \<not> isAbs \<and> ps = [] then [dot] else ps)"
  by (simp add: path_string_def parts_join)

lemma dot_ends [simp]: "hd dot \<noteq> SLASH" "last dot \<noteq> SLASH"
  by (simp_all add: dot_def lit_def SLASH_def)

lemma absolute_path_string: "good ps \<Longrightarrow> isAbsolute (path_string isAbs tr ps) = isAbs"
  using join_good [of ps] by (auto simp: absolute_iff path_string_def hd_append)

lemma trailing_path_string:
  "good ps \<Longrightarrow> path_substr (path_string isAbs tr ps) (-1) = [SLASH] \<longleftrightarrow> tr \<or> isAbs \<and> ps = []"
  using join_good [of ps] by (auto simp: substr_last path_string_def)

lemma path_string_again:
  assumes "good ps" "normalizeArray ps (\<not> isAbs) = ps"
  shows "path_normalize (path_string isAbs tr ps) = path_string isAbs tr ps"
proof -
  have "normalizeArray (parts (path_string isAbs tr ps)) (\<not> isAbs) = ps"
  proof (cases "\<not> isAbs \<and> ps = []")
    case True
    then show ?thesis by (simp add: parts_path_string normalizeArray_dot)
  next
    case False
    then show ?thesis using assms(2) by (simp only: parts_path_string [OF assms(1)] if_False)
  qed
  then have "path_normalize (path_string isAbs tr ps) = path_string isAbs (tr \<or> isAbs \<and> ps = []) ps"
    by (simp only: path_normalize_string absolute_path_string [OF assms(1)] trailing_path_string [OF assms(1)])
  then show ?thesis by (auto simp: path_string_def)
qed

section \<open>Resolution\<close>

lemma absolute_take: "take 1 p = [SLASH] \<Longrightarrow> isAbsolute p"
  by (simp add: isAbsolute_def)

lemma resolve_one: "path_resolve [Some p] = Inr (SLASH # js_join [SLASH] (normalizeArray (parts p) False))"
  by (cases "p = []") (auto simp: path_resolve_def process_cwd_def Let_def)

lemma resolve_two:
  "r \<noteq> [] \<Longrightarrow> \<not> isAbsolute r \<Longrightarrow>
    path_resolve [Some f, Some r] = Inr (SLASH # js_join [SLASH] (normalizeArray (parts f @ parts r) False))"
  by (cases "f = []") (auto simp: path_resolve_def process_cwd_def Let_def isAbsolute_def)

lemma resolve_skip: "path_resolve [Some f, Some []] = path_resolve [Some f]"
  by (simp add: path_resolve_def)

lemma walk_append: "walk a st (xs @ ys) = walk a (rev (walk a st xs)) ys"
  by (induction a st xs rule: walk.induct) simp_all

lemma walk_names: "names ns \<Longrightarrow> walk a st ns = rev st @ ns"
  by (induction ns arbitrary: st) simp_all

lemma walk_up: "names st \<Longrightarrow> n \<le> length st \<Longrightarrow> walk a st (replicate n dotdot @ ys) = walk a (drop n st) ys"
proof (induction n arbitrary: st)
  case (Suc n)
  then show ?case by (cases st) simp_all
qed simp

lemma names_rev [simp]: "names (rev ps) = names ps"
  by (simp add: names_def)

lemma names_drop: "names ps \<Longrightarrow> names (drop n ps)"
  by (auto simp: names_def dest: in_set_dropD)

lemma normalize_up:
  assumes "normalizeArray fs False = F" "names T" "k \<le> length F" "take k F = take k T"
  shows "normalizeArray (fs @ replicate (length F - k) dotdot @ drop k T) False = T"
proof -
  have F: "names F" using assms(1) normalizeArray_names by blast
  have "walk False [] (fs @ replicate (length F - k) dotdot @ drop k T)
      = walk False (rev F) (replicate (length F - k) dotdot @ drop k T)"
    using assms(1) by (simp add: walk_append [of False "[]" fs] normalizeArray_walk)
  also have "\<dots> = walk False (rev (take k F)) (drop k T)"
    using F assms(3) by (simp add: walk_up drop_rev)
  also have "\<dots> = T"
    using assms(2,4) by (simp add: walk_names names_drop)
  finally show ?thesis by (simp add: normalizeArray_walk)
qed

lemma same_take: "take (samePartsLength fs ts) fs = take (samePartsLength fs ts) ts"
  by (induction fs ts rule: samePartsLength.induct) simp_all

lemma same_le: "samePartsLength fs ts \<le> length fs \<and> samePartsLength fs ts \<le> length ts"
  by (induction fs ts rule: samePartsLength.induct) simp_all

lemma takeWhile_good: "good ps \<Longrightarrow> takeWhile (\<lambda>p. p = []) ps = []"
  by (cases ps) simp_all

lemma good_rev [simp]: "good (rev ps) = good ps"
  by (simp add: good_def)

lemma good_drop: "good ps \<Longrightarrow> good (drop n ps)"
  by (auto simp: good_def dest: in_set_dropD)

lemma trim_parts: "good ps \<Longrightarrow> relative_trim (split_at SLASH (path_substr (SLASH # js_join [SLASH] ps) 1)) = ps"
  by (cases "ps = []")
    (simp_all add: path_substr_def relative_trim_def split_join_good takeWhile_good Let_def)

lemma relative_parts:
  fixes f t defines "F \<equiv> normalizeArray (parts f) False" and "T \<equiv> normalizeArray (parts t) False"
  defines "k \<equiv> samePartsLength F T"
  shows "path_relative (Some f) (Some t) = Inr (js_join [SLASH] (replicate (length F - k) dotdot @ drop k T))"
proof -
  have "good F" "good T" unfolding F_def T_def by (simp_all add: normalizeArray_good parts_good)
  then show ?thesis
    unfolding path_relative_def resolve_one F_def [symmetric] T_def [symmetric] k_def
    by (simp add: trim_parts Let_def)
qed

section \<open>Properties\<close>

text \<open>
  C19: The backwards loop of \<^verbatim>\<open>normalizeArray\<close>, with its counter of pending \<^verbatim>\<open>..\<close>
  parts, computes the same list as reading the parts from the left with a
  stack of directories.
\<close>

theorem normalizeArray_reference: "normalizeArray ps a = walk a [] ps"
  by (rule normalizeArray_walk)

text \<open>Normalizing a path twice is normalizing it once.\<close>

theorem path_normalize_idempotent: "path_normalize (path_normalize p) = path_normalize p"
  unfolding path_normalize_string [of p]
  by (rule path_string_again [OF normalizeArray_good [OF parts_good] normalizeArray_idem])

text \<open>
  C20: \<^verbatim>\<open>relative\<close> and \<^verbatim>\<open>resolve\<close> are inverse: for any two path strings the relative
  path is computed without an error, and resolving it against the first path
  gives what the second path resolves to.
\<close>

theorem relative_resolve_roundtrip:
  "\<exists>r. path_relative (Some f) (Some t) = Inr r \<and> path_resolve [Some f, Some r] = path_resolve [Some t]"
proof -
  let ?F = "normalizeArray (parts f) False" and ?T = "normalizeArray (parts t) False"
  let ?k = "samePartsLength ?F ?T"
  let ?out = "replicate (length ?F - ?k) dotdot @ drop ?k ?T"
  have good: "good ?out"
    using good_drop [OF normalizeArray_good [OF parts_good]] by simp
  have T: "normalizeArray (parts f @ ?out) False = ?T"
    by (rule normalize_up [OF refl normalizeArray_names conjunct1 [OF same_le] same_take])
  have "path_resolve [Some f, Some (js_join [SLASH] ?out)] = path_resolve [Some t]"
  proof (cases "?out = []")
    case True
    then show ?thesis using T by (simp add: resolve_skip resolve_one)
  next
    case False
    then have "js_join [SLASH] ?out \<noteq> []" "\<not> isAbsolute (js_join [SLASH] ?out)"
      using join_good [OF good] by (simp_all add: absolute_iff)
    then show ?thesis using T by (simp add: resolve_two resolve_one parts_join [OF good])
  qed
  then show ?thesis using relative_parts by blast
qed

end
