(* ===== verification/Wc_Dict.thy ===== *)
theory Wc_Dict
  imports Js_Path
begin

text \<open>
  The dictionary of the Thai word cutter (module 2 of \<^verbatim>\<open>wordcut.js\<close>): loading,
  sorting, and the acceptor that walks a sorted array of words by binary
  search.  The word list that is a string literal of \<^verbatim>\<open>addFiles\<close> is the
  argument \<^verbatim>\<open>builtin\<close>, so every statement holds for any word list.
\<close>

section \<open>Acceptors\<close>

datatype rule = WordRule | NumberRule | SpaceRule | SingleSymbolRule | Rule0 | PartRule | DictRule

record acceptor =
  acc_rule :: rule
  strOffset :: nat
  isFinal :: bool
  isError :: bool
  acc_tag :: string
  acc_type :: string
  acc_w :: nat
  acc_mw :: "nat option"
  acc_unk :: "nat option"
  acc_patterns :: "ustring list"
  acc_l :: int
  acc_r :: int

text \<open>The fields every object literal of a rule has; those it lacks are undefined.\<close>

definition new_acceptor :: "rule \<Rightarrow> string \<Rightarrow> acceptor" where
  "new_acceptor ru ty = \<lparr> acc_rule = ru, strOffset = 0, isFinal = False, isError = False, acc_tag = ty,
     acc_type = ty, acc_w = 1, acc_mw = None, acc_unk = None, acc_patterns = [], acc_l = 0, acc_r = 0 \<rparr>"

section \<open>The dictionary\<close>

datatype seek_pos = LEFT | RIGHT

record WordcutDict =
  dict :: "ustring list"

text \<open>The filter callback of \<^verbatim>\<open>sortuniq\<close>, with the element before the current position.\<close>

fun uniq_after :: "ustring option \<Rightarrow> ustring list \<Rightarrow> ustring list" where
  "uniq_after prev [] = []"
| "uniq_after prev (item # arr) =
    (if prev = None \<or> prev \<noteq> Some item then item # uniq_after (Some item) arr
     else uniq_after (Some item) arr)"

definition sortuniq :: "ustring list \<Rightarrow> ustring list" where
  "sortuniq a = uniq_after None (sort a)"

definition finalizeDict :: "WordcutDict \<Rightarrow> WordcutDict" where
  "finalizeDict d = d\<lparr>dict := sortuniq (dict d)\<rparr>"

definition addWords :: "ustring list \<Rightarrow> bool option \<Rightarrow> WordcutDict \<Rightarrow> WordcutDict" where
  "addWords words finalize d =
    (let d1 = d\<lparr>dict := dict d @ words\<rparr>
     in if finalize = None \<or> finalize = Some True then finalizeDict d1 else d1)"

definition is_crlf :: "code_unit \<Rightarrow> bool" where
  "is_crlf c \<longleftrightarrow> c = 13 \<or> c = 10"

definition addFiles :: "ustring \<Rightarrow> ustring list \<Rightarrow> bool option \<Rightarrow> WordcutDict \<Rightarrow> WordcutDict" where
  "addFiles builtin files finalize d =
    (let words = filter (\<lambda>w. length w > 1) (split_runs is_crlf False builtin);
         d1 = addWords words (Some False) d
     in if finalize = None \<or> finalize = Some True then finalizeDict d1 else d1)"

datatype dict_path = PathUndefined | PathString ustring | PathArray "ustring list"

definition dict_dirname :: ustring where "dict_dirname = lit ''/dist/tmp''"

definition defaultDict :: ustring where
  "defaultDict = path_normalize (dict_dirname @ lit ''/..'') @ lit ''/data/tdict-*.txt''"

text \<open>The list of files \<^verbatim>\<open>init\<close> computes: the result of \<^verbatim>\<open>dictPath.concat\<close> is not kept.\<close>

definition init_dictPath :: "dict_path \<Rightarrow> bool \<Rightarrow> ustring list" where
  "init_dictPath dictPathFile withDefault =
    (let dictPath = (if withDefault \<or> dictPathFile = PathUndefined then [defaultDict] else [])
     in case dictPathFile of PathUndefined \<Rightarrow> dictPath
        | PathArray fs \<Rightarrow> dictPath
        | PathString f \<Rightarrow> dictPath @ [if f = [] then defaultDict else f])"

definition dict_init :: "ustring \<Rightarrow> dict_path \<Rightarrow> bool \<Rightarrow> ustring list option \<Rightarrow> WordcutDict" where
  "dict_init builtin dictPathFile withDefault words =
    (let d = addFiles builtin (init_dictPath dictPathFile withDefault) (Some False) \<lparr>dict = []\<rparr>;
         d1 = (case words of None \<Rightarrow> d | Some ws \<Rightarrow> addWords ws (Some False) d)
     in finalizeDict d1)"

function dictSeek :: "ustring list \<Rightarrow> int \<Rightarrow> int \<Rightarrow> code_unit \<Rightarrow> nat \<Rightarrow> seek_pos \<Rightarrow> int option \<Rightarrow> int option js" where
  "dictSeek d l r ch off pos ans =
    (if l \<le> r then
       let m = (l + r) div 2 in
       case js_nth d m of Inl e \<Rightarrow> Inl e
       | Inr dict_item \<Rightarrow>
         if length dict_item \<le> off then dictSeek d (m + 1) r ch off pos ans
         else let ch' = dict_item ! off in
           if ch' < ch then dictSeek d (m + 1) r ch off pos ans
           else if ch' > ch then dictSeek d l (m - 1) ch off pos ans
           else if pos = LEFT then dictSeek d l (m - 1) ch off pos (Some m)
           else dictSeek d (m + 1) r ch off pos (Some m)
     else Inr ans)"
  by pat_completeness auto
termination
  by (relation "measure (\<lambda>(d, l, r, ch, off, pos, ans). nat (r + 1 - l))") auto

declare dictSeek.simps [simp del]

definition dict_isFinal :: "ustring list \<Rightarrow> acceptor \<Rightarrow> bool js" where
  "dict_isFinal d a = js_bind (js_nth d (acc_l a)) (\<lambda>w. Inr (length w = strOffset a))"

definition dict_createAcceptor :: "ustring list \<Rightarrow> acceptor" where
  "dict_createAcceptor d = (new_acceptor DictRule ''DICT'')\<lparr>acc_l := 0, acc_r := int (length d) - 1\<rparr>"

text \<open>In comparisons and in arithmetic \<^verbatim>\<open>null\<close> is 0.\<close>

definition null_num :: "int option \<Rightarrow> int" where
  "null_num x = (case x of None \<Rightarrow> 0 | Some n \<Rightarrow> n)"

definition dict_transit :: "ustring list \<Rightarrow> acceptor \<Rightarrow> code_unit \<Rightarrow> acceptor js" where
  "dict_transit d a ch =
    js_bind (dictSeek d (acc_l a) (acc_r a) ch (strOffset a) LEFT None) (\<lambda>l.
      case l of None \<Rightarrow> Inr (a\<lparr>isError := True\<rparr>)
      | Some l \<Rightarrow>
        js_bind (dictSeek d l (acc_r a) ch (strOffset a) RIGHT None) (\<lambda>r.
          let a1 = a\<lparr>acc_l := l, acc_r := null_num r, strOffset := strOffset a + 1\<rparr>
          in js_bind (dict_isFinal d a1) (\<lambda>f. Inr (a1\<lparr>isFinal := f\<rparr>))))"

section \<open>Sorting\<close>

lemma set_uniq_after: "set (uniq_after prev xs) \<union> set_option prev = set xs \<union> set_option prev"
  by (induction prev xs rule: uniq_after.induct) auto

lemma sortuniq_set [simp]: "set (sortuniq a) = set a"
  using set_uniq_after [of None "sort a"] by (simp add: sortuniq_def)

lemma uniq_after_sorted:
  "sorted xs \<Longrightarrow> (\<forall>p\<in>set_option prev. \<forall>x\<in>set xs. p \<le> x) \<Longrightarrow>
    sorted_wrt (<) (uniq_after prev xs) \<and> (\<forall>p\<in>set_option prev. \<forall>x\<in>set (uniq_after prev xs). p < x)"
proof (induction prev xs rule: uniq_after.induct)
  case (2 prev item arr)
  have arr: "sorted arr" "\<forall>p\<in>set_option (Some item). \<forall>x\<in>set arr. p \<le> x" using 2(3) by simp_all
  show ?case
  proof (cases "prev = Some item")
    case True
    then show ?thesis using 2(2) [OF _ arr] by simp
  next
    case False
    then have U: "sorted_wrt (<) (uniq_after (Some item) arr)" "\<forall>x\<in>set (uniq_after (Some item) arr). item < x"
      using 2(1) [OF _ arr] by simp_all
    have "p < item" if "prev = Some p" for p
      using False that 2(4) by (simp add: order_le_less)
    then show ?thesis using False U by (cases prev) (auto dest: less_trans)
  qed
qed simp

lemma sortuniq_sorted: "sorted_wrt (<) (sortuniq a)"
  using uniq_after_sorted [of "sort a" None] by (simp add: sortuniq_def)

lemma dict_init_sorted: "sorted_wrt (<) (dict (dict_init builtin f wd ws))"
  by (simp add: dict_init_def finalizeDict_def sortuniq_sorted Let_def)

section \<open>Binary search\<close>

text \<open>
  The search compares the code unit at \<^verbatim>\<open>off\<close>; a word that is too short counts
  as smaller than every code unit.
\<close>

definition key_at :: "nat \<Rightarrow> ustring \<Rightarrow> ustring" where
  "key_at off w = (if length w \<le> off then [] else [w ! off])"

definition keys_mono :: "ustring list \<Rightarrow> nat \<Rightarrow> int \<Rightarrow> int \<Rightarrow> bool" where
  "keys_mono d off l r \<longleftrightarrow> 0 \<le> l \<and> r < int (length d) \<and>
    (\<forall>i j. l \<le> i \<longrightarrow> i \<le> j \<longrightarrow> j \<le> r \<longrightarrow> key_at off (d ! nat i) \<le> key_at off (d ! nat j))"

text \<open>Position \<^verbatim>\<open>i\<close> holds the code unit and is the outermost such position of the range.\<close>

definition hit :: "ustring list \<Rightarrow> nat \<Rightarrow> code_unit \<Rightarrow> int \<Rightarrow> int \<Rightarrow> int \<Rightarrow> bool" where
  "hit d off ch l r i \<longleftrightarrow> l \<le> i \<and> i \<le> r \<and> key_at off (d ! nat i) = [ch]"

definition outermost :: "seek_pos \<Rightarrow> ustring list \<Rightarrow> nat \<Rightarrow> code_unit \<Rightarrow> int \<Rightarrow> int \<Rightarrow> int option \<Rightarrow> int option \<Rightarrow> bool" where
  "outermost pos d off ch l r ans res \<longleftrightarrow>
    (case res of None \<Rightarrow> ans = None \<and> (\<forall>i. \<not> hit d off ch l r i)
     | Some k \<Rightarrow> ans = Some k \<and> (\<forall>i. \<not> hit d off ch l r i)
       \<or> hit d off ch l r k \<and> (\<forall>i. hit d off ch l r i \<longrightarrow> (if pos = LEFT then k \<le> i else i \<le> k)))"

lemma keys_mono_sub: "keys_mono d off l r \<Longrightarrow> l \<le> l' \<Longrightarrow> r' \<le> r \<Longrightarrow> keys_mono d off l' r'"
  unfolding keys_mono_def by (meson order.trans le_less_trans)

lemma key_cmp:
  "length w \<le> off \<Longrightarrow> key_at off w < [ch]"
  "off < length w \<Longrightarrow> w ! off < ch \<Longrightarrow> key_at off w < [ch]"
  "off < length w \<Longrightarrow> w ! off > ch \<Longrightarrow> key_at off w > [ch]"
  "off < length w \<Longrightarrow> w ! off = ch \<Longrightarrow> key_at off w = [ch]"
  by (simp_all add: key_at_def)

lemma keys_monoD:
  "keys_mono d off l r \<Longrightarrow> l \<le> i \<Longrightarrow> i \<le> j \<Longrightarrow> j \<le> r \<Longrightarrow> key_at off (d ! nat i) \<le> key_at off (d ! nat j)"
  unfolding keys_mono_def by blast

text \<open>Dropping the half that cannot hold an outer hit.\<close>

lemma hit_right:
  assumes "keys_mono d off l r" "l \<le> m" "m \<le> r" "key_at off (d ! nat m) < [ch]"
  shows "hit d off ch (m + 1) r i = hit d off ch l r i"
proof -
  have "m < i" if "hit d off ch l r i"
  proof (rule ccontr)
    assume "\<not> m < i"
    then have "key_at off (d ! nat i) \<le> key_at off (d ! nat m)"
      using keys_monoD [OF assms(1), of i m] assms(3) that by (simp add: hit_def)
    with assms(4) that show False by (simp add: hit_def)
  qed
  then show ?thesis using assms(2) by (auto simp: hit_def)
qed

lemma hit_left:
  assumes "keys_mono d off l r" "l \<le> m" "m \<le> r" "[ch] < key_at off (d ! nat m)"
  shows "hit d off ch l (m - 1) i = hit d off ch l r i"
proof -
  have "i < m" if "hit d off ch l r i"
  proof (rule ccontr)
    assume "\<not> i < m"
    then have "key_at off (d ! nat m) \<le> key_at off (d ! nat i)"
      using keys_monoD [OF assms(1), of m i] assms(2) that by (simp add: hit_def)
    with assms(4) that show False by (simp add: hit_def)
  qed
  then show ?thesis using assms(3) by (auto simp: hit_def)
qed

lemma outermost_hit:
  assumes "l \<le> m" "m \<le> r" "key_at off (d ! nat m) = [ch]"
  shows "outermost LEFT d off ch l (m - 1) (Some m) res \<Longrightarrow> outermost LEFT d off ch l r ans res"
    and "outermost RIGHT d off ch (m + 1) r (Some m) res \<Longrightarrow> outermost RIGHT d off ch l r ans res"
proof -
  have m: "hit d off ch l r m" using assms by (simp add: hit_def)
  have sub: "hit d off ch l (m - 1) i \<longleftrightarrow> hit d off ch l r i \<and> i < m"
    "hit d off ch (m + 1) r i \<longleftrightarrow> hit d off ch l r i \<and> m < i" for i
    using assms by (auto simp: hit_def)
  show "outermost LEFT d off ch l r ans res" if "outermost LEFT d off ch l (m - 1) (Some m) res"
    using that m unfolding outermost_def sub by (cases res) (auto simp: not_less)
  show "outermost RIGHT d off ch l r ans res" if "outermost RIGHT d off ch (m + 1) r (Some m) res"
    using that m unfolding outermost_def sub by (cases res) (auto simp: not_less)
qed

lemma outermost_cong:
  assumes "\<And>i. hit d off ch l r i = hit d off ch l' r' i"
  shows "outermost pos d off ch l r ans res = outermost pos d off ch l' r' ans res"
  unfolding outermost_def assms by (rule refl)

lemma dictSeek_correct:
  "keys_mono d off l r \<Longrightarrow> \<exists>res. dictSeek d l r ch off pos ans = Inr res \<and> outermost pos d off ch l r ans res"
proof (induction d l r ch off pos ans rule: dictSeek.induct)
  case (1 d l r ch off pos ans)
  show ?case
  proof (cases "l \<le> r")
    case False
    then show ?thesis by (subst dictSeek.simps) (auto simp: outermost_def hit_def split: option.splits)
  next
    case True
    define m where "m = (l + r) div 2"
    have m: "l \<le> m" "m \<le> r" using True by (auto simp: m_def)
    have nth: "js_nth d m = Inr (d ! nat m)" using m 1(6) by (simp add: keys_mono_def)
    have right: "keys_mono d off (m + 1) r" and left: "keys_mono d off l (m - 1)"
      using keys_mono_sub [OF 1(6)] m by simp_all
    note step = dictSeek.simps [of d l r] m_def [symmetric] nth
    consider (below) "key_at off (d ! nat m) < [ch]" "length (d ! nat m) \<le> off \<or> d ! nat m ! off < ch"
      | (above) "off < length (d ! nat m)" "d ! nat m ! off > ch"
      | (equal) "off < length (d ! nat m)" "d ! nat m ! off = ch"
      using key_cmp by (metis linorder_less_linear not_le)
    then show ?thesis
    proof cases
      case below
      then have "dictSeek d l r ch off pos ans = dictSeek d (m + 1) r ch off pos ans"
        using True by (auto simp: step Let_def)
      moreover have "\<exists>res. dictSeek d (m + 1) r ch off pos ans = Inr res \<and> outermost pos d off ch (m + 1) r ans res"
        using below(2) 1(1,2) [OF True m_def nth] right by (cases "length (d ! nat m) \<le> off") auto
      ultimately show ?thesis
        using outermost_cong [OF hit_right [OF 1(6) m below(1)]] by simp
    next
      case above
      then have "dictSeek d l r ch off pos ans = dictSeek d l (m - 1) ch off pos ans"
        using True by (simp add: step Let_def)
      moreover have "\<exists>res. dictSeek d l (m - 1) ch off pos ans = Inr res \<and> outermost pos d off ch l (m - 1) ans res"
        using above 1(3) [OF True m_def nth] left by simp
      ultimately show ?thesis
        using outermost_cong [OF hit_left [OF 1(6) m key_cmp(3) [OF above]]] by simp
    next
      case equal
      note eq = key_cmp(4) [OF equal]
      show ?thesis
      proof (cases pos)
        case LEFT
        then have "dictSeek d l r ch off pos ans = dictSeek d l (m - 1) ch off pos (Some m)"
          using True equal by (simp add: step Let_def)
        then show ?thesis
          using equal LEFT 1(4) [OF True m_def nth] left outermost_hit(1) [OF m eq] by fastforce
      next
        case RIGHT
        then have "dictSeek d l r ch off pos ans = dictSeek d (m + 1) r ch off pos (Some m)"
          using True equal by (simp add: step Let_def)
        then show ?thesis
          using equal RIGHT 1(5) [OF True m_def nth] right outermost_hit(2) [OF m eq] by fastforce
      qed
    qed
  qed
qed

section \<open>The acceptor follows the words with a given prefix\<close>

definition starts :: "ustring \<Rightarrow> ustring \<Rightarrow> bool" where
  "starts s w \<longleftrightarrow> take (length s) w = s"

definition reads :: "ustring list \<Rightarrow> ustring \<Rightarrow> acceptor \<Rightarrow> bool" where
  "reads d s a \<longleftrightarrow> strOffset a = length s \<and> 0 \<le> acc_l a \<and> acc_r a < int (length d) \<and>
    (\<forall>i. acc_l a \<le> i \<and> i \<le> acc_r a \<longleftrightarrow> 0 \<le> i \<and> i < int (length d) \<and> starts s (d ! nat i))"

lemma startsE: "starts s w \<Longrightarrow> \<exists>x. w = s @ x"
  unfolding starts_def by (metis append_take_drop_id)

lemma starts_append [simp]: "starts s (s @ x)"
  by (simp add: starts_def)

lemma append_le_iff: "s @ x \<le> s @ (y :: ustring) \<longleftrightarrow> x \<le> y"
  by (induction s) simp_all

lemma key_after: "key_at (length s) (s @ x) = (case x of [] \<Rightarrow> [] | c # _ \<Rightarrow> [c])"
  by (cases x) (simp_all add: key_at_def)

lemma key_after_mono: "x \<le> y \<Longrightarrow> key_at (length s) (s @ x) \<le> key_at (length s) (s @ y)"
  unfolding key_after by (cases x; cases y) auto

lemma starts_snoc: "starts (s @ [ch]) w \<longleftrightarrow> starts s w \<and> key_at (length s) w = [ch]"
proof
  assume "starts (s @ [ch]) w"
  then obtain x where "w = s @ ch # x" using startsE by fastforce
  then show "starts s w \<and> key_at (length s) w = [ch]" by (simp add: key_after)
next
  assume "starts s w \<and> key_at (length s) w = [ch]"
  then obtain x where "w = s @ ch # x"
    using startsE [of s w] by (auto simp: key_after split: list.splits)
  then show "starts (s @ [ch]) w" using starts_append [of "s @ [ch]" x] by simp
qed

lemma sorted_nth_le:
  "sorted_wrt (<) d \<Longrightarrow> 0 \<le> i \<Longrightarrow> i \<le> j \<Longrightarrow> j < int (length d) \<Longrightarrow> d ! nat i \<le> (d ! nat j :: ustring)"
  using sorted_wrt_nth_less [of "(<)" d "nat i" "nat j"] by (cases "i = j") (auto intro: less_imp_le)

lemma reads_mono:
  assumes "sorted_wrt (<) d" "reads d s a"
  shows "keys_mono d (strOffset a) (acc_l a) (acc_r a)"
  unfolding keys_mono_def
proof (intro conjI allI impI)
  fix i j assume ij: "acc_l a \<le> i" "i \<le> j" "j \<le> acc_r a"
  have st: "strOffset a = length s" "0 \<le> i" "j < int (length d)" "starts s (d ! nat i)" "starts s (d ! nat j)"
    using assms(2) ij unfolding reads_def by (meson order.trans)+
  obtain x y where "d ! nat i = s @ x" "d ! nat j = s @ y" using st startsE by metis
  moreover have "d ! nat i \<le> d ! nat j" using sorted_nth_le [OF assms(1) st(2) ij(2) st(3)] .
  ultimately show "key_at (strOffset a) (d ! nat i) \<le> key_at (strOffset a) (d ! nat j)"
    using st(1) key_after_mono by (simp add: append_le_iff)
qed (use assms(2) in \<open>simp_all add: reads_def\<close>)

lemma reads_hit:
  "reads d s a \<Longrightarrow> hit d (strOffset a) ch (acc_l a) (acc_r a) i \<longleftrightarrow>
    0 \<le> i \<and> i < int (length d) \<and> starts (s @ [ch]) (d ! nat i)"
  unfolding hit_def reads_def starts_snoc by auto

lemma hits_interval:
  assumes mono: "keys_mono d off l r" and l': "hit d off ch l r l'" "\<And>i. hit d off ch l r i \<Longrightarrow> l' \<le> i"
    and r': "hit d off ch l' r r'" "\<And>i. hit d off ch l' r i \<Longrightarrow> i \<le> r'"
  shows "l' \<le> i \<and> i \<le> r' \<longleftrightarrow> hit d off ch l r i"
proof
  assume i: "l' \<le> i \<and> i \<le> r'"
  then have "l \<le> l'" "r' \<le> r" using l' r' by (simp_all add: hit_def)
  then have "key_at off (d ! nat l') \<le> key_at off (d ! nat i)" "key_at off (d ! nat i) \<le> key_at off (d ! nat r')"
    using keys_monoD [OF mono] i by auto
  then show "hit d off ch l r i" using i l' r' \<open>l \<le> l'\<close> \<open>r' \<le> r\<close> by (simp add: hit_def)
next
  assume h: "hit d off ch l r i"
  then have "l' \<le> i" by (rule l'(2))
  then show "l' \<le> i \<and> i \<le> r'" using h r'(2) by (simp add: hit_def)
qed

lemma final_iff:
  assumes "sorted_wrt (<) d" "0 \<le> l" "l < int (length d)" "starts s (d ! nat l)"
    and "\<And>i. 0 \<le> i \<Longrightarrow> i < int (length d) \<Longrightarrow> starts s (d ! nat i) \<Longrightarrow> l \<le> i"
  shows "length (d ! nat l) = length s \<longleftrightarrow> s \<in> set d"
proof
  assume "length (d ! nat l) = length s"
  then have "d ! nat l = s" using assms(4) by (simp add: starts_def)
  then show "s \<in> set d" using assms(2,3) by (metis nat_less_iff nth_mem)
next
  assume "s \<in> set d"
  then obtain k where k: "k < length d" "d ! k = s" by (meson in_set_conv_nth)
  then have "l \<le> int k" using assms(5) [of "int k"] by (simp add: starts_def)
  then have "d ! nat l \<le> s" using sorted_nth_le [OF assms(1,2), of "int k"] k by simp
  moreover obtain x where x: "d ! nat l = s @ x" using startsE [OF assms(4)] by blast
  ultimately have "x = []" using append_le_iff [of s x "[]"] by (cases x) simp_all
  then show "length (d ! nat l) = length s" using x by simp
qed

lemma dict_transit_correct:
  assumes sorted: "sorted_wrt (<) d" and a: "reads d s a"
  shows "\<exists>a'. dict_transit d a ch = Inr a' \<and>
    (if \<exists>w\<in>set d. starts (s @ [ch]) w
     then reads d (s @ [ch]) a' \<and> isError a' = isError a \<and> (isFinal a' \<longleftrightarrow> s @ [ch] \<in> set d) else isError a')"
proof -
  let ?hit = "hit d (strOffset a) ch (acc_l a) (acc_r a)"
  note mono = reads_mono [OF assms] and hit = reads_hit [OF a]
  have ex: "(\<exists>w\<in>set d. starts (s @ [ch]) w) \<longleftrightarrow> (\<exists>i. ?hit i)"
    unfolding hit by (metis in_set_conv_nth nat_int nat_less_iff nth_mem of_nat_0_le_iff of_nat_less_iff)
  obtain res where res: "dictSeek d (acc_l a) (acc_r a) ch (strOffset a) LEFT None = Inr res"
    "outermost LEFT d (strOffset a) ch (acc_l a) (acc_r a) None res" using dictSeek_correct [OF mono] by blast
  show ?thesis
  proof (cases res)
    case None
    then show ?thesis using res ex by (simp add: dict_transit_def outermost_def)
  next
    case (Some l')
    then have l': "?hit l'" "\<And>i. ?hit i \<Longrightarrow> l' \<le> i" using res(2) by (simp_all add: outermost_def)
    have mono': "keys_mono d (strOffset a) l' (acc_r a)"
      using keys_mono_sub [OF mono] l'(1) by (simp add: hit_def)
    obtain res' where res': "dictSeek d l' (acc_r a) ch (strOffset a) RIGHT None = Inr res'"
      "outermost RIGHT d (strOffset a) ch l' (acc_r a) None res'" using dictSeek_correct [OF mono'] by blast
    have "hit d (strOffset a) ch l' (acc_r a) l'" using l'(1) by (simp add: hit_def)
    then obtain r' where r': "res' = Some r'" "hit d (strOffset a) ch l' (acc_r a) r'"
      "\<And>i. hit d (strOffset a) ch l' (acc_r a) i \<Longrightarrow> i \<le> r'"
      using res'(2) by (auto simp: outermost_def split: option.splits)
    note int = hits_interval [OF mono l' r'(2,3)]
    have l: "0 \<le> l'" "l' < int (length d)" "starts (s @ [ch]) (d ! nat l')" using l'(1) hit by simp_all
    have r: "r' < int (length d)" using int [of r'] r'(2) hit [of ch r'] by (simp add: hit_def)
    have fin: "length (d ! nat l') = length (s @ [ch]) \<longleftrightarrow> s @ [ch] \<in> set d"
      using final_iff [OF sorted l] l'(2) hit by blast
    have off: "strOffset a = length s" using a by (simp add: reads_def)
    let ?a = "a\<lparr>acc_l := l', acc_r := r', strOffset := strOffset a + 1, isFinal := (s @ [ch] \<in> set d)\<rparr>"
    have "dict_transit d a ch = Inr ?a"
      using res(1) res'(1) Some r'(1) l(1,2) fin off
      by (simp add: dict_transit_def null_num_def dict_isFinal_def Let_def)
    moreover have "reads d (s @ [ch]) ?a"
      unfolding reads_def using off l(1) r int hit [of ch] by simp
    ultimately show ?thesis using ex l'(1) by auto
  qed
qed

lemma reads_create: "reads d [] (dict_createAcceptor d)"
  by (auto simp: reads_def dict_createAcceptor_def new_acceptor_def starts_def)

section \<open>No access outside the array\<close>

lemma dictSeek_step:
  assumes "l \<le> r" "js_nth d m = Inr w" "m = (l + r) div 2"
  shows "dictSeek d l r ch off pos ans \<in>
    {dictSeek d (m + 1) r ch off pos ans, dictSeek d (m + 1) r ch off pos (Some m),
     dictSeek d l (m - 1) ch off pos ans, dictSeek d l (m - 1) ch off pos (Some m)}"
  using assms(1,2) dictSeek.simps [of d l r ch off pos ans] unfolding assms(3) [symmetric] by (simp add: Let_def)

definition found_in :: "int \<Rightarrow> int \<Rightarrow> int option \<Rightarrow> int option js \<Rightarrow> bool" where
  "found_in l r ans m \<longleftrightarrow> (\<exists>res. m = Inr res \<and> (res = ans \<or> (\<exists>k. res = Some k \<and> l \<le> k \<and> k \<le> r)))"

lemma found_in_mono:
  "found_in l r ans m \<Longrightarrow> l' \<le> l \<Longrightarrow> r \<le> r' \<Longrightarrow> ans = ans' \<or> (\<exists>k. ans = Some k \<and> l' \<le> k \<and> k \<le> r')
    \<Longrightarrow> found_in l' r' ans' m"
  unfolding found_in_def by auto

lemma dictSeek_bounds:
  "0 \<le> l \<Longrightarrow> r < int (length d) \<Longrightarrow> found_in l r ans (dictSeek d l r ch off pos ans)"
proof (induction "nat (r + 1 - l)" arbitrary: l r ans rule: less_induct)
  case less
  show ?case
  proof (cases "l \<le> r")
    case True
    let ?m = "(l + r) div 2"
    have m: "l \<le> ?m" "?m \<le> r" using True by auto
    then have "js_nth d ?m = Inr (d ! nat ?m)" using less.prems by simp
    note step = dictSeek_step [OF True this refl, of ch off pos ans]
    have "found_in (?m + 1) r ans' (dictSeek d (?m + 1) r ch off pos ans')"
      "found_in l (?m - 1) ans' (dictSeek d l (?m - 1) ch off pos ans')" for ans'
      using m less.prems by (intro less.hyps; simp)+
    note IH = this(1) [THEN found_in_mono] this(2) [THEN found_in_mono]
    show ?thesis using step m by (elim insertE emptyE) (auto intro: IH)
  qed (subst dictSeek.simps, simp add: found_in_def)
qed

definition in_dict :: "ustring list \<Rightarrow> acceptor \<Rightarrow> bool" where
  "in_dict d a \<longleftrightarrow> 0 \<le> acc_l a \<and> acc_r a < int (length d)"

lemma dict_transit_total:
  assumes "in_dict d a"
  shows "\<exists>a'. dict_transit d a ch = Inr a' \<and> in_dict d a' \<and> acc_rule a' = acc_rule a
    \<and> (if isError a' then isError a' else strOffset a' = strOffset a + 1)"
proof -
  obtain res where res: "dictSeek d (acc_l a) (acc_r a) ch (strOffset a) LEFT None = Inr res"
    "res = None \<or> (\<exists>k. res = Some k \<and> acc_l a \<le> k \<and> k \<le> acc_r a)"
    using dictSeek_bounds assms unfolding in_dict_def found_in_def by blast
  show ?thesis
  proof (cases res)
    case None
    then show ?thesis using res assms by (simp add: dict_transit_def in_dict_def)
  next
    case (Some l')
    then have l': "0 \<le> l'" "l' \<le> acc_r a" "l' < int (length d)" using res assms by (simp_all add: in_dict_def)
    obtain res' where res': "dictSeek d l' (acc_r a) ch (strOffset a) RIGHT None = Inr res'"
      "res' = None \<or> (\<exists>k. res' = Some k \<and> l' \<le> k \<and> k \<le> acc_r a)"
      using dictSeek_bounds [OF l'(1)] assms unfolding in_dict_def found_in_def by blast
    have "null_num res' < int (length d)" using res' l' assms by (auto simp: null_num_def in_dict_def)
    then show ?thesis using res Some res'(1) l' by (simp add: dict_transit_def dict_isFinal_def in_dict_def Let_def)
  qed
qed

section \<open>Properties\<close>

text \<open>Feeding a string to a fresh acceptor until it fails.\<close>

fun dict_run :: "ustring list \<Rightarrow> acceptor \<Rightarrow> ustring \<Rightarrow> acceptor js" where
  "dict_run d a [] = Inr a"
| "dict_run d a (c # cs) = js_bind (dict_transit d a c) (\<lambda>a'. if isError a' then Inr a' else dict_run d a' cs)"

lemma dict_run_reads:
  assumes "sorted_wrt (<) d"
  shows "reads d s a \<Longrightarrow> \<not> isError a \<Longrightarrow> (t = [] \<Longrightarrow> (isFinal a \<longleftrightarrow> s \<in> set d) \<and> (\<exists>w\<in>set d. starts s w)) \<Longrightarrow>
    \<exists>a'. dict_run d a t = Inr a' \<and> (isError a' \<longleftrightarrow> \<not> (\<exists>w\<in>set d. starts (s @ t) w))
      \<and> (\<not> isError a' \<longrightarrow> (isFinal a' \<longleftrightarrow> s @ t \<in> set d))"
proof (induction t arbitrary: s a)
  case (Cons c t)
  obtain a' where a': "dict_transit d a c = Inr a'" "if \<exists>w\<in>set d. starts (s @ [c]) w
     then reads d (s @ [c]) a' \<and> isError a' = isError a \<and> (isFinal a' \<longleftrightarrow> s @ [c] \<in> set d) else isError a'"
    using dict_transit_correct [OF assms Cons.prems(1)] by blast
  show ?case
  proof (cases "\<exists>w\<in>set d. starts (s @ [c]) w")
    case True
    then show ?thesis using a' Cons.IH [of "s @ [c]" a'] Cons.prems(2) by simp
  next
    case False
    then have "\<not> (\<exists>w\<in>set d. starts (s @ c # t) w)"
      using startsE starts_append [of "s @ [c]"] by (metis append.assoc append_Cons append_Nil)
    then show ?thesis using a' False by simp
  qed
qed auto

text \<open>
  C21: The dictionary acceptor decides the dictionary.  For every word list and
  every additional word list, feeding a nonempty string to a fresh acceptor
  never reads outside the array; it ends in the error state exactly when no
  word of the dictionary starts with the string, and otherwise it is final
  exactly when the string is a word of the dictionary.
\<close>

theorem dict_acceptor_decides:
  assumes "d = dict (dict_init builtin f withDefault words)" "s \<noteq> []"
  shows "\<exists>a. dict_run d (dict_createAcceptor d) s = Inr a
    \<and> (isError a \<longleftrightarrow> \<not> (\<exists>w\<in>set d. take (length s) w = s))
    \<and> (\<not> isError a \<longrightarrow> (isFinal a \<longleftrightarrow> s \<in> set d))"
  using dict_run_reads [OF _ reads_create, of d s] assms dict_init_sorted
  by (simp add: starts_def dict_createAcceptor_def new_acceptor_def)

theorem dict_acceptor_decides_witness:
  "\<exists>a. dict_run [lit ''ab'', lit ''abc'', lit ''b''] (dict_createAcceptor [lit ''ab'', lit ''abc'', lit ''b'']) (lit ''ab'') = Inr a
    \<and> (\<not> isError a \<longrightarrow> (isFinal a \<longleftrightarrow> lit ''ab'' \<in> {lit ''ab'', lit ''abc'', lit ''b''}))"
proof -
  have "[lit ''ab'', lit ''abc'', lit ''b''] = dict (dict_init (lit ''abc'' @ [10] @ lit ''ab'') PathUndefined False (Some [lit ''b'']))"
    by code_simp
  from dict_acceptor_decides [OF this, of "lit ''ab''"] show ?thesis by (auto simp: lit_def)
qed

text \<open>
  C22: Whatever its arguments are, \<^verbatim>\<open>init\<close> leaves a strictly increasing array that
  holds exactly the words of more than one code unit of the built-in list and
  the additional words; in particular the dictionary files named by the caller
  contribute nothing.
\<close>

theorem dict_init_contents:
  "sorted_wrt (<) (dict (dict_init builtin f withDefault words))
   \<and> set (dict (dict_init builtin f withDefault words)) =
      {w \<in> set (split_runs is_crlf False builtin). length w > 1} \<union> (case words of None \<Rightarrow> {} | Some ws \<Rightarrow> set ws)"
  using dict_init_sorted
  by (auto simp: dict_init_def finalizeDict_def addFiles_def addWords_def Let_def split: option.splits)

end
