(* ===== verification/Wc_Acceptors.thy ===== *)
theory Wc_Acceptors
  imports Wc_Dict
begin

text \<open>
  The Latin and Thai rules of the word cutter (modules 3 and 6) and the set of
  live acceptors (module 1).  A rule object is a constructor of
  \<^typ>\<open>rule\<close>; the method \<^verbatim>\<open>transit\<close> of the object it creates is the case of
  \<^verbatim>\<open>acc_transit\<close> for that constructor.
\<close>

section \<open>Latin rules\<close>

text \<open>
  \<^verbatim>\<open>toLowerCase\<close> on one code unit, as far as the comparison with \<^verbatim>\<open>a\<close> and \<^verbatim>\<open>z\<close>
  sees it: besides the ASCII letters only U+0130 and U+212A have a lower case
  form that starts with an ASCII letter.
\<close>

definition toLowerCase :: "code_unit \<Rightarrow> ustring" where
  "toLowerCase ch =
    (if 65 \<le> ch \<and> ch \<le> 90 then [ch + 32]
     else if ch = 304 then [105, 775] else if ch = 8490 then [107] else [ch])"

definition acc_advance :: "acceptor \<Rightarrow> acceptor" where
  "acc_advance a = a\<lparr>isFinal := True, strOffset := strOffset a + 1\<rparr>"

definition acc_fail :: "acceptor \<Rightarrow> acceptor" where
  "acc_fail a = a\<lparr>isError := True\<rparr>"

definition WordRule_createAcceptor :: "(string \<rightharpoonup> acceptor) \<Rightarrow> acceptor option" where
  "WordRule_createAcceptor tag =
    (if tag ''WORD_RULE'' \<noteq> None then None else Some (new_acceptor WordRule ''WORD_RULE''))"

definition WordRule_transit :: "acceptor \<Rightarrow> code_unit \<Rightarrow> acceptor" where
  "WordRule_transit a ch =
    (let lch = toLowerCase ch in if [97] \<le> lch \<and> lch \<le> [122] then acc_advance a else acc_fail a)"

definition NumberRule_createAcceptor :: "(string \<rightharpoonup> acceptor) \<Rightarrow> acceptor option" where
  "NumberRule_createAcceptor tag =
    (if tag ''NUMBER_RULE'' \<noteq> None then None else Some (new_acceptor NumberRule ''NUMBER_RULE''))"

definition NumberRule_transit :: "acceptor \<Rightarrow> code_unit \<Rightarrow> acceptor" where
  "NumberRule_transit a ch = (if 48 \<le> ch \<and> ch \<le> 57 then acc_advance a else acc_fail a)"

definition SpaceRule_createAcceptor :: "(string \<rightharpoonup> acceptor) \<Rightarrow> acceptor option" where
  "SpaceRule_createAcceptor tag =
    (if tag ''SPACE_RULE'' \<noteq> None then None else Some (new_acceptor SpaceRule ''SPACE_RULE''))"

definition SpaceRule_transit :: "acceptor \<Rightarrow> code_unit \<Rightarrow> acceptor" where
  "SpaceRule_transit a ch =
    (if ch = 32 \<or> ch = 9 \<or> ch = 13 \<or> ch = 10 \<or> ch = 160 \<or> ch = 8195 then acc_advance a else acc_fail a)"

definition SingleSymbolRule_createAcceptor :: "(string \<rightharpoonup> acceptor) \<Rightarrow> acceptor option" where
  "SingleSymbolRule_createAcceptor tag = Some (new_acceptor SingleSymbolRule ''SINSYM'')"

text \<open>The character class lists at sign, parentheses, slash, comma, hyphen, full stop, quote and backquote.\<close>

definition SingleSymbolRule_transit :: "acceptor \<Rightarrow> code_unit \<Rightarrow> acceptor" where
  "SingleSymbolRule_transit a ch =
    (if strOffset a = 0 \<and> ch \<in> set [64, 40, 41, 47, 44, 45, 46, 34, 96] then acc_advance a else acc_fail a)"

definition LatinRules :: "rule list" where
  "LatinRules = [WordRule, SpaceRule, SingleSymbolRule, NumberRule]"

section \<open>Thai rules\<close>

definition thai_consonant :: "code_unit \<Rightarrow> bool" where
  "thai_consonant ch \<longleftrightarrow> 3585 \<le> ch \<and> ch \<le> 3630"

definition isMatch :: "ustring \<Rightarrow> nat \<Rightarrow> code_unit \<Rightarrow> bool" where
  "isMatch pat offset ch =
    (if length pat \<le> offset then False
     else let pch = pat ! offset in
       pch = ch \<or> (pch \<in> set [3585, 3586] \<and> thai_consonant ch) \<or> (pch \<in> set [3617, 3610] \<and> thai_consonant ch)
       \<or> (pch = 3657 \<and> 3656 \<le> ch \<and> ch \<le> 3659))"

definition Rule0_pat :: ustring where "Rule0_pat = [3648, 3627, 3585, 3655, 3617]"

definition Rule0_createAcceptor :: "(string \<rightharpoonup> acceptor) \<Rightarrow> acceptor option" where
  "Rule0_createAcceptor tag = Some (new_acceptor Rule0 ''THAI_RULE'')"

definition Rule0_transit :: "acceptor \<Rightarrow> code_unit \<Rightarrow> acceptor" where
  "Rule0_transit a ch =
    (if isMatch Rule0_pat (strOffset a) ch
     then a\<lparr>isFinal := (strOffset a + 1 = length Rule0_pat), strOffset := strOffset a + 1\<rparr>
     else acc_fail a)"

definition PartRule_patterns :: "ustring list" where
  "PartRule_patterns = [[3649, 3585], [3648, 3585], [3585, 3657], [3585, 3585, 3660], [3585, 3634],
     [3585, 3637], [3585, 3636], [3585, 3639, 3585]]"

definition PartRule_createAcceptor :: "(string \<rightharpoonup> acceptor) \<Rightarrow> acceptor option" where
  "PartRule_createAcceptor tag =
    Some ((new_acceptor PartRule ''PART'')\<lparr>acc_unk := Some 1, acc_patterns := PartRule_patterns\<rparr>)"

definition PartRule_transit :: "acceptor \<Rightarrow> code_unit \<Rightarrow> acceptor" where
  "PartRule_transit a ch =
    (let offset = strOffset a;
         ps = filter (\<lambda>pat. isMatch pat offset ch) (acc_patterns a);
         a1 = a\<lparr>acc_patterns := ps\<rparr>
     in if ps \<noteq> [] then
          a1\<lparr>isFinal := list_ex (\<lambda>pat. length pat = 1 + offset) ps, strOffset := strOffset a1 + 1\<rparr>
        else acc_fail a1)"

definition ThaiRules :: "rule list" where "ThaiRules = [Rule0, PartRule]"

section \<open>Acceptors\<close>

definition createAcceptor :: "ustring list \<Rightarrow> rule \<Rightarrow> (string \<rightharpoonup> acceptor) \<Rightarrow> acceptor option" where
  "createAcceptor d ru tag = (case ru of
     WordRule \<Rightarrow> WordRule_createAcceptor tag | NumberRule \<Rightarrow> NumberRule_createAcceptor tag
   | SpaceRule \<Rightarrow> SpaceRule_createAcceptor tag | SingleSymbolRule \<Rightarrow> SingleSymbolRule_createAcceptor tag
   | Rule0 \<Rightarrow> Rule0_createAcceptor tag | PartRule \<Rightarrow> PartRule_createAcceptor tag
   | DictRule \<Rightarrow> Some (dict_createAcceptor d))"

definition acc_transit :: "ustring list \<Rightarrow> code_unit \<Rightarrow> acceptor \<Rightarrow> acceptor js" where
  "acc_transit d ch a = (case acc_rule a of
     WordRule \<Rightarrow> Inr (WordRule_transit a ch) | NumberRule \<Rightarrow> Inr (NumberRule_transit a ch)
   | SpaceRule \<Rightarrow> Inr (SpaceRule_transit a ch) | SingleSymbolRule \<Rightarrow> Inr (SingleSymbolRule_transit a ch)
   | Rule0 \<Rightarrow> Inr (Rule0_transit a ch) | PartRule \<Rightarrow> Inr (PartRule_transit a ch)
   | DictRule \<Rightarrow> dict_transit d a ch)"

record Acceptors =
  creators :: "rule list"
  current :: "acceptor list"
  tag :: "string \<rightharpoonup> acceptor"

definition Acceptors_init :: Acceptors where
  "Acceptors_init = \<lparr>creators = [], current = [], tag = Map.empty\<rparr>"

definition Acceptors_reset :: "Acceptors \<Rightarrow> Acceptors" where
  "Acceptors_reset s = s\<lparr>current := [], tag := Map.empty\<rparr>"

definition Acceptors_transit :: "ustring list \<Rightarrow> code_unit \<Rightarrow> Acceptors \<Rightarrow> Acceptors js" where
  "Acceptors_transit d ch s =
    (let created = List.map_filter (\<lambda>c. createAcceptor d c (tag s)) (creators s)
     in js_bind (js_map (acc_transit d ch) (current s @ created)) (\<lambda>as.
       let live = filter (\<lambda>a. \<not> isError a) as
       in Inr (s\<lparr>current := live, tag := fold (\<lambda>a t. t(acc_tag a \<mapsto> a)) live Map.empty\<rparr>)))"

definition getFinalAcceptors :: "Acceptors \<Rightarrow> acceptor list" where
  "getFinalAcceptors s = filter isFinal (current s)"

section \<open>Live acceptors\<close>

text \<open>After \<^verbatim>\<open>n\<close> code units a live acceptor has read at least one and at most \<^verbatim>\<open>n\<close> of them.\<close>

definition acc_ok :: "ustring list \<Rightarrow> nat \<Rightarrow> acceptor \<Rightarrow> bool" where
  "acc_ok d n a \<longleftrightarrow> strOffset a \<le> n \<and> (acc_rule a = DictRule \<longrightarrow> in_dict d a)"

definition live_ok :: "ustring list \<Rightarrow> nat \<Rightarrow> Acceptors \<Rightarrow> bool" where
  "live_ok d n s \<longleftrightarrow> (\<forall>a\<in>set (current s). acc_ok d n a \<and> 1 \<le> strOffset a)"

lemmas rule_defs = WordRule_transit_def NumberRule_transit_def SpaceRule_transit_def
  SingleSymbolRule_transit_def Rule0_transit_def PartRule_transit_def acc_advance_def acc_fail_def

lemma acc_transit_total:
  assumes "acc_ok d n a"
  shows "\<exists>a'. acc_transit d ch a = Inr a' \<and> (\<not> isError a' \<longrightarrow> acc_ok d (Suc n) a' \<and> 1 \<le> strOffset a')"
proof (cases "acc_rule a = DictRule")
  case True
  then obtain a' where "dict_transit d a ch = Inr a'" "in_dict d a'" "acc_rule a' = acc_rule a"
    "if isError a' then isError a' else strOffset a' = strOffset a + 1"
    using dict_transit_total assms unfolding acc_ok_def by blast
  then show ?thesis using True assms by (auto simp: acc_transit_def acc_ok_def split: if_splits)
next
  case False
  then show ?thesis using assms
    by (cases "acc_rule a") (auto simp: acc_transit_def acc_ok_def rule_defs Let_def)
qed

lemma created_ok: "createAcceptor d ru t = Some a \<Longrightarrow> acc_ok d n a"
  by (cases ru) (auto simp: createAcceptor_def acc_ok_def new_acceptor_def in_dict_def dict_createAcceptor_def
      WordRule_createAcceptor_def NumberRule_createAcceptor_def SpaceRule_createAcceptor_def
      SingleSymbolRule_createAcceptor_def Rule0_createAcceptor_def PartRule_createAcceptor_def split: if_splits)

lemma js_map_all:
  "(\<And>x. x \<in> set xs \<Longrightarrow> \<exists>y. f x = Inr y \<and> P y) \<Longrightarrow> \<exists>ys. js_map f xs = Inr ys \<and> (\<forall>y\<in>set ys. P y)"
  by (induction xs) fastforce+

lemma Acceptors_transit_total:
  assumes "live_ok d n s"
  shows "\<exists>s'. Acceptors_transit d ch s = Inr s' \<and> live_ok d (Suc n) s' \<and> creators s' = creators s"
proof -
  let ?as = "current s @ List.map_filter (\<lambda>c. createAcceptor d c (tag s)) (creators s)"
  have "acc_ok d n a" if "a \<in> set ?as" for a
    using that assms created_ok by (auto simp: live_ok_def List.map_filter_def)
  then have "\<exists>as. js_map (acc_transit d ch) ?as = Inr as
      \<and> (\<forall>a\<in>set as. \<not> isError a \<longrightarrow> acc_ok d (Suc n) a \<and> 1 \<le> strOffset a)"
    by (intro js_map_all acc_transit_total)
  then show ?thesis by (auto simp: Acceptors_transit_def live_ok_def Let_def)
qed

lemma live_reset [simp]: "live_ok d n (Acceptors_reset s)"
  by (simp add: live_ok_def Acceptors_reset_def)

lemma final_ok: "live_ok d n s \<Longrightarrow> a \<in> set (getFinalAcceptors s) \<Longrightarrow> 1 \<le> strOffset a \<and> strOffset a \<le> n"
  by (auto simp: live_ok_def getFinalAcceptors_def acc_ok_def)

end
