(* ===== verification/Wc_Core.thy ===== *)
theory Wc_Core
  imports Wc_Acceptors
begin

text \<open>
  The path of the word cutter: the candidates for each text position
  (module 4), the choice among them (module 5), the loop that builds the path
  and the conversions of a path into ranges and text (module 8), and the
  objects that tie them together (module 7).
\<close>

section \<open>Path candidates\<close>

record path_info =
  info_p :: "nat option"
  info_mw :: nat
  info_w :: nat
  info_unk :: nat
  info_type :: string
  info_merge :: "nat option"

type_synonym wc_path = "path_info list"

text \<open>The loop that writes \<^verbatim>\<open>merge\<close> into the entries a PART acceptor spans.\<close>

fun mark_merge :: "nat \<Rightarrow> nat list \<Rightarrow> wc_path \<Rightarrow> wc_path js" where
  "mark_merge p [] path = Inr path"
| "mark_merge p (j # js) path =
    js_bind (js_nth path (int j)) (\<lambda>x. mark_merge p js (path[j := x\<lparr>info_merge := Some p\<rparr>]))"

definition num_or_0 :: "nat option \<Rightarrow> nat" where
  "num_or_0 x = (case x of None \<Rightarrow> 0 | Some n \<Rightarrow> n)"

fun buildByAcceptors :: "wc_path \<Rightarrow> acceptor list \<Rightarrow> nat \<Rightarrow> (path_info list \<times> wc_path) js" where
  "buildByAcceptors path [] i = Inr ([], path)"
| "buildByAcceptors path (acceptor # rest) i =
    (let p = int i - int (strOffset acceptor) + 1 in
     js_bind (js_nth path p) (\<lambda>info0.
       let info = \<lparr> info_p = Some (nat p), info_mw = info_mw info0 + num_or_0 (acc_mw acceptor),
             info_w = acc_w acceptor + info_w info0, info_unk = num_or_0 (acc_unk acceptor) + info_unk info0,
             info_type = acc_type acceptor,
             info_merge = (if acc_type acceptor = ''PART'' then Some (nat p) else None) \<rparr>
       in js_bind (if acc_type acceptor = ''PART'' then mark_merge (nat p) [nat p + 1..<i + 1] path else Inr path)
         (\<lambda>path1. js_bind (buildByAcceptors path1 rest i) (\<lambda>(infos, path2). Inr (info # infos, path2)))))"

definition fallback :: "wc_path \<Rightarrow> nat \<Rightarrow> ustring \<Rightarrow> nat \<Rightarrow> path_info js" where
  "fallback path leftBoundary text i =
    js_bind (js_nth path (int leftBoundary)) (\<lambda>info0. js_bind (js_nth text (int i)) (\<lambda>ch.
      if 3656 \<le> ch \<and> ch \<le> 3662 then
        Inr \<lparr> info_p = (if leftBoundary \<noteq> 0 then info_p info0 else Some leftBoundary), info_mw = 0,
              info_w = 1 + info_w info0, info_unk = 1 + info_unk info0, info_type = ''UNK'', info_merge = None \<rparr>
      else
        Inr \<lparr> info_p = Some leftBoundary, info_mw = info_mw info0,
              info_w = 1 + info_w info0, info_unk = 1 + info_unk info0, info_type = ''UNK'', info_merge = None \<rparr>))"

definition PathInfoBuilder_build ::
  "wc_path \<Rightarrow> acceptor list \<Rightarrow> nat \<Rightarrow> nat \<Rightarrow> ustring \<Rightarrow> (path_info list \<times> wc_path) js" where
  "PathInfoBuilder_build path finalAcceptors i leftBoundary text =
    js_bind (buildByAcceptors path finalAcceptors i) (\<lambda>(basicPathInfos, path1).
      if length basicPathInfos > 0 then Inr (basicPathInfos, path1)
      else js_bind (fallback path1 leftBoundary text i) (\<lambda>info. Inr ([info], path1)))"

section \<open>Path selection\<close>

definition select_step :: "path_info option \<Rightarrow> path_info \<Rightarrow> path_info option" where
  "select_step selectedPath path =
    (case selectedPath of None \<Rightarrow> Some path
     | Some sel \<Rightarrow>
       if info_unk path < info_unk sel then Some path
       else if info_unk path = info_unk sel then
         (if info_mw path < info_mw sel then Some path
          else if info_mw path = info_mw sel \<and> info_w path < info_w sel then Some path
          else Some sel)
       else Some sel)"

definition selectPath :: "path_info list \<Rightarrow> path_info option" where
  "selectPath paths = foldl select_step None paths"

definition createPath :: wc_path where
  "createPath = [\<lparr> info_p = None, info_mw = 0, info_w = 0, info_unk = 0, info_type = ''INIT'', info_merge = None \<rparr>]"

section \<open>The cutter\<close>

record Wordcut =
  wc_acceptors :: Acceptors
  wc_dict :: "ustring list"

definition Wordcut_initNoDict :: Wordcut where
  "Wordcut_initNoDict =
    \<lparr> wc_acceptors = Acceptors_init\<lparr>creators := creators Acceptors_init @ LatinRules @ ThaiRules\<rparr>, wc_dict = [] \<rparr>"

definition Wordcut_init :: "ustring \<Rightarrow> dict_path \<Rightarrow> bool option \<Rightarrow> ustring list option \<Rightarrow> Wordcut" where
  "Wordcut_init builtin dict_path withDefault additionalWords =
    (let wd = (case withDefault of None \<Rightarrow> False | Some b \<Rightarrow> b);
         wc = Wordcut_initNoDict;
         d = dict_init builtin dict_path wd additionalWords
     in wc\<lparr> wc_acceptors := (wc_acceptors wc)\<lparr>creators := creators (wc_acceptors wc) @ [DictRule]\<rparr>,
            wc_dict := dict d \<rparr>)"

fun buildPath_loop :: "ustring list \<Rightarrow> ustring \<Rightarrow> nat list \<Rightarrow> Acceptors \<Rightarrow> wc_path \<Rightarrow> nat \<Rightarrow> (wc_path \<times> Acceptors) js" where
  "buildPath_loop d text [] accs path leftBoundary = Inr (path, accs)"
| "buildPath_loop d text (i # is) accs path leftBoundary =
    js_bind (js_nth text (int i)) (\<lambda>ch.
    js_bind (Acceptors_transit d ch accs) (\<lambda>accs1.
    js_bind (PathInfoBuilder_build path (getFinalAcceptors accs1) i leftBoundary text) (\<lambda>(infos, path1).
      case selectPath infos of None \<Rightarrow> Inl TypeError
      | Some selectedPath \<Rightarrow>
        buildPath_loop d text is accs1 (path1 @ [selectedPath])
          (if info_type selectedPath \<noteq> ''UNK'' then i else leftBoundary))))"

definition buildPath :: "Wordcut \<Rightarrow> ustring \<Rightarrow> (wc_path \<times> Wordcut) js" where
  "buildPath wc text =
    js_bind (buildPath_loop (wc_dict wc) text [0..<length text] (Acceptors_reset (wc_acceptors wc)) createPath 0)
      (\<lambda>(path, accs). Inr (path, wc\<lparr>wc_acceptors := accs\<rparr>))"

record range =
  rng_s :: nat
  rng_e :: nat

text \<open>
  The loop of \<^verbatim>\<open>pathToRanges\<close>; the array \<^verbatim>\<open>ranges\<close> is held with the element pushed
  last in front, which is also the order after the final \<^verbatim>\<open>reverse\<close>.
\<close>

partial_function (option) pathToRanges_loop :: "wc_path \<Rightarrow> nat \<Rightarrow> range list \<Rightarrow> range list js option" where
  "pathToRanges_loop path e ranges =
    (if e > 0 then
       (case js_nth path (int e) of Inl err \<Rightarrow> Some (Inl err)
        | Inr info \<Rightarrow>
          (if info_merge info \<noteq> None \<and> ranges \<noteq> [] then
             pathToRanges_loop path (the (info_merge info)) ((hd ranges)\<lparr>rng_s := the (info_merge info)\<rparr> # tl ranges)
           else
             pathToRanges_loop path (num_or_0 (info_p info)) (\<lparr>rng_s = num_or_0 (info_p info), rng_e = e\<rparr> # ranges)))
     else Some (Inr ranges))"

declare pathToRanges_loop.simps [code]

definition pathToRanges :: "wc_path \<Rightarrow> range list js option" where
  "pathToRanges path = pathToRanges_loop path (length path - 1) []"

definition rangesToText :: "ustring \<Rightarrow> range list \<Rightarrow> ustring \<Rightarrow> ustring" where
  "rangesToText text ranges delimiter = js_join delimiter (map (\<lambda>r. substring text (rng_s r) (rng_e r)) ranges)"

text \<open>The three entry points; the outer option is non-termination, the sum an exception.\<close>

definition cutRanges :: "Wordcut \<Rightarrow> ustring \<Rightarrow> range list js option" where
  "cutRanges wc text = (case buildPath wc text of Inl e \<Rightarrow> Some (Inl e) | Inr (path, _) \<Rightarrow> pathToRanges path)"

definition cut :: "Wordcut \<Rightarrow> ustring \<Rightarrow> ustring option \<Rightarrow> ustring js option" where
  "cut wc text delimiter = map_option (\<lambda>m. js_bind m (\<lambda>ranges.
     Inr (rangesToText text ranges (case delimiter of None \<Rightarrow> lit ''|'' | Some x \<Rightarrow> x)))) (cutRanges wc text)"

definition cutIntoRanges :: "Wordcut \<Rightarrow> ustring \<Rightarrow> bool \<Rightarrow> (range \<times> ustring option) list js option" where
  "cutIntoRanges wc text noText = map_option (\<lambda>m. js_bind m (\<lambda>ranges.
     Inr (map (\<lambda>r. (r, if noText then None else Some (substring text (rng_s r) (rng_e r)))) ranges))) (cutRanges wc text)"

definition cutIntoArray :: "Wordcut \<Rightarrow> ustring \<Rightarrow> ustring list js option" where
  "cutIntoArray wc text = map_option (\<lambda>m. js_bind m (\<lambda>ranges.
     Inr (map (\<lambda>r. substring text (rng_s r) (rng_e r)) ranges))) (cutRanges wc text)"

section \<open>Well-formed paths\<close>

text \<open>Every entry but the first points, and merges, strictly backwards.\<close>

definition info_ok :: "nat \<Rightarrow> path_info \<Rightarrow> bool" where
  "info_ok j x \<longleftrightarrow> (\<exists>q. info_p x = Some q \<and> q < j) \<and> (\<forall>m. info_merge x = Some m \<longrightarrow> m < j)"

definition path_ok :: "wc_path \<Rightarrow> bool" where
  "path_ok path \<longleftrightarrow> (\<forall>j. 0 < j \<longrightarrow> j < length path \<longrightarrow> info_ok j (path ! j))"

lemma path_okD: "path_ok path \<Longrightarrow> 0 < j \<Longrightarrow> j < length path \<Longrightarrow> info_ok j (path ! j)"
  by (simp add: path_ok_def)

lemma path_ok_snoc: "path_ok path \<Longrightarrow> info_ok (length path) x \<Longrightarrow> path_ok (path @ [x])"
  by (auto simp: path_ok_def nth_append less_Suc_eq)

lemma path_ok_merge: "path_ok path \<Longrightarrow> p < j \<Longrightarrow> path_ok (path[j := (path ! j)\<lparr>info_merge := Some p\<rparr>])"
  unfolding path_ok_def
proof (intro allI impI)
  fix k assume a: "\<forall>j. 0 < j \<longrightarrow> j < length path \<longrightarrow> info_ok j (path ! j)" "p < j" "0 < k"
    "k < length (path[j := (path ! j)\<lparr>info_merge := Some p\<rparr>])"
  then have "info_ok k (path ! k)" by simp
  then show "info_ok k (path[j := (path ! j)\<lparr>info_merge := Some p\<rparr>] ! k)"
    using a(2,4) by (cases "k = j") (simp_all add: info_ok_def)
qed

lemma mark_merge_ok:
  "path_ok path \<Longrightarrow> (\<forall>j\<in>set js. p < j \<and> j < length path) \<Longrightarrow>
    \<exists>path'. mark_merge p js path = Inr path' \<and> path_ok path' \<and> length path' = length path"
proof (induction p js path rule: mark_merge.induct)
  case (2 p j js path)
  then show ?case using path_ok_merge [of path p j] by simp
qed simp

lemma buildByAcceptors_ok:
  "path_ok path \<Longrightarrow> length path = Suc i \<Longrightarrow> (\<forall>a\<in>set as. 1 \<le> strOffset a \<and> strOffset a \<le> Suc i) \<Longrightarrow>
    \<exists>infos path'. buildByAcceptors path as i = Inr (infos, path') \<and> path_ok path' \<and> length path' = Suc i
      \<and> (\<forall>x\<in>set infos. info_ok (Suc i) x) \<and> length infos = length as"
proof (induction as arbitrary: path)
  case (Cons a as)
  let ?p = "int i - int (strOffset a) + 1"
  have p: "0 \<le> ?p" "?p < int (length path)" "nat ?p < Suc i" using Cons.prems by auto
  have "\<exists>path1. (if acc_type a = ''PART'' then mark_merge (nat ?p) [nat ?p + 1..<i + 1] path else Inr path) = Inr path1
      \<and> path_ok path1 \<and> length path1 = Suc i"
    using Cons.prems(1,2) mark_merge_ok [of path "[nat ?p + 1..<i + 1]" "nat ?p"] by (auto simp del: upt_Suc)
  then obtain path1 where path1: "(if acc_type a = ''PART'' then mark_merge (nat ?p) [nat ?p + 1..<i + 1] path else Inr path) = Inr path1"
    "path_ok path1" "length path1 = Suc i" by blast
  from Cons.IH [OF path1(2,3)] Cons.prems(3)
  obtain infos path' where IH: "buildByAcceptors path1 as i = Inr (infos, path')" "path_ok path'" "length path' = Suc i"
    "\<forall>x\<in>set infos. info_ok (Suc i) x" "length infos = length as" by auto
  show ?case using p path1(1) IH by (simp add: Let_def info_ok_def)
qed simp

lemma fallback_ok:
  assumes "path_ok path" "length path = Suc i" "lb \<le> i" "i < length text"
  shows "\<exists>x. fallback path lb text i = Inr x \<and> info_ok (Suc i) x"
proof -
  have "lb \<noteq> 0 \<Longrightarrow> info_ok lb (path ! lb)" using assms by (intro path_okD) auto
  then have "lb \<noteq> 0 \<Longrightarrow> \<exists>q. info_p (path ! lb) = Some q \<and> q < Suc i"
    unfolding info_ok_def using assms(3) by auto
  then show ?thesis using assms by (auto simp: fallback_def info_ok_def)
qed

lemma build_ok:
  assumes "path_ok path" "length path = Suc i" "lb \<le> i" "i < length text"
    and "\<forall>a\<in>set as. 1 \<le> strOffset a \<and> strOffset a \<le> Suc i"
  shows "\<exists>infos path'. PathInfoBuilder_build path as i lb text = Inr (infos, path') \<and> path_ok path'
    \<and> length path' = Suc i \<and> infos \<noteq> [] \<and> (\<forall>x\<in>set infos. info_ok (Suc i) x)"
proof -
  obtain infos path' where b: "buildByAcceptors path as i = Inr (infos, path')" "path_ok path'" "length path' = Suc i"
    "\<forall>x\<in>set infos. info_ok (Suc i) x" using buildByAcceptors_ok [OF assms(1,2,5)] by blast
  obtain x where "fallback path' lb text i = Inr x" "info_ok (Suc i) x"
    using fallback_ok [OF b(2,3) assms(3,4)] by blast
  then show ?thesis using b by (cases infos) (simp_all add: PathInfoBuilder_build_def)
qed

section \<open>Selection\<close>

definition info_less :: "path_info \<Rightarrow> path_info \<Rightarrow> bool" where
  "info_less x y \<longleftrightarrow> info_unk x < info_unk y \<or> info_unk x = info_unk y \<and>
    (info_mw x < info_mw y \<or> info_mw x = info_mw y \<and> info_w x < info_w y)"

lemma select_step_Some: "select_step (Some s) x = Some (if info_less x s then x else s)"
  by (simp add: select_step_def info_less_def)

lemma info_not_less:
  "\<not> info_less x y \<longleftrightarrow> info_unk y < info_unk x \<or> info_unk y = info_unk x \<and>
    (info_mw y < info_mw x \<or> info_mw y = info_mw x \<and> info_w y \<le> info_w x)"
  unfolding info_less_def by linarith

lemma info_not_less_trans: "\<not> info_less y x \<Longrightarrow> \<not> info_less z y \<Longrightarrow> \<not> info_less z x"
  by (auto simp: info_less_def)

lemma select_fold:
  "\<exists>y. foldl select_step (Some s) xs = Some y \<and> y \<in> insert s (set xs) \<and> \<not> info_less s y \<and> (\<forall>x\<in>set xs. \<not> info_less x y)"
proof (induction xs arbitrary: s)
  case Nil
  then show ?case by (simp add: info_less_def)
next
  case (Cons x xs)
  let ?s = "if info_less x s then x else s"
  obtain y where y: "foldl select_step (Some ?s) xs = Some y" "y \<in> insert ?s (set xs)"
    "\<not> info_less ?s y" "\<forall>x\<in>set xs. \<not> info_less x y" using Cons.IH by blast
  have "\<not> info_less x ?s" "\<not> info_less s ?s" by (auto simp: info_less_def)
  then have "\<not> info_less x y" "\<not> info_less s y" using y(3) info_not_less_trans by blast+
  then show ?case using y by (auto simp: select_step_Some split: if_splits)
qed

lemma selectPath_best:
  "xs \<noteq> [] \<Longrightarrow> \<exists>y. selectPath xs = Some y \<and> y \<in> set xs \<and> (\<forall>x\<in>set xs. \<not> info_less x y)"
  using select_fold [of "hd xs" "tl xs"] by (cases xs) (auto simp: selectPath_def select_step_def)

section \<open>Building a path\<close>

lemma buildPath_loop_ok:
  "path_ok path \<Longrightarrow> length path = Suc i \<Longrightarrow> live_ok d i accs \<Longrightarrow> lb \<le> i \<Longrightarrow> i \<le> length text \<Longrightarrow>
    \<exists>path' accs'. buildPath_loop d text [i..<length text] accs path lb = Inr (path', accs') \<and> path_ok path'
      \<and> length path' = Suc (length text)"
proof (induction "length text - i" arbitrary: i accs path lb)
  case (Suc n)
  then have i: "i < length text" "[i..<length text] = i # [Suc i..<length text]" by (simp_all add: upt_conv_Cons)
  obtain accs1 where a: "Acceptors_transit d (text ! i) accs = Inr accs1" "live_ok d (Suc i) accs1"
    using Acceptors_transit_total [OF Suc.prems(3)] by blast
  obtain infos path1 where b: "PathInfoBuilder_build path (getFinalAcceptors accs1) i lb text = Inr (infos, path1)"
    "path_ok path1" "length path1 = Suc i" "infos \<noteq> []" "\<forall>x\<in>set infos. info_ok (Suc i) x"
    using build_ok [OF Suc.prems(1,2,4) i(1)] final_ok [OF a(2)] by blast
  obtain y where y: "selectPath infos = Some y" "y \<in> set infos" using selectPath_best [OF b(4)] by blast
  have ok: "path_ok (path1 @ [y])" using path_ok_snoc b(2,3,5) y(2) by auto
  have "\<exists>path' accs'. buildPath_loop d text [Suc i..<length text] accs1 (path1 @ [y])
      (if info_type y \<noteq> ''UNK'' then i else lb) = Inr (path', accs') \<and> path_ok path' \<and> length path' = Suc (length text)"
    using Suc(2) b(3) a(2) Suc.prems(4) i(1) ok by (intro Suc.hyps(1)) auto
  then show ?case using i a(1) b(1) y(1) by simp
qed simp

lemma buildPath_ok: "\<exists>path wc'. buildPath wc text = Inr (path, wc') \<and> path_ok path \<and> length path = Suc (length text)"
proof -
  have "path_ok createPath" "length createPath = Suc 0" by (simp_all add: path_ok_def createPath_def)
  then show ?thesis
    using buildPath_loop_ok [of createPath 0 "wc_dict wc" "Acceptors_reset (wc_acceptors wc)" 0 "text"]
    by (auto simp: buildPath_def)
qed

section \<open>Ranges\<close>

text \<open>The ranges tile the interval: each starts where the one before ended, and none is empty.\<close>

fun tiles :: "nat \<Rightarrow> range list \<Rightarrow> nat \<Rightarrow> bool" where
  "tiles a [] b \<longleftrightarrow> a = b"
| "tiles a (r # rs) b \<longleftrightarrow> rng_s r = a \<and> a < rng_e r \<and> tiles (rng_e r) rs b"

lemma pathToRanges_loop_ok:
  "path_ok path \<Longrightarrow> e < length path \<Longrightarrow> tiles e ranges n \<Longrightarrow>
    \<exists>rs. pathToRanges_loop path e ranges = Some (Inr rs) \<and> tiles 0 rs n"
proof (induction e arbitrary: ranges rule: less_induct)
  case (less e)
  show ?case
  proof (cases "e = 0")
    case True
    then show ?thesis using less.prems by (subst pathToRanges_loop.simps) simp
  next
    case False
    let ?x = "path ! e"
    have ok: "info_ok e ?x" using path_okD less.prems False by blast
    then obtain q where q: "info_p ?x = Some q" "q < e" unfolding info_ok_def by blast
    show ?thesis
    proof (cases "info_merge ?x \<noteq> None \<and> ranges \<noteq> []")
      case True
      then obtain m r rs where m: "info_merge ?x = Some m" "ranges = r # rs" by (cases ranges) auto
      have "m < e" using ok m(1) by (simp add: info_ok_def)
      moreover have "tiles m (r\<lparr>rng_s := m\<rparr> # rs) n" using less.prems(3) m(2) \<open>m < e\<close> by simp
      ultimately show ?thesis
        using less.IH [of m "r\<lparr>rng_s := m\<rparr> # rs"] less.prems False m by (subst pathToRanges_loop.simps) simp
    next
      case F: False
      have "tiles q (\<lparr>rng_s = q, rng_e = e\<rparr> # ranges) n" using less.prems(3) q(2) by simp
      then show ?thesis
        using less.IH [of q "\<lparr>rng_s = q, rng_e = e\<rparr> # ranges"] less.prems False F q
        by (subst pathToRanges_loop.simps) (auto simp: num_or_0_def)
    qed
  qed
qed

lemma cutRanges_tile: "\<exists>rs. cutRanges wc text = Some (Inr rs) \<and> tiles 0 rs (length text)"
proof -
  obtain path wc' where p: "buildPath wc text = Inr (path, wc')" "path_ok path" "length path = Suc (length text)"
    using buildPath_ok by blast
  then show ?thesis using pathToRanges_loop_ok [OF p(2), of "length text" "[]" "length text"]
    by (simp add: cutRanges_def pathToRanges_def)
qed

lemma tiles_le: "tiles a rs b \<Longrightarrow> a \<le> b"
  by (induction a rs b rule: tiles.induct) auto

lemma tiles_text:
  "tiles a rs b \<Longrightarrow> b \<le> length t \<Longrightarrow> concat (map (\<lambda>r. substring t (rng_s r) (rng_e r)) rs) = substring t a b
    \<and> [] \<notin> set (map (\<lambda>r. substring t (rng_s r) (rng_e r)) rs)"
proof (induction a rs b rule: tiles.induct)
  case (2 a r rs b)
  then have "a < rng_e r" "rng_e r \<le> b" using tiles_le by auto
  then show ?case using 2 substring_split [of a "rng_e r" b t] by (auto simp: substring_le)
qed (simp add: substring_def)

section \<open>Properties\<close>

lemma cut_pieces:
  "\<exists>pieces. cutIntoArray wc text = Some (Inr pieces) \<and> concat pieces = text \<and> [] \<notin> set pieces"
proof -
  obtain rs where rs: "cutRanges wc text = Some (Inr rs)" "tiles 0 rs (length text)" using cutRanges_tile by blast
  then have "concat (map (\<lambda>r. substring text (rng_s r) (rng_e r)) rs) = text"
    "[] \<notin> set (map (\<lambda>r. substring text (rng_s r) (rng_e r)) rs)"
    using tiles_text [OF rs(2) order_refl] by (simp_all add: substring_le)
  then show ?thesis using rs(1) by (simp add: cutIntoArray_def)
qed

text \<open>The array that \<^const>\<open>cutIntoArray\<close> returns; by the lemma above there always is one.\<close>

definition pieces_of :: "Wordcut \<Rightarrow> ustring \<Rightarrow> ustring list" where
  "pieces_of wc text = (case cutIntoArray wc text of Some (Inr pieces) \<Rightarrow> pieces | _ \<Rightarrow> [])"

lemma pieces_of_cut: "cutIntoArray wc text = Some (Inr (pieces_of wc text))"
  using cut_pieces [of wc "text"] by (auto simp: pieces_of_def)

lemma pieces_of_partition: "concat (pieces_of wc text) = text \<and> [] \<notin> set (pieces_of wc text)"
  using cut_pieces [of wc "text"] by (auto simp: pieces_of_def)

interpretation cutter: segmenter "pieces_of wc" for wc
  by unfold_locales (simp_all add: pieces_of_partition)

text \<open>
  C23: Cutting never fails and loses nothing.  For every cutter state (any
  dictionary, any set of rules, whatever was cut before) and every text, the
  cut terminates without an exception, the pieces concatenate to the text, no
  piece is empty and there are at most as many pieces as code units.
\<close>

theorem cut_partitions_text:
  "\<exists>pieces. cutIntoArray wc text = Some (Inr pieces) \<and> concat pieces = text \<and> [] \<notin> set pieces \<and> length pieces \<le> length text"
  using pieces_of_cut cutter.seg_concat cutter.seg_nonempty cutter.seg_count by blast

text \<open>
  The three entry points agree: \<^verbatim>\<open>cut\<close> returns the pieces of \<^verbatim>\<open>cutIntoArray\<close>
  joined with the delimiter (a vertical bar when none is given),
  \<^verbatim>\<open>cutIntoRanges\<close> returns the same pieces as the text of its ranges, and with
  an empty delimiter \<^verbatim>\<open>cut\<close> gives the text back.
\<close>

theorem cut_entry_points_agree:
  "\<exists>pieces ranges. cutIntoArray wc text = Some (Inr pieces)
    \<and> cut wc text delim = Some (Inr (js_join (case delim of None \<Rightarrow> lit ''|'' | Some x \<Rightarrow> x) pieces))
    \<and> cutIntoRanges wc text False = Some (Inr ranges) \<and> map (the \<circ> snd) ranges = pieces
    \<and> cut wc text (Some []) = Some (Inr text)"
proof -
  obtain rs where rs: "cutRanges wc text = Some (Inr rs)" "tiles 0 rs (length text)" using cutRanges_tile by blast
  then have "concat (map (\<lambda>r. substring text (rng_s r) (rng_e r)) rs) = text"
    using tiles_text [OF rs(2) order_refl] by (simp add: substring_le)
  then show ?thesis using rs(1)
    by (simp add: cutIntoArray_def cut_def cutIntoRanges_def rangesToText_def js_join_Nil comp_def)
qed

text \<open>
  C24: The selector returns one of the candidates, and no candidate is better in
  the order that first counts unknown pieces, then the \<^verbatim>\<open>mw\<close> weight, then the
  number of pieces.
\<close>

theorem selectPath_optimal:
  assumes "paths \<noteq> []"
  shows "\<exists>sel. selectPath paths = Some sel \<and> sel \<in> set paths \<and>
    (\<forall>x\<in>set paths. info_unk sel < info_unk x \<or> info_unk sel = info_unk x \<and>
       (info_mw sel < info_mw x \<or> info_mw sel = info_mw x \<and> info_w sel \<le> info_w x))"
  using selectPath_best [OF assms] unfolding info_not_less by blast

theorem selectPath_optimal_witness:
  "\<exists>sel. selectPath createPath = Some sel \<and> sel \<in> set createPath"
proof -
  have "createPath \<noteq> []" by (simp add: createPath_def)
  from selectPath_optimal [OF this] show ?thesis by blast
qed

text \<open>
  The left boundary is one position too far left after a recognized piece:
  in the text \<^verbatim>\<open>abc?\<close> the cutter without a dictionary splits the Latin word and
  glues its last letter to the unknown symbol.
\<close>

theorem unknown_symbol_takes_last_letter:
  "cut Wordcut_initNoDict (lit ''abc?'') None = Some (Inr (lit ''ab|c?''))
   \<and> cut Wordcut_initNoDict (lit ''abc'') None = Some (Inr (lit ''abc''))"
  by code_simp

end
