(* ===== verification/TinySeg.thy ===== *)
theory TinySeg
  imports TinySeg_Tables
begin

text \<open>
  The Japanese tokenizer \<^verbatim>\<open>tinyseg.js\<close>: character classes, the score of a
  boundary, and the loop of \<^verbatim>\<open>segment\<close>.
\<close>

section \<open>Character classes\<close>

definition class_M :: "code_unit \<Rightarrow> bool" where
  "class_M c \<longleftrightarrow> c \<in> set [19968, 20108, 19977, 22235, 20116, 20845, 19971, 20843, 20061, 21313, 30334, 21315,
     19975, 20740, 20806]"

definition class_H :: "code_unit \<Rightarrow> bool" where
  "class_H c \<longleftrightarrow> 19968 \<le> c \<and> c \<le> 40864 \<or> c \<in> set [12293, 12294, 12533, 12534]"

definition class_I :: "code_unit \<Rightarrow> bool" where
  "class_I c \<longleftrightarrow> 12353 \<le> c \<and> c \<le> 12435"

definition class_K :: "code_unit \<Rightarrow> bool" where
  "class_K c \<longleftrightarrow> 12449 \<le> c \<and> c \<le> 12532 \<or> c = 12540 \<or> 65393 \<le> c \<and> c \<le> 65437 \<or> c \<in> set [65438, 65392]"

definition class_A :: "code_unit \<Rightarrow> bool" where
  "class_A c \<longleftrightarrow> 97 \<le> c \<and> c \<le> 122 \<or> 65 \<le> c \<and> c \<le> 90 \<or> 65345 \<le> c \<and> c \<le> 65370 \<or> 65313 \<le> c \<and> c \<le> 65338"

definition class_N :: "code_unit \<Rightarrow> bool" where
  "class_N c \<longleftrightarrow> 48 \<le> c \<and> c \<le> 57 \<or> 65296 \<le> c \<and> c \<le> 65305"

definition chartype :: "((code_unit \<Rightarrow> bool) \<times> string) list" where
  "chartype = [(class_M, ''M''), (class_H, ''H''), (class_I, ''I''), (class_K, ''K''), (class_A, ''A''), (class_N, ''N'')]"

text \<open>\<^verbatim>\<open>str.match\<close> of a class without anchors: some code unit of the string is in it.\<close>

fun ctype_loop :: "((code_unit \<Rightarrow> bool) \<times> string) list \<Rightarrow> ustring \<Rightarrow> ustring" where
  "ctype_loop [] str = lit ''O''"
| "ctype_loop ((re, t) # rest) str = (if list_ex re str then lit t else ctype_loop rest str)"

definition ctype_fn :: "ustring \<Rightarrow> ustring" where
  "ctype_fn str = ctype_loop chartype str"

definition ts_fn :: "score_table \<Rightarrow> ustring \<Rightarrow> int" where
  "ts_fn tab key = (case map_of tab key of None \<Rightarrow> 0 | Some v \<Rightarrow> v)"

section \<open>Score\<close>

text \<open>The weights of words, of character classes, of earlier decisions and of the mixed tables.\<close>

definition score_p :: "ustring \<Rightarrow> ustring \<Rightarrow> ustring \<Rightarrow> int" where
  "score_p p1 p2 p3 =
    ts_fn tab_UP1 p1 + ts_fn tab_UP2 p2 + ts_fn tab_UP3 p3 + ts_fn tab_BP1 (p1 @ p2) + ts_fn tab_BP2 (p2 @ p3)"

definition score_w :: "ustring \<Rightarrow> ustring \<Rightarrow> ustring \<Rightarrow> ustring \<Rightarrow> ustring \<Rightarrow> ustring \<Rightarrow> int" where
  "score_w w1 w2 w3 w4 w5 w6 =
    ts_fn tab_UW1 w1 + ts_fn tab_UW2 w2 + ts_fn tab_UW3 w3 + ts_fn tab_UW4 w4 + ts_fn tab_UW5 w5 + ts_fn tab_UW6 w6
    + ts_fn tab_BW1 (w2 @ w3) + ts_fn tab_BW2 (w3 @ w4) + ts_fn tab_BW3 (w4 @ w5)
    + ts_fn tab_TW1 (w1 @ w2 @ w3) + ts_fn tab_TW2 (w2 @ w3 @ w4) + ts_fn tab_TW3 (w3 @ w4 @ w5) + ts_fn tab_TW4 (w4 @ w5 @ w6)"

definition score_c :: "ustring \<Rightarrow> ustring \<Rightarrow> ustring \<Rightarrow> ustring \<Rightarrow> ustring \<Rightarrow> ustring \<Rightarrow> int" where
  "score_c c1 c2 c3 c4 c5 c6 =
    ts_fn tab_UC1 c1 + ts_fn tab_UC2 c2 + ts_fn tab_UC3 c3 + ts_fn tab_UC4 c4 + ts_fn tab_UC5 c5 + ts_fn tab_UC6 c6
    + ts_fn tab_BC1 (c2 @ c3) + ts_fn tab_BC2 (c3 @ c4) + ts_fn tab_BC3 (c4 @ c5)
    + ts_fn tab_TC1 (c1 @ c2 @ c3) + ts_fn tab_TC2 (c2 @ c3 @ c4) + ts_fn tab_TC3 (c3 @ c4 @ c5) + ts_fn tab_TC4 (c4 @ c5 @ c6)"

definition score_q :: "ustring \<Rightarrow> ustring \<Rightarrow> ustring \<Rightarrow> ustring \<Rightarrow> ustring \<Rightarrow> ustring \<Rightarrow> ustring \<Rightarrow> int" where
  "score_q p1 p2 p3 c1 c2 c3 c4 =
    ts_fn tab_UQ1 (p1 @ c1) + ts_fn tab_UQ2 (p2 @ c2) + ts_fn tab_UQ3 (p3 @ c3)
    + ts_fn tab_BQ1 (p2 @ c2 @ c3) + ts_fn tab_BQ2 (p2 @ c3 @ c4) + ts_fn tab_BQ3 (p3 @ c2 @ c3) + ts_fn tab_BQ4 (p3 @ c3 @ c4)
    + ts_fn tab_TQ1 (p2 @ c1 @ c2 @ c3) + ts_fn tab_TQ2 (p2 @ c2 @ c3 @ c4)
    + ts_fn tab_TQ3 (p3 @ c1 @ c2 @ c3) + ts_fn tab_TQ4 (p3 @ c2 @ c3 @ c4)"

definition boundary_score :: "ustring list \<Rightarrow> ustring list \<Rightarrow> nat \<Rightarrow> ustring \<Rightarrow> ustring \<Rightarrow> ustring \<Rightarrow> int" where
  "boundary_score seg ctype i p1 p2 p3 =
    tab_BIAS + score_p p1 p2 p3
    + score_w (seg ! (i - 3)) (seg ! (i - 2)) (seg ! (i - 1)) (seg ! i) (seg ! (i + 1)) (seg ! (i + 2))
    + score_c (ctype ! (i - 3)) (ctype ! (i - 2)) (ctype ! (i - 1)) (ctype ! i) (ctype ! (i + 1)) (ctype ! (i + 2))
    + score_q p1 p2 p3 (ctype ! (i - 3)) (ctype ! (i - 2)) (ctype ! (i - 1)) (ctype ! i)"

section \<open>Segmentation\<close>

fun segment_loop ::
  "ustring list \<Rightarrow> ustring list \<Rightarrow> nat list \<Rightarrow> ustring \<Rightarrow> ustring \<Rightarrow> ustring \<Rightarrow> ustring \<Rightarrow> ustring list \<Rightarrow> ustring list" where
  "segment_loop seg ctype [] word p1 p2 p3 result = result @ [word]"
| "segment_loop seg ctype (i # is) word p1 p2 p3 result =
    (if boundary_score seg ctype i p1 p2 p3 > 0
     then segment_loop seg ctype is (seg ! i) p2 p3 (lit ''B'') (result @ [word])
     else segment_loop seg ctype is (word @ seg ! i) p2 p3 (lit ''O'') result)"

definition seg_of :: "ustring \<Rightarrow> ustring list" where
  "seg_of input = [lit ''B3'', lit ''B2'', lit ''B1''] @ map (\<lambda>c. [c]) input @ [lit ''E1'', lit ''E2'', lit ''E3'']"

definition ctype_of :: "ustring \<Rightarrow> ustring list" where
  "ctype_of input = [lit ''O'', lit ''O'', lit ''O''] @ map (\<lambda>c. ctype_fn [c]) input @ [lit ''O'', lit ''O'', lit ''O'']"

definition segment :: "ustring option \<Rightarrow> ustring list" where
  "segment input = (case input of None \<Rightarrow> []
   | Some s \<Rightarrow> if s = [] then []
     else segment_loop (seg_of s) (ctype_of s) [4..<length (seg_of s) - 3] (seg_of s ! 3)
       (lit ''U'') (lit ''U'') (lit ''U'') [])"

section \<open>Decisions\<close>

text \<open>The sequence of boundary decisions the loop takes, apart from the words it builds.\<close>

fun decisions :: "ustring list \<Rightarrow> ustring list \<Rightarrow> nat list \<Rightarrow> ustring \<Rightarrow> ustring \<Rightarrow> ustring \<Rightarrow> bool list" where
  "decisions seg ctype [] p1 p2 p3 = []"
| "decisions seg ctype (i # is) p1 p2 p3 =
    (let b = boundary_score seg ctype i p1 p2 p3 > 0
     in b # decisions seg ctype is p2 p3 (if b then lit ''B'' else lit ''O''))"

fun cut_at :: "bool list \<Rightarrow> ustring list \<Rightarrow> ustring \<Rightarrow> ustring list" where
  "cut_at (b # bs) (x # xs) word = (if b then word # cut_at bs xs x else cut_at bs xs (word @ x))"
| "cut_at _ _ word = [word]"

lemma segment_loop_decisions:
  "segment_loop seg ctype is word p1 p2 p3 result =
    result @ cut_at (decisions seg ctype is p1 p2 p3) (map ((!) seg) is) word"
  by (induction seg ctype "is" word p1 p2 p3 result rule: segment_loop.induct) (simp_all add: Let_def)

lemma cut_at_concat: "length bs = length xs \<Longrightarrow> concat (cut_at bs xs word) = word @ concat xs"
  by (induction bs xs word rule: cut_at.induct) simp_all

lemma cut_at_nonempty: "word \<noteq> [] \<Longrightarrow> [] \<notin> set xs \<Longrightarrow> [] \<notin> set (cut_at bs xs word)"
  by (induction bs xs word rule: cut_at.induct) auto

lemma decisions_length [simp]: "length (decisions seg ctype is p1 p2 p3) = length is"
  by (induction seg ctype "is" p1 p2 p3 rule: decisions.induct) (simp_all add: Let_def)

lemma seg_of_length [simp]: "length (seg_of s) = length s + 6"
  by (simp add: seg_of_def)

lemma seg_of_nth: "3 \<le> i \<Longrightarrow> i < length s + 3 \<Longrightarrow> seg_of s ! i = [s ! (i - 3)]"
  by (auto simp: seg_of_def nth_append nth_Cons' numeral_3_eq_3)

lemma seg_of_tail: "map ((!) (seg_of s)) [4..<length s + 3] = map (\<lambda>c. [c]) (tl s)"
proof (rule nth_equalityI)
  fix i assume "i < length (map ((!) (seg_of s)) [4..<length s + 3])"
  then show "map ((!) (seg_of s)) [4..<length s + 3] ! i = map (\<lambda>c. [c]) (tl s) ! i"
    by (simp add: seg_of_nth nth_tl)
qed simp

lemma segment_decisions:
  assumes "s \<noteq> []"
  shows "segment (Some s) =
    cut_at (decisions (seg_of s) (ctype_of s) [4..<length s + 3] (lit ''U'') (lit ''U'') (lit ''U''))
      (map (\<lambda>c. [c]) (tl s)) [hd s]"
proof -
  have "seg_of s ! 3 = [hd s]" using assms seg_of_nth [of 3 s] by (simp add: hd_conv_nth)
  moreover have "length (seg_of s) - 3 = length s + 3" by simp
  ultimately show ?thesis using assms
    by (simp only: segment_def segment_loop_decisions seg_of_tail option.case if_False append_Nil)
qed

lemma segment_None: "segment None = []"
  by (simp add: segment_def)

section \<open>Locality\<close>

text \<open>A boundary of a segmentation after \<^verbatim>\<open>k\<close> code units.\<close>

definition boundary_at :: "ustring list \<Rightarrow> nat \<Rightarrow> bool" where
  "boundary_at ps k \<longleftrightarrow> (\<exists>n. length (concat (take n ps)) = k)"

lemma boundary_at_Cons: "boundary_at (w # ps) (length w + k) \<longleftrightarrow> boundary_at ps k \<or> w = [] \<and> k = 0"
proof
  assume "boundary_at (w # ps) (length w + k)"
  then obtain n where n: "length (concat (take n (w # ps))) = length w + k" by (auto simp: boundary_at_def)
  then show "boundary_at ps k \<or> w = [] \<and> k = 0"
    by (cases n) (auto simp: boundary_at_def)
next
  assume "boundary_at ps k \<or> w = [] \<and> k = 0"
  then obtain n where "length (concat (take n ps)) = k" unfolding boundary_at_def by (metis concat.simps(1) list.size(3) take_0)
  then have "length (concat (take (Suc n) (w # ps))) = length w + k" by simp
  then show "boundary_at (w # ps) (length w + k)" unfolding boundary_at_def by blast
qed

lemma boundary_at_0 [simp]: "boundary_at ps 0"
  unfolding boundary_at_def by (metis concat.simps(1) list.size(3) take_0)

lemma cut_at_hd: "\<exists>y ps. cut_at bs xs word = (word @ y) # ps"
  by (induction bs xs word rule: cut_at.induct) auto

lemma boundary_at_below: "0 < k \<Longrightarrow> k < length w \<Longrightarrow> \<not> boundary_at (w # ps) k"
  unfolding boundary_at_def
proof
  assume k: "0 < k" "k < length w" and "\<exists>n. length (concat (take n (w # ps))) = k"
  then obtain n where "length (concat (take n (w # ps))) = k" by blast
  then show False using k by (cases n) auto
qed

lemma boundary_cut_at:
  "word \<noteq> [] \<Longrightarrow> length bs = length xs \<Longrightarrow> (\<forall>x\<in>set xs. length x = 1) \<Longrightarrow> j < length xs \<Longrightarrow>
    boundary_at (cut_at bs xs word) (length word + j) \<longleftrightarrow> bs ! j"
proof (induction bs xs word arbitrary: j rule: cut_at.induct)
  case (1 b bs x xs word)
  have x: "x \<noteq> []" "length x = 1" using 1(5) by auto
  show ?case
  proof (cases b)
    case True
    then have "boundary_at (cut_at (b # bs) (x # xs) word) (length word + j) = boundary_at (cut_at bs xs x) j"
      using boundary_at_Cons [of word "cut_at bs xs x" j] 1(3) by simp
    then show ?thesis
      using True 1(1) [OF True x(1)] 1(3-6) x(2) by (cases j) simp_all
  next
    case False
    obtain y ps where hd: "cut_at bs xs (word @ x) = (word @ x @ y) # ps"
      using cut_at_hd [of bs xs "word @ x"] by auto
    show ?thesis
    proof (cases j)
      case 0
      then show ?thesis using False x 1(3) hd boundary_at_below [of "length word" "word @ x @ y" ps] by simp
    next
      case (Suc i)
      then show ?thesis using False 1(2) [OF False, of i] 1(3-6) x(2) by simp
    qed
  qed
qed auto

lemma score_cong:
  "(\<forall>k\<le>i + 2. seg ! k = seg' ! k \<and> ct ! k = ct' ! k) \<Longrightarrow>
    boundary_score seg ct i p1 p2 p3 = boundary_score seg' ct' i p1 p2 p3"
  by (simp add: boundary_score_def)

lemma decisions_cong:
  "(\<forall>i\<in>set is. \<forall>k\<le>i + 2. seg ! k = seg' ! k \<and> ct ! k = ct' ! k) \<Longrightarrow>
    decisions seg ct is p1 p2 p3 = decisions seg' ct' is p1 p2 p3"
proof (induction "is" arbitrary: p1 p2 p3)
  case (Cons i "is")
  then show ?case using score_cong [of i seg seg' ct ct' p1 p2 p3] by (simp add: Let_def)
qed simp

lemma decisions_take:
  "take n (decisions seg ct is p1 p2 p3) = decisions seg ct (take n is) p1 p2 p3"
proof (induction "is" arbitrary: n p1 p2 p3)
  case (Cons i "is")
  then show ?case by (cases n) (simp_all add: Let_def)
qed simp

lemma common_prefix_nth:
  assumes "k < length u + 3"
  shows "seg_of (u @ v) ! k = seg_of (u @ v') ! k \<and> ctype_of (u @ v) ! k = ctype_of (u @ v') ! k"
proof -
  have "take (length u + 3) (seg_of (u @ v)) = take (length u + 3) (seg_of (u @ v'))"
    "take (length u + 3) (ctype_of (u @ v)) = take (length u + 3) (ctype_of (u @ v'))"
    by (simp_all add: seg_of_def ctype_of_def numeral_3_eq_3)
  then show ?thesis using assms by (metis nth_take)
qed

section \<open>Properties\<close>

lemma segment_pieces: "concat (segment (Some s)) = s \<and> [] \<notin> set (segment (Some s))"
proof (cases "s = []")
  case True
  then show ?thesis by (simp add: segment_def)
next
  case False
  have singles: "concat (map (\<lambda>c. [c]) (tl s)) = tl s" "[] \<notin> set (map (\<lambda>c. [c]) (tl s))" by auto
  have "length (decisions (seg_of s) (ctype_of s) [4..<length s + 3] (lit ''U'') (lit ''U'') (lit ''U''))
      = length (map (\<lambda>c. [c]) (tl s))" by simp
  from cut_at_concat [OF this, of "[hd s]"] show ?thesis
    using False singles cut_at_nonempty by (simp add: segment_decisions)
qed

interpretation tiny: segmenter "\<lambda>s. segment (Some s)"
  using segment_pieces by unfold_locales auto

text \<open>
  C25: Segmentation loses nothing: for every input the segments concatenate to
  the input, no segment is empty and there are at most as many segments as
  code units; an absent input has no segments.
\<close>

theorem segment_partitions:
  "concat (segment (Some s)) = s \<and> [] \<notin> set (segment (Some s)) \<and> length (segment (Some s)) \<le> length s \<and> segment None = []"
  using tiny.seg_concat tiny.seg_nonempty tiny.seg_count segment_None by blast

text \<open>
  C26: Boundaries are decided locally: when two inputs share a prefix, a boundary
  that lies at least three code units before the end of the prefix is in one
  segmentation exactly when it is in the other, whatever follows.
\<close>

theorem segment_local:
  assumes "k + 3 \<le> length u"
  shows "boundary_at (segment (Some (u @ v))) k = boundary_at (segment (Some (u @ v'))) k"
proof (cases k)
  case (Suc j)
  let ?dec = "\<lambda>s. decisions (seg_of s) (ctype_of s) [4..<length s + 3] (lit ''U'') (lit ''U'') (lit ''U'')"
  have "take (length u - 3) [4..<length (u @ x) + 3] = [4..<length u + 1]" for x :: ustring
    using assms by simp
  then have "take (length u - 3) (?dec (u @ v)) = take (length u - 3) (?dec (u @ v'))"
    unfolding decisions_take by (simp, intro decisions_cong ballI allI impI common_prefix_nth) auto
  then have dec: "?dec (u @ v) ! j = ?dec (u @ v') ! j" 
    using nth_take [of j "length u - 3"] assms Suc by (metis Suc_le_lessD add_le_imp_le_diff)
  have "boundary_at (segment (Some (u @ x))) k \<longleftrightarrow> ?dec (u @ x) ! j" for x
  proof -
    have ne: "u @ x \<noteq> []" using assms by auto
    have "j < length (map (\<lambda>c. [c]) (tl (u @ x)))" using assms Suc by simp
    from boundary_cut_at [OF _ _ _ this, of "[hd (u @ x)]" "?dec (u @ x)"] show ?thesis
      using Suc ne by (simp add: segment_decisions)
  qed
  then show ?thesis using dec by simp
qed simp

theorem segment_local_witness:
  "boundary_at (segment (Some (lit ''abcd'' @ lit ''x''))) 1 = boundary_at (segment (Some (lit ''abcd'' @ lit ''yz''))) 1"
  by (rule segment_local) (simp add: lit_def)

end
