(* ===== verification/Js_Events.thy ===== *)
theory Js_Events
  imports Js_Prelude "HOL-Library.AList"
begin

text \<open>
  The event emitter bundled in \<^verbatim>\<open>wordcut.js\<close> (module 14).  A listener is a function
  object: a plain one is known by its number, the wrapper \<^verbatim>\<open>once\<close> creates also by
  the event and the listener it wraps.  Plain listeners record their call in
  the field \<^verbatim>\<open>calls\<close>; what else they do is the embedding program's code.
  Event names are those that are not property names of \<^verbatim>\<open>Object.prototype\<close>.
\<close>

section \<open>State\<close>

type_synonym ename = string

datatype listener = Plain nat | OnceWrapper nat ename listener

datatype arg = ArgType ename | ArgFn listener | ArgVal int | ArgError int

datatype handler = Single listener | Many "listener list" bool

datatype js_number = Num int | NaN | NotANumber

record emitter =
  events :: "(ename \<times> handler) list"
  maxListeners :: "int option"
  fired :: "nat list"
  calls :: "(nat \<times> arg list) list"
  warnings :: "(ename \<times> nat) list"

definition EventEmitter_new :: emitter where
  "EventEmitter_new = \<lparr> events = [], maxListeners = None, fired = [], calls = [], warnings = [] \<rparr>"

definition defaultMaxListeners :: int where "defaultMaxListeners = 10"

definition setMaxListeners :: "js_number \<Rightarrow> emitter \<Rightarrow> emitter js" where
  "setMaxListeners n s = (case n of NotANumber \<Rightarrow> Inl TypeError | NaN \<Rightarrow> Inl TypeError
     | Num k \<Rightarrow> if k < 0 then Inl TypeError else Inr (s\<lparr>maxListeners := Some k\<rparr>))"

text \<open>The property \<^verbatim>\<open>listener\<close> of a wrapper, and the comparison of \<^verbatim>\<open>removeListener\<close>.\<close>

fun wrapped :: "listener \<Rightarrow> listener option" where
  "wrapped (Plain n) = None"
| "wrapped (OnceWrapper n t l) = Some l"

definition is_listener :: "listener \<Rightarrow> listener \<Rightarrow> bool" where
  "is_listener x l \<longleftrightarrow> x = l \<or> wrapped x = Some l"

fun handler_list :: "handler option \<Rightarrow> listener list" where
  "handler_list None = []"
| "handler_list (Some (Single l)) = [l]"
| "handler_list (Some (Many ls w)) = ls"

definition listeners :: "ename \<Rightarrow> emitter \<Rightarrow> listener list" where
  "listeners t s = handler_list (map_of (events s) t)"

definition listenerCount :: "ename \<Rightarrow> emitter \<Rightarrow> nat" where
  "listenerCount t s =
    (case map_of (events s) t of None \<Rightarrow> 0 | Some (Single l) \<Rightarrow> 1 | Some (Many ls w) \<Rightarrow> length ls)"

section \<open>Operations\<close>

text \<open>
  The methods call each other: \<^verbatim>\<open>emit\<close> calls a wrapper, the wrapper removes itself,
  and \<^verbatim>\<open>removeListener\<close> emits an event of its own.  Each is defined over the
  \<^verbatim>\<open>emit\<close> it calls, and the recursion is bounded by a number of nested
  emissions; \<^const>\<open>None\<close> means the bound was too small.
\<close>

type_synonym emit_fn = "ename \<Rightarrow> arg list \<Rightarrow> emitter \<Rightarrow> emitter option"

text \<open>Position of the last element that is the listener or wraps it.\<close>

fun last_position :: "listener \<Rightarrow> listener list \<Rightarrow> nat option" where
  "last_position l [] = None"
| "last_position l (x # xs) = (case last_position l xs of Some i \<Rightarrow> Some (Suc i)
     | None \<Rightarrow> if is_listener x l then Some 0 else None)"

definition emit_removed :: "emit_fn \<Rightarrow> ename \<Rightarrow> listener \<Rightarrow> emitter \<Rightarrow> emitter option" where
  "emit_removed em t l s =
    (if map_of (events s) ''removeListener'' \<noteq> None then em ''removeListener'' [ArgType t, ArgFn l] s else Some s)"

definition removeListener_with :: "emit_fn \<Rightarrow> ename \<Rightarrow> listener \<Rightarrow> emitter \<Rightarrow> emitter option" where
  "removeListener_with em t l s =
    (case map_of (events s) t of None \<Rightarrow> Some s
     | Some (Single x) \<Rightarrow>
       if is_listener x l then emit_removed em t l (s\<lparr>events := AList.delete t (events s)\<rparr>) else Some s
     | Some (Many ls w) \<Rightarrow>
       (case last_position l ls of None \<Rightarrow> Some s
        | Some position \<Rightarrow>
          if length ls = 1 then emit_removed em t l (s\<lparr>events := AList.delete t (events s)\<rparr>)
          else emit_removed em t l (s\<lparr>events := AList.update t
                 (Many (take position ls @ drop (Suc position) ls) w) (events s)\<rparr>)))"

text \<open>Calling a listener: the body of the function \<^verbatim>\<open>g\<close> of \<^verbatim>\<open>once\<close> for a wrapper.\<close>

fun call_with :: "emit_fn \<Rightarrow> listener \<Rightarrow> arg list \<Rightarrow> emitter \<Rightarrow> emitter option" where
  "call_with em (Plain n) args s = Some (s\<lparr>calls := calls s @ [(n, args)]\<rparr>)"
| "call_with em (OnceWrapper n t l) args s =
    (case removeListener_with em t (OnceWrapper n t l) s of None \<Rightarrow> None
     | Some s1 \<Rightarrow> if n \<notin> set (fired s1) then call_with em l args (s1\<lparr>fired := n # fired s1\<rparr>) else Some s1)"

fun call_all :: "emit_fn \<Rightarrow> listener list \<Rightarrow> arg list \<Rightarrow> emitter \<Rightarrow> emitter option" where
  "call_all em [] args s = Some s"
| "call_all em (l # ls) args s =
    (case call_with em l args s of None \<Rightarrow> None | Some s1 \<Rightarrow> call_all em ls args s1)"

text \<open>The part of \<^verbatim>\<open>emit\<close> after the test for an unhandled error: the handler list is copied first.\<close>

primrec emit_handlers :: "nat \<Rightarrow> emit_fn" where
  "emit_handlers 0 t args s = call_all (\<lambda>_ _ _. None) (listeners t s) args s"
| "emit_handlers (Suc n) t args s = call_all (emit_handlers n) (listeners t s) args s"

definition no_error_handler :: "emitter \<Rightarrow> bool" where
  "no_error_handler s \<longleftrightarrow> (case map_of (events s) ''error'' of None \<Rightarrow> True
     | Some (Single l) \<Rightarrow> False | Some (Many ls w) \<Rightarrow> length ls = 0)"

definition emit_event :: "nat \<Rightarrow> ename \<Rightarrow> arg list \<Rightarrow> emitter \<Rightarrow> (bool \<times> emitter) js option" where
  "emit_event fuel t args s =
    (if t = ''error'' \<and> no_error_handler s then
       Some (Inl (case args of ArgError e # _ \<Rightarrow> JsError [e] | _ \<Rightarrow> TypeError))
     else if map_of (events s) t = None then Some (Inr (False, s))
     else map_option (\<lambda>s1. Inr (True, s1)) (emit_handlers fuel t args s))"

definition leak_limit :: "emitter \<Rightarrow> int" where
  "leak_limit s = (case maxListeners s of Some m \<Rightarrow> m | None \<Rightarrow> defaultMaxListeners)"

definition add_handler :: "ename \<Rightarrow> listener \<Rightarrow> emitter \<Rightarrow> emitter" where
  "add_handler t l s = s\<lparr>events := AList.update t
     (case map_of (events s) t of None \<Rightarrow> Single l
      | Some (Single x) \<Rightarrow> Many [x, l] False
      | Some (Many ls w) \<Rightarrow> Many (ls @ [l]) w) (events s)\<rparr>"

definition check_leak :: "ename \<Rightarrow> emitter \<Rightarrow> emitter" where
  "check_leak t s =
    (case map_of (events s) t of
       Some (Many ls False) \<Rightarrow>
         if leak_limit s > 0 \<and> int (length ls) > leak_limit s
         then s\<lparr>events := AList.update t (Many ls True) (events s), warnings := warnings s @ [(t, length ls)]\<rparr>
         else s
     | _ \<Rightarrow> s)"

definition addListener :: "nat \<Rightarrow> ename \<Rightarrow> listener \<Rightarrow> emitter \<Rightarrow> emitter option" where
  "addListener fuel t l s =
    map_option (\<lambda>s1. check_leak t (add_handler t l s1))
      (if map_of (events s) ''newListener'' \<noteq> None
       then emit_handlers fuel ''newListener''
         [ArgType t, ArgFn (case wrapped l of Some x \<Rightarrow> x | None \<Rightarrow> l)] s
       else Some s)"

text \<open>\<^verbatim>\<open>once\<close> creates a new function object, known by the number \<^verbatim>\<open>n\<close>.\<close>

definition emitter_once :: "nat \<Rightarrow> nat \<Rightarrow> ename \<Rightarrow> listener \<Rightarrow> emitter \<Rightarrow> emitter option" where
  "emitter_once fuel n t l s = addListener fuel t (OnceWrapper n t l) s"

definition removeListener :: "nat \<Rightarrow> ename \<Rightarrow> listener \<Rightarrow> emitter \<Rightarrow> emitter option" where
  "removeListener fuel t l s = removeListener_with (emit_handlers fuel) t l s"

text \<open>The \<^verbatim>\<open>while\<close> loop of \<^verbatim>\<open>removeAllListeners\<close>, last listener first.\<close>

fun remove_lifo :: "nat \<Rightarrow> nat \<Rightarrow> ename \<Rightarrow> emitter \<Rightarrow> emitter option" where
  "remove_lifo 0 fuel t s = (if listeners t s = [] then Some s else None)"
| "remove_lifo (Suc k) fuel t s =
    (if listeners t s = [] then Some s
     else case removeListener fuel t (last (listeners t s)) s of None \<Rightarrow> None
       | Some s1 \<Rightarrow> remove_lifo k fuel t s1)"

definition removeAll_type :: "nat \<Rightarrow> ename \<Rightarrow> emitter \<Rightarrow> emitter js option" where
  "removeAll_type fuel t s =
    (if map_of (events s) ''removeListener'' = None then Some (Inr (s\<lparr>events := AList.delete t (events s)\<rparr>))
     else case map_of (events s) t of
       None \<Rightarrow> Some (Inl TypeError)
     | Some (Single l) \<Rightarrow>
       map_option (\<lambda>s1. Inr (s1\<lparr>events := AList.delete t (events s1)\<rparr>)) (removeListener fuel t l s)
     | Some (Many ls w) \<Rightarrow>
       map_option (\<lambda>s1. Inr (s1\<lparr>events := AList.delete t (events s1)\<rparr>)) (remove_lifo (length ls) fuel t s))"

fun removeAll_keys :: "nat \<Rightarrow> ename list \<Rightarrow> emitter \<Rightarrow> emitter js option" where
  "removeAll_keys fuel [] s = Some (Inr s)"
| "removeAll_keys fuel (key # keys) s =
    (if key = ''removeListener'' \<or> map_of (events s) key = None then removeAll_keys fuel keys s
     else case removeAll_type fuel key s of None \<Rightarrow> None | Some (Inl e) \<Rightarrow> Some (Inl e)
       | Some (Inr s1) \<Rightarrow> removeAll_keys fuel keys s1)"

definition removeAllListeners :: "nat \<Rightarrow> ename option \<Rightarrow> emitter \<Rightarrow> emitter js option" where
  "removeAllListeners fuel t s =
    (case t of Some ty \<Rightarrow> removeAll_type fuel ty s
     | None \<Rightarrow>
       if map_of (events s) ''removeListener'' = None then Some (Inr (s\<lparr>events := []\<rparr>))
       else case removeAll_keys fuel (map fst (events s)) s of None \<Rightarrow> None | Some (Inl e) \<Rightarrow> Some (Inl e)
         | Some (Inr s1) \<Rightarrow>
           (case removeAll_type fuel ''removeListener'' s1 of None \<Rightarrow> None | Some (Inl e) \<Rightarrow> Some (Inl e)
            | Some (Inr s2) \<Rightarrow> Some (Inr (s2\<lparr>events := []\<rparr>))))"

section \<open>Listeners as lists\<close>

lemma map_of_update [simp]: "map_of (AList.update k v al) k' = (if k' = k then Some v else map_of al k')"
  by (simp add: update_conv)

lemma map_of_delete [simp]: "map_of (AList.delete k al) k' = (if k' = k then None else map_of al k')"
  by (simp add: delete_conv)

lemma listeners_simps [simp]:
  "listeners t (s\<lparr>events := AList.update t' h (events s)\<rparr>) = (if t = t' then handler_list (Some h) else listeners t s)"
  "listeners t (s\<lparr>events := AList.delete t' (events s)\<rparr>) = (if t = t' then [] else listeners t s)"
  "listeners t (s\<lparr>calls := c\<rparr>) = listeners t s" "listeners t (s\<lparr>fired := f\<rparr>) = listeners t s"
  by (simp_all add: listeners_def)

lemma listeners_add_handler: "listeners t' (add_handler t l s) = (if t' = t then listeners t s @ [l] else listeners t' s)"
  by (simp add: add_handler_def listeners_def split: option.splits handler.splits)

lemma listeners_check_leak [simp]: "listeners t' (check_leak t s) = listeners t' s"
  by (auto simp: check_leak_def listeners_def split: option.splits handler.splits bool.splits)

lemma events_check_leak: "map_of (events (check_leak t s)) t' = None \<longleftrightarrow> map_of (events s) t' = None"
  by (auto simp: check_leak_def split: option.splits handler.splits bool.splits)

lemma events_add_handler: "map_of (events (add_handler t l s)) t' = None \<longleftrightarrow> t' \<noteq> t \<and> map_of (events s) t' = None"
  by (simp add: add_handler_def)

lemma check_leak_sel [simp]: "fired (check_leak t s) = fired s" "calls (check_leak t s) = calls s"
  by (auto simp: check_leak_def split: option.splits handler.splits bool.splits)

lemma add_handler_sel [simp]: "fired (add_handler t l s) = fired s" "calls (add_handler t l s) = calls s"
  by (simp_all add: add_handler_def)

definition remove_last :: "listener \<Rightarrow> listener list \<Rightarrow> listener list" where
  "remove_last l ls = (case last_position l ls of None \<Rightarrow> ls | Some p \<Rightarrow> take p ls @ drop (Suc p) ls)"

lemma last_position_less: "last_position l ls = Some p \<Longrightarrow> p < length ls \<and> is_listener (ls ! p) l"
  by (induction ls arbitrary: p) (auto split: option.splits if_splits)

lemma last_position_snoc: "is_listener x l \<Longrightarrow> last_position l (ls @ [x]) = Some (length ls)"
  by (induction ls) simp_all

text \<open>Every array of listeners holds at least one.\<close>

definition arrays_filled :: "emitter \<Rightarrow> bool" where
  "arrays_filled s \<longleftrightarrow> (\<forall>t ls w. map_of (events s) t = Some (Many ls w) \<longrightarrow> ls \<noteq> [])"

definition quiet :: "emitter \<Rightarrow> bool" where
  "quiet s \<longleftrightarrow> map_of (events s) ''newListener'' = None \<and> map_of (events s) ''removeListener'' = None"

lemma addListener_quiet:
  "quiet s \<Longrightarrow> addListener fuel t l s = Some (check_leak t (add_handler t l s))"
  by (simp add: addListener_def quiet_def)

lemma removed_list:
  "map_of (events s) t = Some (Many ls w) \<Longrightarrow> last_position l ls = Some p \<Longrightarrow> length ls = 1 \<Longrightarrow> remove_last l ls = []"
  using last_position_less [of l ls p] by (cases ls) (auto simp: remove_last_def)

lemma removeListener_lists:
  assumes "map_of (events s) ''removeListener'' = None"
  shows "\<exists>s'. removeListener_with em t l s = Some s' \<and>
    listeners t' s' = (if t' = t then remove_last l (listeners t s) else listeners t' s) \<and>
    (quiet s \<longrightarrow> quiet s') \<and> fired s' = fired s \<and> calls s' = calls s"
proof -
  consider (none) "map_of (events s) t = None" | (single) x where "map_of (events s) t = Some (Single x)"
    | (many) ls w where "map_of (events s) t = Some (Many ls w)"
    by (metis handler.exhaust option.exhaust)
  then show ?thesis
  proof cases
    case none
    then show ?thesis by (simp add: removeListener_with_def listeners_def remove_last_def)
  next
    case single
    then show ?thesis using assms
      by (auto simp: removeListener_with_def listeners_def remove_last_def emit_removed_def quiet_def)
  next
    case many
    then show ?thesis using assms removed_list [OF many]
      by (cases "last_position l ls")
        (auto simp: removeListener_with_def emit_removed_def quiet_def listeners_def remove_last_def split: if_splits)
  qed
qed

section \<open>Calls\<close>

lemma call_plain: "call_all em (map Plain ps @ ls) args s = call_all em ls args (s\<lparr>calls := calls s @ map (\<lambda>p. (p, args)) ps\<rparr>)"
  by (induction ps arbitrary: s) simp_all

lemma quiet_calls [simp]: "quiet (s\<lparr>calls := c\<rparr>) = quiet s" "quiet (s\<lparr>fired := f\<rparr>) = quiet s"
  by (simp_all add: quiet_def)

lemma emit_handlers_call: "\<exists>em. emit_handlers fuel t args s = call_all em (listeners t s) args s"
  by (cases fuel) auto

lemma listeners_None: "map_of (events s) t = None \<Longrightarrow> listeners t s = []"
  by (simp add: listeners_def)

lemma remove_last_snoc: "is_listener x l \<Longrightarrow> remove_last l (ls @ [x]) = ls"
  by (simp add: remove_last_def last_position_snoc)

section \<open>Nested emissions are bounded\<close>

definition hsize :: "(ename \<times> handler) list \<Rightarrow> nat" where
  "hsize al = sum_list (map (\<lambda>(k, h). length (handler_list (Some h))) al)"

definition esize :: "emitter \<Rightarrow> nat" where
  "esize s = hsize (events s)"

definition keys_ok :: "emitter \<Rightarrow> bool" where
  "keys_ok s \<longleftrightarrow> distinct (map fst (events s))"

lemma hsize_absent: "map_of al t = None \<Longrightarrow> AList.delete t al = al"
  by (induction al) (auto simp: AList.delete_eq)

lemma hsize_delete:
  "distinct (map fst al) \<Longrightarrow> map_of al t = Some h \<Longrightarrow> hsize (AList.delete t al) + length (handler_list (Some h)) = hsize al"
proof (induction al)
  case (Cons kv al)
  then show ?case
  proof (cases "fst kv = t")
    case True
    then have "map_of al t = None" using Cons.prems(1) by (auto simp: map_of_eq_None_iff)
    then show ?thesis using True Cons.prems hsize_absent [of al t] by (cases kv) (auto simp: hsize_def AList.delete_eq)
  qed (cases kv, auto simp: hsize_def AList.delete_eq)
qed simp

lemma hsize_update:
  "map_of al t = Some h \<Longrightarrow>
    hsize (AList.update t h' al) + length (handler_list (Some h)) = hsize al + length (handler_list (Some h'))"
  by (induction al) (auto simp: hsize_def split: if_splits)

lemma esize_sel [simp]:
  "esize (s\<lparr>calls := c\<rparr>) = esize s" "esize (s\<lparr>fired := f\<rparr>) = esize s"
  "keys_ok (s\<lparr>calls := c\<rparr>) = keys_ok s" "keys_ok (s\<lparr>fired := f\<rparr>) = keys_ok s"
  by (simp_all add: esize_def keys_ok_def)

definition em_ok :: "nat \<Rightarrow> emit_fn \<Rightarrow> bool" where
  "em_ok n em \<longleftrightarrow> (\<forall>t args s. keys_ok s \<longrightarrow> esize s < n \<longrightarrow>
     (\<exists>s'. em t args s = Some s' \<and> keys_ok s' \<and> esize s' \<le> esize s))"

lemma emit_removed_bounded:
  assumes "em_ok n em" "keys_ok s'" "esize s' < esize s" "esize s \<le> n"
  shows "\<exists>s2. emit_removed em t l s' = Some s2 \<and> keys_ok s2 \<and> esize s2 \<le> esize s"
proof (cases "map_of (events s') ''removeListener'' = None")
  case True
  then show ?thesis using assms by (simp add: emit_removed_def)
next
  case False
  have "esize s' < n" using assms(3,4) by simp
  then obtain s2 where "em ''removeListener'' [ArgType t, ArgFn l] s' = Some s2" "keys_ok s2" "esize s2 \<le> esize s'"
    using assms(1,2) unfolding em_ok_def by blast
  then show ?thesis using False assms(3) by (simp add: emit_removed_def)
qed

lemma remove_bounded:
  assumes em: "em_ok n em" and s: "keys_ok s" "esize s \<le> n"
  shows "\<exists>s2. removeListener_with em t l s = Some s2 \<and> keys_ok s2 \<and> esize s2 \<le> esize s"
proof -
  note emit = emit_removed_bounded [OF em _ _ s(2), of _ t l]
  have del: "keys_ok (s\<lparr>events := AList.delete t (events s)\<rparr>)"
    using s(1) by (simp add: keys_ok_def distinct_delete)
  have delsize: "esize (s\<lparr>events := AList.delete t (events s)\<rparr>) < esize s"
    if "map_of (events s) t = Some h" "handler_list (Some h) \<noteq> []" for h
    using hsize_delete [of "events s" t h] s(1) that by (cases "handler_list (Some h)") (simp_all add: esize_def keys_ok_def)
  consider (none) "map_of (events s) t = None" | (single) x where "map_of (events s) t = Some (Single x)"
    | (many) ls w where "map_of (events s) t = Some (Many ls w)"
    by (metis handler.exhaust option.exhaust)
  then show ?thesis
  proof cases
    case single
    then show ?thesis using s emit [OF del delsize [OF single]] by (simp add: removeListener_with_def)
  next
    case many
    show ?thesis
    proof (cases "last_position l ls")
      case (Some p)
      then have p: "p < length ls" using last_position_less by blast
      let ?s = "s\<lparr>events := AList.update t (Many (take p ls @ drop (Suc p) ls) w) (events s)\<rparr>"
      have "esize ?s < esize s"
        using hsize_update [OF many, of "Many (take p ls @ drop (Suc p) ls) w"] p by (simp add: esize_def)
      moreover have "keys_ok ?s" using s(1) by (simp add: keys_ok_def distinct_update)
      moreover have "ls \<noteq> []" using p by auto
      ultimately show ?thesis
        using emit [of ?s] emit [OF del delsize [OF many]] many Some
        by (cases "length ls = 1") (simp_all add: removeListener_with_def)
    qed (use many s in \<open>simp add: removeListener_with_def\<close>)
  qed (use s in \<open>simp add: removeListener_with_def\<close>)
qed

lemma call_bounded:
  assumes em: "em_ok n em"
  shows "keys_ok s \<Longrightarrow> esize s \<le> n \<Longrightarrow> \<exists>s2. call_with em l args s = Some s2 \<and> keys_ok s2 \<and> esize s2 \<le> esize s"
proof (induction l arbitrary: s)
  case (OnceWrapper k t l)
  obtain s1 where s1: "removeListener_with em t (OnceWrapper k t l) s = Some s1" "keys_ok s1" "esize s1 \<le> esize s"
    using remove_bounded [OF em OnceWrapper.prems] by blast
  obtain s2 where "call_with em l args (s1\<lparr>fired := k # fired s1\<rparr>) = Some s2" "keys_ok s2" "esize s2 \<le> esize s1"
    using OnceWrapper.IH [of "s1\<lparr>fired := k # fired s1\<rparr>"] s1(2,3) OnceWrapper.prems(2) by auto
  then show ?case using s1 by simp
qed simp

lemma call_all_bounded:
  assumes em: "em_ok n em"
  shows "keys_ok s \<Longrightarrow> esize s \<le> n \<Longrightarrow> \<exists>s2. call_all em ls args s = Some s2 \<and> keys_ok s2 \<and> esize s2 \<le> esize s"
proof (induction ls arbitrary: s)
  case (Cons l ls)
  obtain s1 where s1: "call_with em l args s = Some s1" "keys_ok s1" "esize s1 \<le> esize s"
    using call_bounded [OF em Cons.prems] by blast
  then show ?case using Cons.IH [of s1] Cons.prems(2) by fastforce
qed simp

lemma emit_handlers_ok: "em_ok (Suc n) (emit_handlers n)"
proof (induction n)
  case 0
  have "em_ok 0 (\<lambda>_ _ _. None)" by (simp add: em_ok_def)
  from call_all_bounded [OF this] show ?case by (simp add: em_ok_def)
next
  case (Suc n)
  from call_all_bounded [OF Suc] show ?case by (simp add: em_ok_def)
qed

section \<open>Properties\<close>

text \<open>
  C27: Registering a listener and removing it again restores every listener list,
  when nobody listens to the emitter's own two events.  In between the
  listener is the last one of its event.
\<close>

theorem add_remove_roundtrip:
  assumes "map_of (events s) ''newListener'' = None" "map_of (events s) ''removeListener'' = None"
    and "t \<noteq> ''removeListener''"
  shows "\<exists>s1 s2. addListener fuel t l s = Some s1 \<and> listeners t s1 = listeners t s @ [l]
    \<and> removeListener fuel t l s1 = Some s2 \<and> listeners t' s2 = listeners t' s"
proof -
  let ?s1 = "check_leak t (add_handler t l s)"
  have ev: "map_of (events ?s1) ''removeListener'' = None"
    using assms(2,3) by (simp add: events_check_leak events_add_handler)
  obtain s2 where "removeListener_with (emit_handlers fuel) t l ?s1 = Some s2"
    "listeners t' s2 = (if t' = t then remove_last l (listeners t ?s1) else listeners t' ?s1)"
    using removeListener_lists [OF ev] by blast
  then show ?thesis
    using assms by (auto simp: addListener_quiet quiet_def removeListener_def listeners_add_handler remove_last_snoc is_listener_def)
qed

theorem add_remove_roundtrip_witness:
  "\<exists>s1 s2. addListener 0 ''data'' (Plain 7) EventEmitter_new = Some s1
    \<and> removeListener 0 ''data'' (Plain 7) s1 = Some s2 \<and> listeners ''data'' s2 = []"
proof -
  have "\<exists>s1 s2. addListener 0 ''data'' (Plain 7) EventEmitter_new = Some s1
    \<and> listeners ''data'' s1 = listeners ''data'' EventEmitter_new @ [Plain 7]
    \<and> removeListener 0 ''data'' (Plain 7) s1 = Some s2 \<and> listeners ''data'' s2 = listeners ''data'' EventEmitter_new"
    by (rule add_remove_roundtrip) (simp_all add: EventEmitter_new_def)
  then show ?thesis by (auto simp: listeners_def EventEmitter_new_def)
qed



text \<open>
  C29: Emission terminates: with a bound of nested emissions as large as the
  number of registered listeners, \<^verbatim>\<open>emit\<close> returns for every event, also when
  listeners wrapped by \<^verbatim>\<open>once\<close> are registered for the removal events that
  removing them emits, and it leaves no more listeners than before.
\<close>

theorem emit_terminates:
  assumes "distinct (map fst (events s))" "esize s \<le> fuel"
  shows "\<exists>r. emit_event fuel t args s = Some r \<and>
    (\<forall>b s'. r = Inr (b, s') \<longrightarrow> distinct (map fst (events s')) \<and> esize s' \<le> esize s)"
proof -
  have "\<exists>s'. emit_handlers fuel t args s = Some s' \<and> keys_ok s' \<and> esize s' \<le> esize s"
    using emit_handlers_ok [of fuel] assms unfolding em_ok_def keys_ok_def by simp
  then show ?thesis using assms by (auto simp: emit_event_def keys_ok_def)
qed

theorem emit_terminates_witness:
  "\<exists>r. emit_event 0 ''data'' [] EventEmitter_new = Some r"
  using emit_terminates [of EventEmitter_new 0 "''data''" "[]"]
  by (auto simp: EventEmitter_new_def esize_def hsize_def)

text \<open>
  While someone listens to \<^verbatim>\<open>removeListener\<close>, removing all listeners of an event
  that has none throws a \<^verbatim>\<open>TypeError\<close>: the method reads the length of an
  undefined list.  Without such a listener the same call returns.
\<close>

theorem removeAll_unknown_event:
  "map_of (events s) t = None \<Longrightarrow>
    removeAllListeners fuel (Some t) s =
      (if map_of (events s) ''removeListener'' = None
       then Some (Inr (s\<lparr>events := AList.delete t (events s)\<rparr>)) else Some (Inl TypeError))"
  by (simp add: removeAllListeners_def removeAll_type_def)

theorem removeAll_unknown_event_witness:
  "let s = the (addListener 0 ''removeListener'' (Plain 1) EventEmitter_new)
   in map_of (events s) ''data'' = None \<and> removeAllListeners 0 (Some ''data'') s = Some (Inl TypeError)"
  using removeAll_unknown_event [of "the (addListener 0 ''removeListener'' (Plain 1) EventEmitter_new)" "''data''" 0]
  by (simp add: addListener_def add_handler_def check_leak_def EventEmitter_new_def Let_def)

end
