(* ===== verification/Js_Process.thy ===== *)
theory Js_Process
  imports Js_Prelude
begin

text \<open>
  The \<^verbatim>\<open>nextTick\<close> queue of the bundled process module (module 24) on top of the
  browser's timers.  A queued function is a job: a number, the jobs it
  enqueues with \<^verbatim>\<open>nextTick\<close> while it runs, and whether it then throws.
\<close>

section \<open>Definitions\<close>

datatype job = Job (job_id: nat) (spawns: "job list") (throws: bool)

datatype timer = DrainQueue | CleanUpNextTick

record ticker =
  queue :: "job list"
  draining :: bool
  currentQueue :: "job list option"
  queueIndex :: int
  timers :: "(nat \<times> timer) list"
  nextTimer :: nat
  ran :: "nat list"

definition process_init :: ticker where
  "process_init = \<lparr> queue = [], draining = False, currentQueue = None, queueIndex = -1,
     timers = [], nextTimer = 0, ran = [] \<rparr>"

text \<open>\<^verbatim>\<open>setTimeout(fun, 0)\<close> and \<^verbatim>\<open>clearTimeout\<close>: pending timers fire in the order they were set.\<close>

definition runTimeout :: "timer \<Rightarrow> ticker \<Rightarrow> nat \<times> ticker" where
  "runTimeout f s = (nextTimer s, s\<lparr>timers := timers s @ [(nextTimer s, f)], nextTimer := nextTimer s + 1\<rparr>)"

definition runClearTimeout :: "nat \<Rightarrow> ticker \<Rightarrow> ticker" where
  "runClearTimeout marker s = s\<lparr>timers := filter (\<lambda>(m, _). m \<noteq> marker) (timers s)\<rparr>"

definition nextTick :: "job \<Rightarrow> ticker \<Rightarrow> ticker" where
  "nextTick j s =
    (let s1 = s\<lparr>queue := queue s @ [j]\<rparr>
     in if length (queue s1) = 1 \<and> \<not> draining s1 then snd (runTimeout DrainQueue s1) else s1)"

text \<open>\<^verbatim>\<open>Item.run\<close>: the job is recorded and enqueues its jobs; the caller looks at \<^const>\<open>throws\<close>.\<close>

definition item_run :: "job \<Rightarrow> ticker \<Rightarrow> ticker" where
  "item_run j s = fold nextTick (spawns j) (s\<lparr>ran := ran s @ [job_id j]\<rparr>)"

lemma nextTick_index [simp]: "queueIndex (nextTick j s) = queueIndex s"
  by (simp add: nextTick_def runTimeout_def Let_def)

lemma item_run_index [simp]: "queueIndex (item_run j s) = queueIndex s"
proof -
  have "queueIndex (fold nextTick js s) = queueIndex s" for js s by (induction js arbitrary: s) simp_all
  then show ?thesis by (simp add: item_run_def)
qed

text \<open>The inner loop of \<^verbatim>\<open>drainQueue\<close>; the flag tells that a job has thrown.\<close>

function drain_inner :: "int \<Rightarrow> ticker \<Rightarrow> bool \<times> ticker" where
  "drain_inner len s =
    (let s1 = s\<lparr>queueIndex := queueIndex s + 1\<rparr> in
     if queueIndex s1 < len then
       (case currentQueue s1 of None \<Rightarrow> drain_inner len s1
        | Some cq \<Rightarrow>
          (case js_nth cq (queueIndex s1) of Inl e \<Rightarrow> (True, s1)
           | Inr j \<Rightarrow> if throws j then (True, item_run j s1) else drain_inner len (item_run j s1)))
     else (False, s1))"
  by pat_completeness auto
termination
  by (relation "measure (\<lambda>(len, s). nat (len - queueIndex s))") auto

declare drain_inner.simps [simp del]

fun drain_outer :: "nat \<Rightarrow> nat \<Rightarrow> ticker \<Rightarrow> (bool \<times> ticker) option" where
  "drain_outer 0 len s = (if len = 0 then Some (False, s) else None)"
| "drain_outer (Suc fuel) len s =
    (if len = 0 then Some (False, s)
     else case drain_inner (int len) (s\<lparr>currentQueue := Some (queue s), queue := []\<rparr>) of
       (True, s2) \<Rightarrow> Some (True, s2)
     | (False, s2) \<Rightarrow> let s3 = s2\<lparr>queueIndex := -1\<rparr> in drain_outer fuel (length (queue s3)) s3)"

definition drainQueue :: "nat \<Rightarrow> ticker \<Rightarrow> ticker option" where
  "drainQueue fuel s =
    (if draining s then Some s
     else let (timeout, s1) = runTimeout CleanUpNextTick s;
              s2 = s1\<lparr>draining := True\<rparr>
       in case drain_outer fuel (length (queue s2)) s2 of None \<Rightarrow> None
         | Some (True, s3) \<Rightarrow> Some s3
         | Some (False, s3) \<Rightarrow> Some (runClearTimeout timeout (s3\<lparr>currentQueue := None, draining := False\<rparr>)))"

definition cleanUpNextTick :: "nat \<Rightarrow> ticker \<Rightarrow> ticker option" where
  "cleanUpNextTick fuel s =
    (if \<not> draining s \<or> currentQueue s = None then Some s
     else let s1 = s\<lparr>draining := False\<rparr>; cq = the (currentQueue s);
              s2 = (if length cq \<noteq> 0 then s1\<lparr>queue := cq @ queue s1\<rparr> else s1\<lparr>queueIndex := -1\<rparr>)
       in if length (queue s2) \<noteq> 0 then drainQueue fuel s2 else Some s2)"

text \<open>One turn of the event loop: the oldest timer fires.\<close>

definition fire :: "nat \<Rightarrow> ticker \<Rightarrow> ticker option" where
  "fire fuel s = (case timers s of [] \<Rightarrow> Some s
   | (m, DrainQueue) # ts \<Rightarrow> drainQueue fuel (s\<lparr>timers := ts\<rparr>)
   | (m, CleanUpNextTick) # ts \<Rightarrow> cleanUpNextTick fuel (s\<lparr>timers := ts\<rparr>))"

fun event_loop :: "nat \<Rightarrow> nat \<Rightarrow> ticker \<Rightarrow> ticker option" where
  "event_loop 0 fuel s = Some s"
| "event_loop (Suc n) fuel s = (case fire fuel s of None \<Rightarrow> None | Some s1 \<Rightarrow> event_loop n fuel s1)"

section \<open>The queue as a list\<close>

text \<open>The jobs that still have to run, in order.\<close>

definition pending :: "ticker \<Rightarrow> job list" where
  "pending s = (case currentQueue s of None \<Rightarrow> queue s | Some cq \<Rightarrow> drop (nat (queueIndex s + 1)) cq @ queue s)"

fun job_count :: "job \<Rightarrow> nat" where
  "job_count (Job n js t) = Suc (sum_list (map job_count js))"

abbreviation jobs_count :: "job list \<Rightarrow> nat" where
  "jobs_count js \<equiv> sum_list (map job_count js)"

text \<open>First in, first out: a job runs and its jobs go to the end.\<close>

function fifo :: "job list \<Rightarrow> nat list" where
  "fifo [] = []"
| "fifo (Job n js t # rest) = n # fifo (rest @ js)"
  by pat_completeness auto
termination
  by (relation "measure jobs_count") auto

lemma fifo_Cons: "fifo (j # rest) = job_id j # fifo (rest @ spawns j)"
  by (cases j) simp

lemma count_Cons: "job_count j = Suc (jobs_count (spawns j))"
  by (cases j) simp

lemma nextTick_draining: "draining s \<Longrightarrow> nextTick j s = s\<lparr>queue := queue s @ [j]\<rparr>"
  by (simp add: nextTick_def Let_def)

lemma fold_nextTick: "draining s \<Longrightarrow> fold nextTick js s = s\<lparr>queue := queue s @ js\<rparr>"
proof (induction js arbitrary: s)
  case (Cons j js)
  then show ?case by (simp add: nextTick_draining)
qed simp

lemma item_run_draining: "draining s \<Longrightarrow> item_run j s = s\<lparr>ran := ran s @ [job_id j], queue := queue s @ spawns j\<rparr>"
  by (simp add: item_run_def fold_nextTick)

text \<open>Draining keeps the order: what has run, followed by what is pending, is the FIFO order.\<close>

definition trace :: "ticker \<Rightarrow> nat list" where
  "trace s = ran s @ fifo (pending s)"

definition same_env :: "ticker \<Rightarrow> ticker \<Rightarrow> bool" where
  "same_env s s' \<longleftrightarrow> timers s' = timers s \<and> nextTimer s' = nextTimer s \<and> draining s' = draining s"

lemma drop_index: "0 \<le> k \<Longrightarrow> k < int (length xs) \<Longrightarrow> drop (nat k) xs = xs ! nat k # drop (nat (k + 1)) xs"
  by (subst Cons_nth_drop_Suc [symmetric]) (auto simp: nat_add_distrib)

lemma same_env_trans: "same_env a b \<Longrightarrow> same_env b c \<Longrightarrow> same_env a c"
  by (simp add: same_env_def)

definition inner_post :: "job list \<Rightarrow> ticker \<Rightarrow> bool \<times> ticker \<Rightarrow> bool" where
  "inner_post cq s r \<longleftrightarrow> (let (threw, s') = r in
     same_env s s' \<and> currentQueue s' = Some cq \<and> trace s' = trace s \<and> jobs_count (pending s') \<le> jobs_count (pending s)
     \<and> (queueIndex s + 1 < int (length cq) \<longrightarrow> jobs_count (pending s') < jobs_count (pending s))
     \<and> (threw \<longrightarrow> 0 \<le> queueIndex s' \<and> queueIndex s' < int (length cq))
     \<and> (threw \<longrightarrow> queueIndex s + 1 < int (length cq))
     \<and> (\<not> threw \<longrightarrow> int (length cq) \<le> queueIndex s'))"

text \<open>One iteration of the inner loop takes the first pending job.\<close>

lemma item_step:
  assumes "draining s" "currentQueue s = Some cq" "-1 \<le> queueIndex s" "queueIndex s + 1 < int (length cq)"
  defines "j \<equiv> cq ! nat (queueIndex s + 1)"
  defines "s2 \<equiv> item_run j (s\<lparr>queueIndex := queueIndex s + 1\<rparr>)"
  shows "draining s2" "currentQueue s2 = Some cq" "queueIndex s2 = queueIndex s + 1" "same_env s s2"
    "trace s2 = trace s" "jobs_count (pending s2) < jobs_count (pending s)"
proof -
  have s2: "s2 = s\<lparr>queueIndex := queueIndex s + 1, ran := ran s @ [job_id j], queue := queue s @ spawns j\<rparr>"
    using assms(1) by (simp add: s2_def item_run_draining)
  have p: "pending s = j # drop (nat (queueIndex s + 1 + 1)) cq @ queue s"
    using drop_index [of "queueIndex s + 1" cq] assms(2-4) by (simp add: pending_def j_def)
  have p2: "pending s2 = drop (nat (queueIndex s + 1 + 1)) cq @ queue s @ spawns j"
    using assms(2) by (simp add: pending_def s2)
  show "draining s2" "currentQueue s2 = Some cq" "queueIndex s2 = queueIndex s + 1" "same_env s s2"
    using assms(1,2) by (simp_all add: s2 same_env_def)
  show "trace s2 = trace s" by (simp add: trace_def p p2 fifo_Cons) (simp add: s2)
  show "jobs_count (pending s2) < jobs_count (pending s)" by (simp add: p p2 count_Cons)
qed

lemma drain_inner_trace:
  "draining s \<Longrightarrow> currentQueue s = Some cq \<Longrightarrow> -1 \<le> queueIndex s \<Longrightarrow> len = int (length cq) \<Longrightarrow>
    inner_post cq s (drain_inner len s)"
proof (induction len s rule: drain_inner.induct)
  case (1 len s)
  let ?j = "cq ! nat (queueIndex s + 1)" and ?s1 = "s\<lparr>queueIndex := queueIndex s + 1\<rparr>"
  show ?case
  proof (cases "queueIndex s + 1 < len")
    case True
    note st = item_step [OF 1(3-5), unfolded 1(6) [symmetric], OF True]
    have nth: "js_nth cq (queueIndex s + 1) = Inr ?j" using True 1(5,6) by simp
    show ?thesis
    proof (cases "throws ?j")
      case T: True
      then have "drain_inner len s = (True, item_run ?j ?s1)"
        using True nth 1(4) by (subst drain_inner.simps) (simp add: Let_def)
      then show ?thesis using st True 1(5,6) by (simp add: inner_post_def)
    next
      case F: False
      then have eq: "drain_inner len s = drain_inner len (item_run ?j ?s1)"
        using True nth 1(4) by (subst drain_inner.simps) (simp add: Let_def)
      have "inner_post cq (item_run ?j ?s1) (drain_inner len (item_run ?j ?s1))"
        using 1(2) [OF refl _ _ _ F, of cq] True nth st 1(4-6) by simp
      then show ?thesis unfolding eq using st True 1(6)
        by (auto simp: inner_post_def Let_def split: prod.splits intro: same_env_trans)
    qed
  next
    case False
    then have "drain_inner len s = (False, ?s1)" by (subst drain_inner.simps) (simp add: Let_def)
    moreover have "pending ?s1 = pending s" using False 1(4,6) by (simp add: pending_def)
    ultimately show ?thesis using False 1(4,6) by (simp add: inner_post_def same_env_def trace_def)
  qed
qed

section \<open>Draining\<close>

text \<open>What a call of \<^verbatim>\<open>drainQueue\<close> is going to run: the queue from the index on.\<close>

definition to_drain :: "ticker \<Rightarrow> job list" where
  "to_drain s = drop (nat (queueIndex s + 1)) (queue s)"

definition stopped :: "ticker \<Rightarrow> bool" where
  "stopped s \<longleftrightarrow> draining s \<and> (\<exists>cq. currentQueue s = Some cq \<and> 0 \<le> queueIndex s \<and> queueIndex s < int (length cq))"

lemma count_pos [simp]: "job_count j \<noteq> 0"
  by (simp add: count_Cons)

lemma pending_take: "pending (s\<lparr>currentQueue := Some (queue s), queue := []\<rparr>) = to_drain s"
  by (simp add: pending_def to_drain_def)

definition outer_post :: "ticker \<Rightarrow> bool \<times> ticker \<Rightarrow> bool" where
  "outer_post s r \<longleftrightarrow> (let (threw, s') = r in same_env s s' \<and>
     (if threw then stopped s' \<and> trace s' = ran s @ fifo (to_drain s) \<and> jobs_count (pending s') < jobs_count (to_drain s)
      else queue s' = [] \<and> queueIndex s' = -1 \<and> ran s' = ran s @ fifo (to_drain s)))"

text \<open>One pass of the outer loop.\<close>

lemma outer_pass:
  assumes "draining s" "-1 \<le> queueIndex s" "drain_inner (int (length (queue s))) (s\<lparr>currentQueue := Some (queue s), queue := []\<rparr>) = (threw, s2)"
  shows "threw \<Longrightarrow> outer_post s (True, s2)"
    and "\<not> threw \<Longrightarrow> draining s2 \<and> same_env s s2 \<and> ran s2 @ fifo (queue s2) = ran s @ fifo (to_drain s)
      \<and> (queue s2 = [] \<or> jobs_count (queue s2) < jobs_count (to_drain s)) \<and> jobs_count (queue s2) \<le> jobs_count (to_drain s)"
proof -
  let ?s1 = "s\<lparr>currentQueue := Some (queue s), queue := []\<rparr>"
  have "inner_post (queue s) ?s1 (threw, s2)"
    using assms drain_inner_trace [of ?s1 "queue s" "int (length (queue s))"] by simp
  then have post: "same_env s s2" "currentQueue s2 = Some (queue s)" "trace s2 = ran s @ fifo (to_drain s)"
    "jobs_count (pending s2) \<le> jobs_count (to_drain s)"
    "queueIndex s + 1 < int (length (queue s)) \<Longrightarrow> jobs_count (pending s2) < jobs_count (to_drain s)"
    "threw \<Longrightarrow> 0 \<le> queueIndex s2 \<and> queueIndex s2 < int (length (queue s)) \<and> queueIndex s + 1 < int (length (queue s))"
    "\<not> threw \<Longrightarrow> int (length (queue s)) \<le> queueIndex s2"
    unfolding inner_post_def Let_def pending_take by (auto simp: same_env_def trace_def [of ?s1] pending_take)
  have dr: "draining s2" using post(1) assms(1) by (simp add: same_env_def)
  show "outer_post s (True, s2)" if threw using post that dr by (simp add: outer_post_def stopped_def)
  show "draining s2 \<and> same_env s s2 \<and> ran s2 @ fifo (queue s2) = ran s @ fifo (to_drain s)
      \<and> (queue s2 = [] \<or> jobs_count (queue s2) < jobs_count (to_drain s)) \<and> jobs_count (queue s2) \<le> jobs_count (to_drain s)"
    if "\<not> threw"
  proof -
    have p: "pending s2 = queue s2" using post(2,7) that by (simp add: pending_def)
    have "queue s2 = [] \<or> jobs_count (queue s2) < jobs_count (to_drain s)"
    proof (cases "queueIndex s + 1 < int (length (queue s))")
      case False
      then have "to_drain s = []" by (simp add: to_drain_def)
      then show ?thesis using post(4) p by simp
    qed (use post(5) p in simp)
    then show ?thesis using dr post(1,3,4) p by (simp add: trace_def)
  qed
qed

lemma drain_outer_ok:
  "draining s \<Longrightarrow> -1 \<le> queueIndex s \<Longrightarrow> len = length (queue s) \<Longrightarrow> (queue s = [] \<longrightarrow> queueIndex s = -1) \<Longrightarrow>
    queue s = [] \<or> jobs_count (to_drain s) < fuel \<Longrightarrow> \<exists>r. drain_outer fuel len s = Some r \<and> outer_post s r"
proof (induction fuel arbitrary: len s)
  case 0
  then show ?case by (simp add: outer_post_def same_env_def to_drain_def)
next
  case (Suc fuel)
  show ?case
  proof (cases "len = 0")
    case True
    then show ?thesis using Suc.prems by (simp add: outer_post_def same_env_def to_drain_def)
  next
    case False
    obtain threw s2 where r: "drain_inner (int len) (s\<lparr>currentQueue := Some (queue s), queue := []\<rparr>) = (threw, s2)"
      by fastforce
    note pass = outer_pass [OF Suc.prems(1,2) r [unfolded Suc.prems(3)]]
    show ?thesis
    proof (cases threw)
      case True
      then show ?thesis using pass(1) r False by simp
    next
      case F: False
      let ?s3 = "s2\<lparr>queueIndex := -1\<rparr>"
      have vp: "to_drain ?s3 = queue s2" by (simp add: to_drain_def)
      have "\<exists>r. drain_outer fuel (length (queue ?s3)) ?s3 = Some r \<and> outer_post ?s3 r"
        using pass(2) [OF F] Suc.prems(3,5) False by (intro Suc.IH) (auto simp: to_drain_def)
      then obtain t s' where t: "drain_outer fuel (length (queue ?s3)) ?s3 = Some (t, s')" "outer_post ?s3 (t, s')"
        by auto
      have "outer_post s (t, s')"
        using t(2) pass(2) [OF F] vp by (auto simp: outer_post_def same_env_def split: if_splits)
      then show ?thesis using False r F t(1) by (simp add: Let_def)
    qed
  qed
qed

section \<open>The event loop\<close>

text \<open>
  Between two turns of the event loop the module is idle, with one timer when
  jobs are queued, or a job has thrown and the clean-up timer is pending.
\<close>

definition idle :: "ticker \<Rightarrow> bool" where
  "idle s \<longleftrightarrow> \<not> draining s \<and> currentQueue s = None \<and> queueIndex s = -1
    \<and> map snd (timers s) = (if queue s = [] then [] else [DrainQueue])"

definition failed :: "ticker \<Rightarrow> bool" where
  "failed s \<longleftrightarrow> stopped s \<and> map snd (timers s) = [CleanUpNextTick]"

definition tick_inv :: "ticker \<Rightarrow> bool" where
  "tick_inv s \<longleftrightarrow> idle s \<or> failed s"

lemma drainQueue_ok:
  assumes "\<not> draining s" "timers s = []" "-1 \<le> queueIndex s" "queue s \<noteq> []" "jobs_count (to_drain s) < fuel"
  shows "\<exists>s'. drainQueue fuel s = Some s' \<and> tick_inv s' \<and> trace s' = ran s @ fifo (to_drain s) \<and>
    (timers s' = [] \<or> jobs_count (pending s') < jobs_count (to_drain s))"
proof -
  let ?s2 = "(snd (runTimeout CleanUpNextTick s))\<lparr>draining := True\<rparr>"
  have vp: "to_drain ?s2 = to_drain s" by (simp add: to_drain_def runTimeout_def)
  have "\<exists>r. drain_outer fuel (length (queue ?s2)) ?s2 = Some r \<and> outer_post ?s2 r"
    using assms vp by (intro drain_outer_ok) (simp_all add: runTimeout_def)
  then obtain t s3 where t: "drain_outer fuel (length (queue ?s2)) ?s2 = Some (t, s3)" "outer_post ?s2 (t, s3)" by auto
  show ?thesis
  proof (cases t)
    case True
    then have "drainQueue fuel s = Some s3" using t(1) assms(1) by (simp add: drainQueue_def runTimeout_def Let_def)
    then show ?thesis using t(2) True assms(2) vp
      by (simp add: outer_post_def tick_inv_def failed_def same_env_def runTimeout_def)
  next
    case False
    let ?s4 = "runClearTimeout (nextTimer s) (s3\<lparr>currentQueue := None, draining := False\<rparr>)"
    have "drainQueue fuel s = Some ?s4" using t(1) False assms(1) by (simp add: drainQueue_def runTimeout_def Let_def)
    moreover have "timers ?s4 = []" "queue ?s4 = []" "queueIndex ?s4 = -1" "ran ?s4 = ran s @ fifo (to_drain s)"
      using t(2) False assms(2) vp by (simp_all add: outer_post_def same_env_def runTimeout_def runClearTimeout_def)
    ultimately show ?thesis
      by (simp add: tick_inv_def idle_def trace_def pending_def) (simp add: runClearTimeout_def)
  qed
qed

lemma fire_ok:
  assumes "tick_inv s" "jobs_count (pending s) < fuel"
  shows "\<exists>s'. fire fuel s = Some s' \<and> tick_inv s' \<and> trace s' = trace s \<and>
    (timers s' = [] \<or> jobs_count (pending s') < jobs_count (pending s))"
proof (rule disjE [OF assms(1) [unfolded tick_inv_def]])
  assume i: "idle s"
  show ?thesis
  proof (cases "queue s = []")
    case True
    then show ?thesis using i by (simp add: fire_def idle_def tick_inv_def)
  next
    case False
    then obtain m where m: "timers s = [(m, DrainQueue)]" using i by (auto simp: idle_def)
    have "pending s = to_drain s" using i by (simp add: pending_def to_drain_def idle_def)
    then show ?thesis
      using drainQueue_ok [of "s\<lparr>timers := []\<rparr>" fuel] i False assms(2) m
      by (simp add: fire_def idle_def to_drain_def trace_def)
  qed
next
  assume f: "failed s"
  then obtain m cq where m: "timers s = [(m, CleanUpNextTick)]" "draining s" "currentQueue s = Some cq"
    "0 \<le> queueIndex s" "queueIndex s < int (length cq)" by (auto simp: failed_def stopped_def)
  let ?s2 = "s\<lparr>timers := [], draining := False, queue := cq @ queue s\<rparr>"
  have ne: "cq \<noteq> []" using m(4,5) by auto
  have vp: "to_drain ?s2 = pending s" using m(3-5) by (simp add: to_drain_def pending_def)
  have "fire fuel s = drainQueue fuel ?s2"
    using m(1-3) ne by (simp add: fire_def cleanUpNextTick_def Let_def)
  then show ?thesis
    using drainQueue_ok [of ?s2 fuel] m(4) ne assms(2) vp by (simp add: trace_def)
qed

lemma tick_inv_done: "tick_inv s \<Longrightarrow> timers s = [] \<Longrightarrow> pending s = []"
  by (auto simp: tick_inv_def idle_def failed_def pending_def split: if_splits)

lemma event_loop_idle: "timers s = [] \<Longrightarrow> event_loop n fuel s = Some s"
  by (induction n) (simp_all add: fire_def)

lemma event_loop_ok:
  "tick_inv s \<Longrightarrow> jobs_count (pending s) < fuel \<Longrightarrow> jobs_count (pending s) < n \<Longrightarrow>
    \<exists>s'. event_loop n fuel s = Some s' \<and> tick_inv s' \<and> timers s' = [] \<and> ran s' = trace s"
proof (induction n arbitrary: s)
  case (Suc n)
  obtain s1 where s1: "fire fuel s = Some s1" "tick_inv s1" "trace s1 = trace s"
    "timers s1 = [] \<or> jobs_count (pending s1) < jobs_count (pending s)" using fire_ok [OF Suc.prems(1,2)] by blast
  show ?case
  proof (cases "timers s1 = []")
    case True
    then show ?thesis using s1 tick_inv_done [OF s1(2) True] by (simp add: event_loop_idle trace_def)
  next
    case False
    then show ?thesis using s1 Suc.IH [of s1] Suc.prems by simp
  qed
qed simp

section \<open>Properties\<close>

lemma tick_inv_nextTick: "tick_inv s \<Longrightarrow> tick_inv (nextTick j s) \<and> pending (nextTick j s) = pending s @ [j] \<and> ran (nextTick j s) = ran s"
  by (auto simp: tick_inv_def idle_def failed_def stopped_def nextTick_def runTimeout_def pending_def Let_def)

lemma tick_inv_nextTicks:
  "tick_inv s \<Longrightarrow> tick_inv (fold nextTick js s) \<and> pending (fold nextTick js s) = pending s @ js \<and> ran (fold nextTick js s) = ran s"
proof (induction js arbitrary: s)
  case (Cons j js)
  then show ?case using tick_inv_nextTick [of s j] Cons.IH [of "nextTick j s"] by simp
qed simp

text \<open>
  C30: Jobs given to \<^verbatim>\<open>nextTick\<close> run exactly once, in first-in first-out order,
  together with the jobs they enqueue themselves, also when jobs throw: the
  event loop empties its timers after finitely many turns, and what has run
  then is the FIFO order of the enqueued jobs.
\<close>

theorem nextTick_fifo:
  "\<exists>s. event_loop (Suc (jobs_count js)) (Suc (jobs_count js)) (fold nextTick js process_init) = Some s
     \<and> timers s = [] \<and> ran s = fifo js"
proof -
  have "tick_inv process_init" "pending process_init = []" "ran process_init = []"
    by (simp_all add: tick_inv_def idle_def process_init_def pending_def)
  then have s: "tick_inv (fold nextTick js process_init)" "pending (fold nextTick js process_init) = js"
    "trace (fold nextTick js process_init) = fifo js"
    using tick_inv_nextTicks [of process_init js] by (simp_all add: trace_def)
  show ?thesis
    using event_loop_ok [OF s(1), of "Suc (jobs_count js)" "Suc (jobs_count js)"] s(2,3) by auto
qed

inductive tick_step :: "ticker \<Rightarrow> ticker \<Rightarrow> bool" where
  enqueue: "tick_step s (nextTick j s)"
| turn: "fire fuel s = Some s' \<Longrightarrow> jobs_count (pending s) < fuel \<Longrightarrow> tick_step s s'"

inductive_cases tick_stepE: "tick_step s s'"

interpretation ticks: invariant_system "\<lambda>s. s = process_init" tick_step tick_inv
proof unfold_locales
  fix s assume "s = process_init"
  then show "tick_inv s" by (simp add: tick_inv_def idle_def process_init_def)
next
  fix s s' assume "tick_inv s" "tick_step s s'"
  then show "tick_inv s'"
    by (auto elim!: tick_stepE dest: fire_ok simp: tick_inv_nextTick)
qed

text \<open>
  No wake-up is lost: in every state reached by calls of \<^verbatim>\<open>nextTick\<close> and turns
  of the event loop, in any order and with any jobs, a timer is pending
  whenever a job is.
\<close>

theorem no_lost_wakeup:
  assumes "reach (\<lambda>s. s = process_init) tick_step s" "pending s \<noteq> []"
  shows "timers s \<noteq> []"
  using tick_inv_done ticks.reach_inv [OF assms(1)] assms(2) by blast

theorem no_lost_wakeup_witness:
  "pending (nextTick (Job 1 [] False) process_init) \<noteq> [] \<and> timers (nextTick (Job 1 [] False) process_init) \<noteq> []"
proof
  show p: "pending (nextTick (Job 1 [] False) process_init) \<noteq> []" by code_simp
  have "reach (\<lambda>s. s = process_init) tick_step process_init" by (rule reach_init) (rule refl)
  then have "reach (\<lambda>s. s = process_init) tick_step (nextTick (Job 1 [] False) process_init)"
    by (rule reach_step) (rule enqueue)
  from no_lost_wakeup [OF this p] show "timers (nextTick (Job 1 [] False) process_init) \<noteq> []" .
qed

end
