(* ===== verification/Js_RegExp.thy ===== *)
theory Js_RegExp
  imports Js_Prelude
begin

text \<open>
  The regular expressions of the language, as far as the glob matcher uses
  them: the syntax without the \<^verbatim>\<open>u\<close> flag and without back references, where a
  string that is not a regular expression is a syntax error, and the test
  whether a string matches.  Capturing groups only group, since no match
  result is read.
\<close>

section \<open>Syntax trees\<close>

datatype class_item = CUnit code_unit | CRange code_unit code_unit
  | CDigit bool | CWord bool | CSpace bool

datatype regex = REmpty | RClass bool "class_item list" | RDot
  | RSeq regex regex | RAlt regex regex | RRep regex nat "nat option"
  | RLook bool regex | RBegin | REnd | RBoundary bool

abbreviation RChar :: "code_unit \<Rightarrow> regex" where
  "RChar c \<equiv> RClass True [CUnit c]"

section \<open>Parser\<close>

definition hex_digit :: "code_unit \<Rightarrow> bool" where
  "hex_digit c \<longleftrightarrow> is_digit c \<or> 65 \<le> c \<and> c \<le> 70 \<or> 97 \<le> c \<and> c \<le> 102"

definition hex_val :: "ustring \<Rightarrow> int" where
  "hex_val ds = foldl (\<lambda>v c. 16 * v + (if c \<le> 57 then c - 48 else if c \<le> 70 then c - 55 else c - 87)) 0 ds"

definition is_letter :: "code_unit \<Rightarrow> bool" where
  "is_letter c \<longleftrightarrow> 65 \<le> c \<and> c \<le> 90 \<or> 97 \<le> c \<and> c \<le> 122"

definition octal_digits :: "ustring \<Rightarrow> ustring" where
  "octal_digits s = takeWhile (\<lambda>c. 48 \<le> c \<and> c \<le> 55) (take (if take 1 s \<le> [51] then 3 else 2) s)"

text \<open>What follows a backslash, except for the word boundaries outside a class.\<close>

definition re_escape :: "ustring \<Rightarrow> (class_item \<times> ustring) option" where
  "re_escape s = (case s of [] \<Rightarrow> None
   | c # s \<Rightarrow>
     if c = 100 then Some (CDigit True, s) else if c = 68 then Some (CDigit False, s)
     else if c = 119 then Some (CWord True, s) else if c = 87 then Some (CWord False, s)
     else if c = 115 then Some (CSpace True, s) else if c = 83 then Some (CSpace False, s)
     else if c = 98 then Some (CUnit 8, s) else if c = 102 then Some (CUnit 12, s)
     else if c = 110 then Some (CUnit 10, s) else if c = 114 then Some (CUnit 13, s)
     else if c = 116 then Some (CUnit 9, s) else if c = 118 then Some (CUnit 11, s)
     else if c = 120 \<and> length (takeWhile hex_digit (take 2 s)) = 2 then Some (CUnit (hex_val (take 2 s)), drop 2 s)
     else if c = 117 \<and> length (takeWhile hex_digit (take 4 s)) = 4 then Some (CUnit (hex_val (take 4 s)), drop 4 s)
     else if c = 99 then
       (if s \<noteq> [] \<and> is_letter (hd s) then Some (CUnit (hd s mod 32), tl s) else Some (CUnit 92, c # s))
     else if 48 \<le> c \<and> c \<le> 55 then
       (let ds = octal_digits (c # s)
        in Some (CUnit (foldl (\<lambda>v d. 8 * v + (d - 48)) 0 ds), drop (length ds) (c # s)))
     else Some (CUnit c, s))"

definition class_atom :: "ustring \<Rightarrow> (class_item \<times> ustring) option" where
  "class_atom s = (case s of [] \<Rightarrow> None | c # s' \<Rightarrow> if c = 92 then re_escape s' else Some (CUnit c, s'))"

definition class_range :: "class_item \<Rightarrow> class_item \<Rightarrow> class_item list option" where
  "class_range x y = (case (x, y) of
     (CUnit a, CUnit b) \<Rightarrow> if a \<le> b then Some [CRange a b] else None
   | _ \<Rightarrow> Some [x, CUnit 45, y])"

text \<open>The items up to the closing bracket; the number bounds the rounds and is at most the length.\<close>

primrec re_class :: "nat \<Rightarrow> ustring \<Rightarrow> (class_item list \<times> ustring) option" where
  "re_class 0 s = None"
| "re_class (Suc n) s =
    (if take 1 s = [93] then Some ([], drop 1 s)
     else Option.bind (class_atom s) (\<lambda>(x, s1).
       if take 1 s1 = [45] \<and> drop 1 s1 \<noteq> [] \<and> s1 ! 1 \<noteq> 93
       then Option.bind (class_atom (drop 1 s1)) (\<lambda>(y, s2). Option.bind (class_range x y) (\<lambda>r.
              map_option (\<lambda>(is, s3). (r @ is, s3)) (re_class n s2)))
       else map_option (\<lambda>(is, s2). (x # is, s2)) (re_class n s1)))"

text \<open>A quantifier, with the question mark of its lazy form; without one the term stands for itself.\<close>

definition skip_lazy :: "ustring \<Rightarrow> ustring" where
  "skip_lazy s = (if take 1 s = [63] then drop 1 s else s)"

definition brace_quant :: "ustring \<Rightarrow> (nat \<times> nat option \<times> ustring) option" where
  "brace_quant s =
    (let ds = takeWhile is_digit s; s1 = drop (length ds) s; lo = nat (digits_val ds) in
     if ds = [] then None
     else if take 1 s1 = [125] then Some (lo, Some lo, drop 1 s1)
     else if take 1 s1 = [44] then
       (let es = takeWhile is_digit (drop 1 s1); s2 = drop (length es + 1) s1 in
        if take 1 s2 = [125] then Some (lo, if es = [] then None else Some (nat (digits_val es)), drop 1 s2) else None)
     else None)"

definition re_quant :: "regex \<Rightarrow> ustring \<Rightarrow> (regex \<times> ustring) option" where
  "re_quant r s = (case s of [] \<Rightarrow> Some (r, s)
   | c # s' \<Rightarrow>
     if c = 42 then Some (RRep r 0 None, skip_lazy s')
     else if c = 43 then Some (RRep r 1 None, skip_lazy s')
     else if c = 63 then Some (RRep r 0 (Some 1), skip_lazy s')
     else if c = 123 then
       (case brace_quant s' of None \<Rightarrow> Some (r, s)
        | Some (lo, hi, s2) \<Rightarrow>
          if (case hi of None \<Rightarrow> True | Some h \<Rightarrow> lo \<le> h) then Some (RRep r lo hi, skip_lazy s2) else None)
     else Some (r, s))"

definition re_close :: "(regex \<Rightarrow> regex) \<Rightarrow> (regex \<times> ustring) option \<Rightarrow> (regex \<times> ustring) option" where
  "re_close f m = (case m of Some (r, s) \<Rightarrow> if take 1 s = [41] then Some (f r, drop 1 s) else None | None \<Rightarrow> None)"

text \<open>Disjunctions, sequences and single terms; the number bounds the depth of the recursion.\<close>

fun re_disj :: "nat \<Rightarrow> ustring \<Rightarrow> (regex \<times> ustring) option"
  and re_seq :: "nat \<Rightarrow> ustring \<Rightarrow> (regex \<times> ustring) option"
  and re_term :: "nat \<Rightarrow> ustring \<Rightarrow> (regex \<times> ustring) option" where
  "re_disj 0 s = None"
| "re_disj (Suc n) s = Option.bind (re_seq n s) (\<lambda>(r, s1).
     if take 1 s1 = [124] then map_option (\<lambda>(r2, s2). (RAlt r r2, s2)) (re_disj n (drop 1 s1)) else Some (r, s1))"
| "re_seq 0 s = None"
| "re_seq (Suc n) s =
    (if s = [] \<or> hd s = 124 \<or> hd s = 41 then Some (REmpty, s)
     else Option.bind (re_term n s) (\<lambda>(t, s1). Option.bind (re_quant t s1) (\<lambda>(q, s2).
       map_option (\<lambda>(r, s3). (RSeq q r, s3)) (re_seq n s2))))"
| "re_term 0 s = None"
| "re_term (Suc n) s = (case s of [] \<Rightarrow> None
   | c # s' \<Rightarrow>
     if c = 40 then
       (if take 2 s' = [63, 58] then re_close id (re_disj n (drop 2 s'))
        else if take 2 s' = [63, 33] then re_close (RLook False) (re_disj n (drop 2 s'))
        else if take 2 s' = [63, 61] then re_close (RLook True) (re_disj n (drop 2 s'))
        else re_close id (re_disj n s'))
     else if c = 91 then
       (if take 1 s' = [94] then map_option (\<lambda>(is, s2). (RClass False is, s2)) (re_class (length s') (drop 1 s'))
        else map_option (\<lambda>(is, s2). (RClass True is, s2)) (re_class (length s') s'))
     else if c = 46 then Some (RDot, s') else if c = 94 then Some (RBegin, s') else if c = 36 then Some (REnd, s')
     else if c = 92 then
       (if take 1 s' = [98] then Some (RBoundary True, drop 1 s')
        else if take 1 s' = [66] then Some (RBoundary False, drop 1 s')
        else map_option (\<lambda>(x, s2). (RClass True [x], s2)) (re_escape s'))
     else if c = 42 \<or> c = 43 \<or> c = 63 then None
     else Some (RChar c, s'))"

definition RegExp_new :: "ustring \<Rightarrow> regex option" where
  "RegExp_new src = (case re_disj (3 * length src + 3) src of Some (r, []) \<Rightarrow> Some r | _ \<Rightarrow> None)"

section \<open>Matching\<close>

text \<open>With the \<^verbatim>\<open>i\<close> flag code units are compared after the language's case folding.\<close>

type_synonym folding = "(code_unit \<Rightarrow> code_unit) option"

definition same_unit :: "folding \<Rightarrow> code_unit \<Rightarrow> code_unit \<Rightarrow> bool" where
  "same_unit fo c d \<longleftrightarrow> c = d \<or> (case fo of None \<Rightarrow> False | Some f \<Rightarrow> f c = f d)"

definition word_unit :: "code_unit \<Rightarrow> bool" where
  "word_unit c \<longleftrightarrow> is_letter c \<or> is_digit c \<or> c = 95"

fun item_has :: "folding \<Rightarrow> class_item \<Rightarrow> code_unit \<Rightarrow> bool" where
  "item_has fo (CUnit d) c = same_unit fo c d"
| "item_has fo (CRange a b) c =
    (a \<le> c \<and> c \<le> b \<or> (case fo of None \<Rightarrow> False | Some f \<Rightarrow> list_ex (\<lambda>d. f c = f d) [a..b]))"
| "item_has fo (CDigit p) c = (is_digit c = p)"
| "item_has fo (CWord p) c = (word_unit c = p)"
| "item_has fo (CSpace p) c = (js_space c = p)"

definition at_boundary :: "ustring \<Rightarrow> nat \<Rightarrow> bool" where
  "at_boundary s i \<longleftrightarrow> (0 < i \<and> i \<le> length s \<and> word_unit (s ! (i - 1))) \<noteq> (i < length s \<and> word_unit (s ! i))"

text \<open>All positions reached from a list of positions by at most \<^verbatim>\<open>n\<close> steps, and by exactly \<^verbatim>\<open>n\<close>.\<close>

primrec upto_steps :: "nat \<Rightarrow> (nat \<Rightarrow> nat list) \<Rightarrow> nat list \<Rightarrow> nat list" where
  "upto_steps 0 f is = is"
| "upto_steps (Suc n) f is = remdups (is @ upto_steps n f (concat (map f is)))"

primrec exact_steps :: "nat \<Rightarrow> (nat \<Rightarrow> nat list) \<Rightarrow> nat list \<Rightarrow> nat list" where
  "exact_steps 0 f is = is"
| "exact_steps (Suc n) f is = exact_steps n f (remdups (concat (map f is)))"

primrec ends :: "folding \<Rightarrow> regex \<Rightarrow> ustring \<Rightarrow> nat \<Rightarrow> nat list" where
  "ends fo REmpty s i = [i]"
| "ends fo (RClass p is) s i =
    (if i < length s \<and> list_ex (\<lambda>x. item_has fo x (s ! i)) is = p then [i + 1] else [])"
| "ends fo RDot s i = (if i < length s \<and> \<not> line_terminator (s ! i) then [i + 1] else [])"
| "ends fo (RSeq r q) s i = concat (map (ends fo q s) (ends fo r s i))"
| "ends fo (RAlt r q) s i = ends fo r s i @ ends fo q s i"
| "ends fo (RRep r lo hi) s i =
    upto_steps (case hi of None \<Rightarrow> length s + 1 | Some h \<Rightarrow> h - lo) (ends fo r s) (exact_steps lo (ends fo r s) [i])"
| "ends fo (RLook p r) s i = (if (ends fo r s i \<noteq> []) = p then [i] else [])"
| "ends fo RBegin s i = (if i = 0 then [i] else [])"
| "ends fo REnd s i = (if i = length s then [i] else [])"
| "ends fo (RBoundary p) s i = (if at_boundary s i = p then [i] else [])"

text \<open>The search of \<^verbatim>\<open>String.prototype.match\<close>: some position starts a match.\<close>

definition re_test :: "folding \<Rightarrow> regex \<Rightarrow> ustring \<Rightarrow> bool" where
  "re_test fo r s \<longleftrightarrow> list_ex (\<lambda>i. ends fo r s i \<noteq> []) [0..<length s + 1]"

end
