(* ===== verification/Mm_Match.thy ===== *)
theory Mm_Match
  imports Js_RegExp
begin

text \<open>
  The bundled glob matcher \<^verbatim>\<open>minimatch\<close> (module 20 of \<^verbatim>\<open>wordcut.js\<close>): its options,
  the parts of a compiled pattern and the matching of a path against one
  pattern.  Path and pattern are lists of their parts between slashes; an
  index into an array is the list that starts there.
\<close>

section \<open>Options and compiled parts\<close>

record mm_options =
  dot :: bool
  nocase :: bool
  nobrace :: bool
  nocomment :: bool
  nonegate :: bool
  noglobstar :: bool
  noext :: bool
  nonull :: bool
  matchBase :: bool
  flipNegate :: bool

definition no_options :: mm_options where
  "no_options = \<lparr> dot = False, nocase = False, nobrace = False, nocomment = False, nonegate = False,
     noglobstar = False, noext = False, nonull = False, matchBase = False, flipNegate = False \<rparr>"

text \<open>The case mappings of the language, which follow the Unicode tables of the runtime.\<close>

record unicode =
  toLowerCase :: "ustring \<Rightarrow> ustring"
  canonicalize :: "code_unit \<Rightarrow> code_unit"

text \<open>A regular expression object with the property \<^verbatim>\<open>_src\<close> that \<^verbatim>\<open>parse\<close> stores in it.\<close>

record regobj =
  compiled :: regex
  ignoreCase :: bool
  re_src :: "ustring option"

datatype part = GLOBSTAR | Str ustring | Re regobj | PFalse

definition regobj_test :: "unicode \<Rightarrow> regobj \<Rightarrow> ustring \<Rightarrow> bool" where
  "regobj_test u r f = re_test (if ignoreCase r then Some (canonicalize u) else None) (compiled r) f"

section \<open>Matching one pattern\<close>

text \<open>The parts a \<^verbatim>\<open>**\<close> does not swallow.\<close>

definition hidden_part :: "mm_options \<Rightarrow> ustring \<Rightarrow> bool" where
  "hidden_part opts f \<longleftrightarrow> f = lit ''.'' \<or> f = lit ''..'' \<or> \<not> dot opts \<and> take 1 f = lit ''.''"

definition part_hit :: "unicode \<Rightarrow> mm_options \<Rightarrow> part \<Rightarrow> ustring \<Rightarrow> bool" where
  "part_hit u opts p f = (case p of
     Str s \<Rightarrow> if nocase opts then toLowerCase u f = toLowerCase u s else f = s
   | Re r \<Rightarrow> regobj_test u r f | _ \<Rightarrow> False)"

function matchOne :: "unicode \<Rightarrow> mm_options \<Rightarrow> bool \<Rightarrow> ustring list \<Rightarrow> part list \<Rightarrow> bool"
  and matchOne_globstar :: "unicode \<Rightarrow> mm_options \<Rightarrow> bool \<Rightarrow> ustring list \<Rightarrow> part list \<Rightarrow> bool" where
  "matchOne u opts partial [] [] = True"
| "matchOne u opts partial [] (p # ps) = partial"
| "matchOne u opts partial (f # fs) [] = (fs = [] \<and> f = [])"
| "matchOne u opts partial (f # fs) (p # ps) =
    (if p = PFalse then False
     else if p = GLOBSTAR then
       (if ps = [] then list_all (\<lambda>x. \<not> hidden_part opts x) (f # fs)
        else matchOne_globstar u opts partial (f # fs) ps)
     else if part_hit u opts p f then matchOne u opts partial fs ps else False)"
| "matchOne_globstar u opts partial [] ps = partial"
| "matchOne_globstar u opts partial (f # fs) ps =
    (if matchOne u opts partial (f # fs) ps then True
     else if hidden_part opts f then False
     else matchOne_globstar u opts partial fs ps)"
  by pat_completeness auto
termination
  by (relation "measures [case_sum (\<lambda>(_, _, _, _, ps). 2 * length ps) (\<lambda>(_, _, _, _, ps). Suc (2 * length ps)),
    case_sum (\<lambda>(_, _, _, fs, _). length fs) (\<lambda>(_, _, _, fs, _). length fs)]") auto

section \<open>Meaning of a pattern\<close>

text \<open>
  A pattern matches when the path can be cut into one segment per pattern
  part: a \<^verbatim>\<open>**\<close> takes any parts that are not hidden, every other part takes one
  part it hits.  One empty part may be left at the end, for a path that ends
  in a slash, and a \<^verbatim>\<open>**\<close> at the end takes at least one part.
\<close>

definition segment_fits :: "unicode \<Rightarrow> mm_options \<Rightarrow> part \<Rightarrow> ustring list \<Rightarrow> bool" where
  "segment_fits u opts p seg =
    (if p = GLOBSTAR then list_all (\<lambda>x. \<not> hidden_part opts x) seg else \<exists>f. seg = [f] \<and> part_hit u opts p f)"

definition glob_spec :: "unicode \<Rightarrow> mm_options \<Rightarrow> ustring list \<Rightarrow> part list \<Rightarrow> bool" where
  "glob_spec u opts file pattern \<longleftrightarrow> (\<exists>segs. list_all2 (segment_fits u opts) pattern segs
     \<and> (file = concat segs \<or> file = concat segs @ [[]])
     \<and> (pattern \<noteq> [] \<longrightarrow> last pattern = GLOBSTAR \<longrightarrow> last segs \<noteq> []))"

lemma spec_Nil: "glob_spec u opts file [] \<longleftrightarrow> file = [] \<or> file = [[]]"
  by (auto simp: glob_spec_def)

lemma spec_hit:
  assumes "p \<noteq> GLOBSTAR"
  shows "glob_spec u opts file (p # ps) \<longleftrightarrow> (\<exists>f fs. file = f # fs \<and> part_hit u opts p f \<and> glob_spec u opts fs ps)"
    (is "?l \<longleftrightarrow> ?r")
proof
  assume ?l
  then obtain f segs where "part_hit u opts p f" "list_all2 (segment_fits u opts) ps segs"
    "file = f # concat segs \<or> file = f # concat segs @ [[]]"
    "ps \<noteq> [] \<longrightarrow> last ps = GLOBSTAR \<longrightarrow> last segs \<noteq> []"
    using assms by (fastforce simp: glob_spec_def list_all2_Cons1 segment_fits_def split: if_splits)
  then show ?r by (auto simp: glob_spec_def)
next
  assume ?r
  then obtain f fs segs where s: "file = f # fs" "part_hit u opts p f" "list_all2 (segment_fits u opts) ps segs"
    "fs = concat segs \<or> fs = concat segs @ [[]]" "ps \<noteq> [] \<longrightarrow> last ps = GLOBSTAR \<longrightarrow> last segs \<noteq> []"
    by (auto simp: glob_spec_def)
  moreover have "ps \<noteq> [] \<Longrightarrow> segs \<noteq> []" using s(3) by auto
  ultimately show ?l
    using assms unfolding glob_spec_def by (intro exI [of _ "[f] # segs"]) (auto simp: segment_fits_def)
qed

lemma not_hidden_Nil [simp]: "\<not> hidden_part opts []"
  by (simp add: hidden_part_def lit_def)

lemma spec_last: "glob_spec u opts file [GLOBSTAR] \<longleftrightarrow> file \<noteq> [] \<and> list_all (\<lambda>x. \<not> hidden_part opts x) file"
  by (auto simp: glob_spec_def segment_fits_def list_all2_Cons1)

lemma spec_swallow:
  assumes "ps \<noteq> []"
  shows "glob_spec u opts file (GLOBSTAR # ps) \<longleftrightarrow>
    (\<exists>seg fs. file = seg @ fs \<and> list_all (\<lambda>x. \<not> hidden_part opts x) seg \<and> glob_spec u opts fs ps)" (is "?l \<longleftrightarrow> ?r")
proof
  assume ?l
  then obtain seg segs where "list_all (\<lambda>x. \<not> hidden_part opts x) seg" "list_all2 (segment_fits u opts) ps segs"
    "file = seg @ concat segs \<or> file = seg @ concat segs @ [[]]" "last ps = GLOBSTAR \<longrightarrow> last segs \<noteq> []"
    using assms by (fastforce simp: glob_spec_def list_all2_Cons1 segment_fits_def split: if_splits)
  then show ?r by (auto simp: glob_spec_def)
next
  assume ?r
  then obtain seg fs segs where s: "file = seg @ fs" "list_all (\<lambda>x. \<not> hidden_part opts x) seg"
    "list_all2 (segment_fits u opts) ps segs" "fs = concat segs \<or> fs = concat segs @ [[]]"
    "last ps = GLOBSTAR \<longrightarrow> last segs \<noteq> []" using assms by (auto simp: glob_spec_def)
  moreover have "segs \<noteq> []" using s(3) assms by auto
  ultimately show ?l
    using assms unfolding glob_spec_def by (intro exI [of _ "seg # segs"]) (auto simp: segment_fits_def)
qed

lemma spec_not_empty: "ps \<noteq> [] \<Longrightarrow> \<not> glob_spec u opts [] ps"
proof (induction ps)
  case (Cons p ps)
  then show ?case
    by (cases "p = GLOBSTAR"; cases "ps = []") (auto simp: spec_hit spec_last spec_swallow)
qed simp

lemma spec_swallow_Cons:
  assumes "ps \<noteq> []"
  shows "glob_spec u opts (f # fs) (GLOBSTAR # ps) \<longleftrightarrow>
    glob_spec u opts (f # fs) ps \<or> \<not> hidden_part opts f \<and> glob_spec u opts fs (GLOBSTAR # ps)" (is "?l \<longleftrightarrow> ?r")
proof
  assume ?l
  then obtain seg rest where s: "f # fs = seg @ rest" "list_all (\<lambda>x. \<not> hidden_part opts x) seg" "glob_spec u opts rest ps"
    unfolding spec_swallow [OF assms] by blast
  then show ?r unfolding spec_swallow [OF assms] by (cases seg) auto
next
  assume ?r
  then consider "glob_spec u opts (f # fs) ps"
    | seg rest where "\<not> hidden_part opts f" "fs = seg @ rest" "list_all (\<lambda>x. \<not> hidden_part opts x) seg" "glob_spec u opts rest ps"
    unfolding spec_swallow [OF assms] by blast
  then show ?l
  proof cases
    case 1
    then show ?thesis unfolding spec_swallow [OF assms] by (intro exI [of _ "[]"] exI [of _ "f # fs"]) simp
  next
    case 2
    then show ?thesis unfolding spec_swallow [OF assms] by (intro exI [of _ "f # seg"] exI [of _ rest]) simp
  qed
qed

lemma matchOne_correct:
  "\<not> partial \<Longrightarrow> matchOne u opts partial file pattern \<longleftrightarrow> glob_spec u opts file pattern"
  "\<not> partial \<Longrightarrow> ps \<noteq> [] \<Longrightarrow> matchOne_globstar u opts partial file ps \<longleftrightarrow> glob_spec u opts file (GLOBSTAR # ps)"
proof (induction u opts partial "file" "pattern" and u opts partial "file" ps rule: matchOne_matchOne_globstar.induct)
  case (2 u opts partial p ps)
  then show ?case by (simp add: spec_not_empty)
next
  case (4 u opts partial f fs p ps)
  have "\<not> part_hit u opts PFalse x" for x by (simp add: part_hit_def)
  then show ?case using 4 by (cases "p = GLOBSTAR"; cases "ps = []") (auto simp: spec_last spec_hit)
next
  case (5 u opts partial ps)
  then show ?case by (simp add: spec_not_empty)
next
  case (6 u opts partial f fs ps)
  then show ?case by (simp add: spec_swallow_Cons)
qed (auto simp: spec_Nil)

text \<open>
  C34: Matching a path against one pattern decides the meaning of the
  pattern: the backtracking search over how much every \<^verbatim>\<open>**\<close> swallows finds a
  match exactly when the path can be cut into segments that fit the parts.
\<close>

theorem matchOne_decides_spec:
  "matchOne u opts False file pattern \<longleftrightarrow> glob_spec u opts file pattern"
  by (rule matchOne_correct) simp

text \<open>Partial mode accepts every path that can still grow into a match.\<close>

lemma matchOne_partial_mono: "matchOne u opts False file pattern \<Longrightarrow> matchOne u opts True file pattern"
proof -
  have "\<not> partial \<Longrightarrow> matchOne u opts partial file pattern \<Longrightarrow> matchOne u opts True file pattern"
    "\<not> partial \<Longrightarrow> matchOne_globstar u opts partial file ps \<Longrightarrow> matchOne_globstar u opts True file ps" for partial ps
    by (induction u opts partial "file" "pattern" and u opts partial "file" ps rule: matchOne_matchOne_globstar.induct)
      (auto split: if_splits)
  then show "matchOne u opts False file pattern \<Longrightarrow> matchOne u opts True file pattern" by blast
qed

end
