(* ===== verification/Js_Brace.thy ===== *)
theory Js_Brace
  imports Js_Prelude
begin

text \<open>
  Brace expansion as bundled in \<^verbatim>\<open>wordcut.js\<close>: \<^verbatim>\<open>balanced-match\<close> (module 10),
  \<^verbatim>\<open>brace-expansion\<close> (module 11) and \<^verbatim>\<open>concat-map\<close> (module 13).  The delimiters are the
  one-character strings the only caller passes.  The random escape strings
  are the code units -1 to -5, which no input contains.
\<close>

section \<open>Balanced matches\<close>

definition OPEN :: code_unit where "OPEN = 123"
definition CLOSE :: code_unit where "CLOSE = 125"
definition COMMA :: code_unit where "COMMA = 44"

text \<open>\<^verbatim>\<open>str.indexOf(c, from)\<close> for an index that is not negative.\<close>

fun index_of :: "code_unit \<Rightarrow> ustring \<Rightarrow> int" where
  "index_of c [] = -1"
| "index_of c (x # xs) = (if x = c then 0 else let k = index_of c xs in if k < 0 then -1 else k + 1)"

definition indexOf :: "ustring \<Rightarrow> code_unit \<Rightarrow> int \<Rightarrow> int" where
  "indexOf str c from = (let k = index_of c (drop (nat from) str) in if k < 0 then -1 else k + from)"

record range_state =
  r_ai :: int
  r_bi :: int
  r_i :: int
  r_begs :: "int list"
  r_left :: int
  r_right :: int

text \<open>
  One round of the loop: \<^const>\<open>Inl\<close> is the assignment to \<^verbatim>\<open>result\<close>, which ends the
  loop; the stack \<^verbatim>\<open>begs\<close> is held with its top in front.
\<close>

definition range_round :: "code_unit \<Rightarrow> code_unit \<Rightarrow> ustring \<Rightarrow> range_state \<Rightarrow> (int \<times> int) + range_state" where
  "range_round a b str s =
    (let next = (\<lambda>s. s\<lparr>r_i := (if r_ai s < r_bi s \<and> r_ai s \<ge> 0 then r_ai s else r_bi s)\<rparr>) in
     if r_i s = r_ai s then Inr (next (s\<lparr>r_begs := r_i s # r_begs s, r_ai := indexOf str a (r_i s + 1)\<rparr>))
     else if length (r_begs s) = 1 then Inl (hd (r_begs s), r_bi s)
     else let s1 = (case r_begs s of [] \<Rightarrow> s
            | beg # rest \<Rightarrow> (if beg < r_left s then s\<lparr>r_begs := rest, r_left := beg, r_right := r_bi s\<rparr>
                             else s\<lparr>r_begs := rest\<rparr>))
       in Inr (next (s1\<lparr>r_bi := indexOf str b (r_i s1 + 1)\<rparr>)))"

fun range_loop :: "nat \<Rightarrow> code_unit \<Rightarrow> code_unit \<Rightarrow> ustring \<Rightarrow> range_state \<Rightarrow> (int \<times> int) option" where
  "range_loop 0 a b str s = None"
| "range_loop (Suc fuel) a b str s =
    (if r_i s \<ge> 0 then
       (case range_round a b str s of Inl r \<Rightarrow> Some r | Inr s1 \<Rightarrow> range_loop fuel a b str s1)
     else if r_begs s \<noteq> [] then Some (r_left s, r_right s) else None)"

definition balanced_range :: "code_unit \<Rightarrow> code_unit \<Rightarrow> ustring \<Rightarrow> (int \<times> int) option" where
  "balanced_range a b str =
    (let ai = indexOf str a 0; bi = indexOf str b (ai + 1) in
     if ai \<ge> 0 \<and> bi > 0
     then range_loop (length str + 2) a b str
       \<lparr>r_ai = ai, r_bi = bi, r_i = ai, r_begs = [], r_left = int (length str), r_right = 0\<rparr>
     else None)"

record bmatch =
  m_pre :: ustring
  m_body :: ustring
  m_post :: ustring

definition balanced :: "code_unit \<Rightarrow> code_unit \<Rightarrow> ustring \<Rightarrow> bmatch option" where
  "balanced a b str = map_option (\<lambda>(l, r). \<lparr> m_pre = take (nat l) str,
     m_body = drop (nat l + 1) (take (nat r) str), m_post = drop (nat r + 1) str \<rparr>) (balanced_range a b str)"

section \<open>Index lemmas\<close>

lemma index_of_range: "index_of c xs = -1 \<or> 0 \<le> index_of c xs \<and> index_of c xs < int (length xs) \<and> xs ! nat (index_of c xs) = c"
  by (induction xs) (auto simp: Let_def nat_add_distrib)

lemma indexOf_range:
  assumes "0 \<le> from"
  shows "indexOf str c from = -1 \<or> from \<le> indexOf str c from \<and> indexOf str c from < int (length str) \<and> str ! nat (indexOf str c from) = c"
proof -
  let ?k = "index_of c (drop (nat from) str)"
  consider "?k = -1" | "0 \<le> ?k" "?k < int (length (drop (nat from) str))" "drop (nat from) str ! nat ?k = c"
    using index_of_range [of c "drop (nat from) str"] by blast
  then show ?thesis
  proof cases
    case 2
    then have lt: "nat from + nat ?k < length str" using length_drop [of "nat from" str] by linarith
    then have "str ! (nat from + nat ?k) = c" using 2 by simp
    moreover have "nat (?k + from) = nat from + nat ?k" using 2(1) assms by (simp add: nat_add_distrib)
    moreover have "?k + from < int (length str)" using lt 2(1) assms by linarith
    ultimately show ?thesis using 2(1) assms by (simp add: indexOf_def Let_def)
  qed (simp add: indexOf_def)
qed

lemma index_of_eq_minus1 [simp]: "index_of c xs < 0 \<longleftrightarrow> c \<notin> set xs"
  by (induction xs) (auto simp: Let_def)

lemma index_of_absent [simp]: "c \<notin> set xs \<Longrightarrow> index_of c xs = -1"
  by (induction xs) (simp_all add: Let_def)

lemma index_of_append: "c \<notin> set xs \<Longrightarrow> index_of c (xs @ c # ys) = int (length xs)"
  by (induction xs) (simp_all add: Let_def)

section \<open>The loop\<close>

text \<open>
  At the head of the loop the open braces on the stack are before the current
  position and decreasing, and the best pair found so far is a proper one.
\<close>

definition pos_ok :: "ustring \<Rightarrow> code_unit \<Rightarrow> int \<Rightarrow> int \<Rightarrow> bool" where
  "pos_ok str c lo k \<longleftrightarrow> k = -1 \<or> lo \<le> k \<and> k < int (length str) \<and> str ! nat k = c"

definition pair_ok :: "code_unit \<Rightarrow> code_unit \<Rightarrow> ustring \<Rightarrow> int \<Rightarrow> int \<Rightarrow> bool" where
  "pair_ok a b str l r \<longleftrightarrow> 0 \<le> l \<and> l < r \<and> r < int (length str) \<and> str ! nat l = a \<and> str ! nat r = b"

definition range_inv :: "code_unit \<Rightarrow> code_unit \<Rightarrow> ustring \<Rightarrow> range_state \<Rightarrow> bool" where
  "range_inv a b str s \<longleftrightarrow>
    (if r_i s \<ge> 0 then
       (\<forall>g\<in>set (r_begs s). 0 \<le> g \<and> g < r_i s \<and> str ! nat g = a)
       \<and> (r_left s = int (length str) \<or> pair_ok a b str (r_left s) (r_right s))
       \<and> pos_ok str a (r_i s) (r_ai s) \<and> r_i s \<le> r_bi s \<and> r_bi s < int (length str) \<and> str ! nat (r_bi s) = b
       \<and> (r_i s = r_ai s \<or> r_i s = r_bi s \<and> r_begs s \<noteq> [])
     else r_begs s \<noteq> [] \<and> pair_ok a b str (r_left s) (r_right s))"

lemma pos_ok_indexOf: "0 \<le> k \<Longrightarrow> pos_ok str c (k + 1) (indexOf str c (k + 1))"
  using indexOf_range [of "k + 1" str c] by (auto simp: pos_ok_def)

lemma range_round_open:
  assumes inv: "range_inv a b str s" and i: "r_i s \<ge> 0" "r_i s = r_ai s" and ab: "a \<noteq> b"
  shows "\<exists>s'. range_round a b str s = Inr s' \<and> range_inv a b str s' \<and> r_i s < r_i s'"
proof -
  have s: "\<forall>g\<in>set (r_begs s). 0 \<le> g \<and> g < r_i s \<and> str ! nat g = a"
    "r_left s = int (length str) \<or> pair_ok a b str (r_left s) (r_right s)"
    "pos_ok str a (r_i s) (r_ai s)" "r_i s \<le> r_bi s" "r_bi s < int (length str)" "str ! nat (r_bi s) = b"
    using inv i by (simp_all add: range_inv_def)
  have a: "str ! nat (r_i s) = a" using s(3) i by (auto simp: pos_ok_def)
  then have "r_i s < r_bi s" using s(4,6) ab by (cases "r_i s = r_bi s") auto
  moreover note pos_ok_indexOf [OF i(1), of str a]
  ultimately show ?thesis using s a i
    by (auto simp: range_round_def range_inv_def pos_ok_def Let_def)
qed

lemma range_round_close:
  assumes inv: "range_inv a b str s" and i: "r_i s \<ge> 0" "r_i s \<noteq> r_ai s" and ab: "a \<noteq> b"
  shows "case range_round a b str s of Inl (l, r) \<Rightarrow> pair_ok a b str l r
    | Inr s' \<Rightarrow> range_inv a b str s' \<and> (r_i s' < 0 \<or> r_i s < r_i s')"
proof -
  have s: "\<forall>g\<in>set (r_begs s). 0 \<le> g \<and> g < r_i s \<and> str ! nat g = a"
    "r_left s = int (length str) \<or> pair_ok a b str (r_left s) (r_right s)"
    "pos_ok str a (r_i s) (r_ai s)" "r_i s = r_bi s" "r_bi s < int (length str)" "str ! nat (r_bi s) = b" "r_begs s \<noteq> []"
    using inv i unfolding range_inv_def by auto
  obtain beg rest where begs: "r_begs s = beg # rest" using s(7) by (cases "r_begs s") auto
  have beg: "pair_ok a b str beg (r_bi s)" using s begs by (auto simp: pair_ok_def)
  show ?thesis
  proof (cases "rest = []")
    case True
    then show ?thesis using i begs beg by (simp add: range_round_def Let_def)
  next
    case False
    let ?l = "if beg < r_left s then beg else r_left s" and ?r = "if beg < r_left s then r_bi s else r_right s"
    have p: "pair_ok a b str ?l ?r" using s(2) beg by (auto simp: pair_ok_def)
    let ?bi = "indexOf str b (r_bi s + 1)"
    let ?i = "if r_ai s < ?bi \<and> r_ai s \<ge> 0 then r_ai s else ?bi"
    have "range_round a b str s = Inr (s\<lparr>r_begs := rest, r_left := ?l, r_right := ?r, r_bi := ?bi, r_i := ?i\<rparr>)"
      using i False begs s(4) by (simp add: range_round_def Let_def)
    moreover have "range_inv a b str (s\<lparr>r_begs := rest, r_left := ?l, r_right := ?r, r_bi := ?bi, r_i := ?i\<rparr>)
        \<and> (?i < 0 \<or> r_i s < ?i)"
    proof (cases "?bi = -1")
      case True
      then show ?thesis using p False by (simp add: range_inv_def)
    next
      case nb: False
      then have bi: "r_i s < ?bi" "?bi < int (length str)" "str ! nat ?bi = b"
        using pos_ok_indexOf [of "r_bi s" str b] s(4) i(1) by (simp_all add: pos_ok_def)
      have ai: "r_ai s = -1 \<or> r_i s < r_ai s \<and> r_ai s < int (length str) \<and> str ! nat (r_ai s) = a"
        using s(3) i(2) by (auto simp: pos_ok_def)
      have g: "\<forall>g\<in>set rest. 0 \<le> g \<and> g < ?i \<and> str ! nat g = a" "0 \<le> ?i" "r_i s < ?i"
        using s(1) begs bi(1) ai i(1) by auto
      have "pos_ok str a ?i (r_ai s)" using ai i(1) by (auto simp: pos_ok_def)
      then show ?thesis using g p False bi by (simp add: range_inv_def)
    qed
    ultimately show ?thesis by simp
  qed
qed

lemma range_loop_ok:
  assumes "a \<noteq> b"
  shows "range_inv a b str s \<Longrightarrow> nat (int (length str) - r_i s) < fuel \<or> r_i s < 0 \<and> 0 < fuel \<Longrightarrow>
    \<exists>l r. range_loop fuel a b str s = Some (l, r) \<and> pair_ok a b str l r"
proof (induction fuel arbitrary: s)
  case (Suc fuel)
  show ?case
  proof (cases "r_i s \<ge> 0")
    case False
    then show ?thesis using Suc.prems(1) by (simp add: range_inv_def)
  next
    case True
    have len: "r_i s < int (length str)" using Suc.prems(1) True by (auto simp: range_inv_def)
    show ?thesis
    proof (cases "range_round a b str s")
      case (Inl lr)
      then show ?thesis
        using range_round_open [OF Suc.prems(1) True _ assms] range_round_close [OF Suc.prems(1) True _ assms] True
        by (cases "r_i s = r_ai s"; cases lr) auto
    next
      case (Inr s')
      have s': "range_inv a b str s' \<and> (r_i s' < 0 \<or> r_i s < r_i s')"
        using range_round_open [OF Suc.prems(1) True _ assms] range_round_close [OF Suc.prems(1) True _ assms] Inr
        by (cases "r_i s = r_ai s") auto
      then have "nat (int (length str) - r_i s') < fuel \<or> r_i s' < 0 \<and> 0 < fuel"
        using Suc.prems(2) True len by auto
      then show ?thesis using Suc.IH [of s'] s' Inr True by simp
    qed
  qed
qed simp

lemma balanced_range_ok:
  assumes "a \<noteq> b" "balanced_range a b str = Some (l, r)"
  shows "pair_ok a b str l r"
proof -
  let ?ai = "indexOf str a 0" let ?bi = "indexOf str b (?ai + 1)"
  let ?s = "\<lparr>r_ai = ?ai, r_bi = ?bi, r_i = ?ai, r_begs = [], r_left = int (length str), r_right = 0\<rparr>"
  have c: "?ai \<ge> 0" "?bi > 0" "range_loop (length str + 2) a b str ?s = Some (l, r)"
    using assms(2) by (auto simp: balanced_range_def Let_def split: if_splits)
  have "range_inv a b str ?s"
    using c(1,2) indexOf_range [of 0 str a] indexOf_range [of "?ai + 1" str b] by (auto simp: range_inv_def pos_ok_def)
  moreover have "nat (int (length str) - r_i ?s) < length str + 2" using c(1) by simp
  ultimately show ?thesis using range_loop_ok [OF assms(1), of str ?s "length str + 2"] c(3) by auto
qed

text \<open>The loop never runs out of rounds: whenever both delimiters occur in order, there is a result.\<close>

lemma balanced_range_Some:
  assumes "a \<noteq> b" "indexOf str a 0 \<ge> 0" "indexOf str b (indexOf str a 0 + 1) > 0"
  shows "balanced_range a b str \<noteq> None"
proof -
  let ?ai = "indexOf str a 0" let ?bi = "indexOf str b (?ai + 1)"
  let ?s = "\<lparr>r_ai = ?ai, r_bi = ?bi, r_i = ?ai, r_begs = [], r_left = int (length str), r_right = 0\<rparr>"
  have "range_inv a b str ?s"
    using assms(2,3) indexOf_range [of 0 str a] indexOf_range [of "?ai + 1" str b] by (auto simp: range_inv_def pos_ok_def)
  moreover have "nat (int (length str) - r_i ?s) < length str + 2" using assms(2) by simp
  ultimately show ?thesis
    using range_loop_ok [OF assms(1), of str ?s "length str + 2"] assms(2,3) by (auto simp: balanced_range_def Let_def)
qed

lemma balanced_split:
  assumes "a \<noteq> b" "balanced a b str = Some m"
  shows "str = m_pre m @ a # m_body m @ b # m_post m"
proof -
  obtain l r where lr: "balanced_range a b str = Some (l, r)" "m = \<lparr> m_pre = take (nat l) str,
     m_body = drop (nat l + 1) (take (nat r) str), m_post = drop (nat r + 1) str \<rparr>"
    using assms(2) by (auto simp: balanced_def)
  have p: "nat l < nat r" "nat r < length str" "str ! nat l = a" "str ! nat r = b"
    using balanced_range_ok [OF assms(1) lr(1)] by (auto simp: pair_ok_def)
  have "str = take (nat r) str @ b # drop (nat r + 1) str" using p(2,4) id_take_nth_drop by fastforce
  moreover have "take (nat l) (take (nat r) str) = take (nat l) str" "take (nat r) str ! nat l = a"
    "nat l < length (take (nat r) str)" using p by (simp_all add: min_absorb1)
  then have "take (nat r) str = take (nat l) str @ a # drop (nat l + 1) (take (nat r) str)"
    using id_take_nth_drop [of "nat l" "take (nat r) str"] by simp
  ultimately show ?thesis using lr(2) by (metis append.assoc append_Cons bmatch.select_convs)
qed

end
