(* ===== verification/Js_Expand.thy ===== *)
theory Js_Expand
  imports Js_Brace
begin

text \<open>
  The expansion proper (module 11 of \<^verbatim>\<open>wordcut.js\<close>).  Numbers are unbounded
  integers, which agrees with the source up to the precision of its numbers.
\<close>

section \<open>Decimal numbers\<close>

definition MINUS :: code_unit where "MINUS = 45"

text \<open>A string of the form \<^verbatim>\<open>-?\d+\<close>, its value, and the decimal form of a number.\<close>

definition is_int_str :: "ustring \<Rightarrow> bool" where
  "is_int_str s = (let ds = (if take 1 s = [MINUS] then drop 1 s else s) in ds \<noteq> [] \<and> list_all is_digit ds)"

definition parseInt :: "ustring \<Rightarrow> int" where
  "parseInt s = (if take 1 s = [MINUS] then - digits_val (drop 1 s) else digits_val s)"

fun show_nat :: "nat \<Rightarrow> ustring" where
  "show_nat n = (if n < 10 then [48 + int n] else show_nat (n div 10) @ [48 + int (n mod 10)])"

declare show_nat.simps [simp del]

definition show_int :: "int \<Rightarrow> ustring" where
  "show_int i = (if i < 0 then MINUS # show_nat (nat (- i)) else show_nat (nat i))"

text \<open>\<^verbatim>\<open>numeric\<close>: a string that is not a number stands for its first character code.\<close>

definition numeric :: "ustring \<Rightarrow> int" where
  "numeric str = (if is_int_str str then parseInt str else hd str)"

section \<open>Escapes\<close>

definition BACKSLASH :: code_unit where "BACKSLASH = 92"
definition PERIOD :: code_unit where "PERIOD = 46"
definition escSlash :: code_unit where "escSlash = -1"
definition escOpen :: code_unit where "escOpen = -2"
definition escClose :: code_unit where "escClose = -3"
definition escComma :: code_unit where "escComma = -4"
definition escPeriod :: code_unit where "escPeriod = -5"

text \<open>\<^verbatim>\<open>str.split(x).join(y)\<close> for a pair \<^verbatim>\<open>x\<close> of code units, and for a single one.\<close>

fun replace_pair :: "code_unit \<Rightarrow> code_unit \<Rightarrow> code_unit \<Rightarrow> ustring \<Rightarrow> ustring" where
  "replace_pair a b c (x # y # xs) =
    (if x = a \<and> y = b then c # replace_pair a b c xs else x # replace_pair a b c (y # xs))"
| "replace_pair a b c xs = xs"

definition replace_unit :: "code_unit \<Rightarrow> code_unit \<Rightarrow> ustring \<Rightarrow> ustring" where
  "replace_unit a c xs = map (\<lambda>x. if x = a then c else x) xs"

definition escapeBraces :: "ustring \<Rightarrow> ustring" where
  "escapeBraces str =
    replace_pair BACKSLASH PERIOD escPeriod (replace_pair BACKSLASH COMMA escComma
      (replace_pair BACKSLASH CLOSE escClose (replace_pair BACKSLASH OPEN escOpen
        (replace_pair BACKSLASH BACKSLASH escSlash str))))"

definition unescapeBraces :: "ustring \<Rightarrow> ustring" where
  "unescapeBraces str =
    replace_unit escPeriod PERIOD (replace_unit escComma COMMA
      (replace_unit escClose CLOSE (replace_unit escOpen OPEN (replace_unit escSlash BACKSLASH str))))"

section \<open>Parts\<close>

function parseCommaParts :: "ustring \<Rightarrow> ustring list" where
  "parseCommaParts str =
    (if str = [] then [[]]
     else case balanced OPEN CLOSE str of None \<Rightarrow> split_at COMMA str
     | Some m \<Rightarrow>
       let p = split_at COMMA (m_pre m);
           p1 = butlast p @ [last p @ OPEN # m_body m @ [CLOSE]];
           postParts = parseCommaParts (m_post m)
       in if length (m_post m) > 0
          then butlast p1 @ [last p1 @ hd postParts] @ tl postParts
          else p1)"
  by pat_completeness auto
termination
proof (relation "measure length")
  fix str m assume "balanced OPEN CLOSE str = Some m"
  then have "str = m_pre m @ OPEN # m_body m @ CLOSE # m_post m"
    by (intro balanced_split) (simp_all add: OPEN_def CLOSE_def)
  then have "length str = length (m_pre m @ OPEN # m_body m @ CLOSE # m_post m)" by (rule arg_cong)
  then show "(m_post m, str) \<in> measure length" by simp
qed simp

declare parseCommaParts.simps [simp del]

text \<open>\<^verbatim>\<open>body.split(/\.\./)\<close>.\<close>

fun split_dots :: "ustring \<Rightarrow> ustring list" where
  "split_dots (x # y # xs) =
    (if x = PERIOD \<and> y = PERIOD then [] # split_dots xs
     else case split_dots (y # xs) of [] \<Rightarrow> [[x]] | p # ps \<Rightarrow> (x # p) # ps)"
| "split_dots xs = [xs]"

text \<open>The two regular expressions for sequences, read off the parts between the dots.\<close>

definition is_alpha_str :: "ustring \<Rightarrow> bool" where
  "is_alpha_str s \<longleftrightarrow> length s = 1 \<and> (65 \<le> hd s \<and> hd s \<le> 90 \<or> 97 \<le> hd s \<and> hd s \<le> 122)"

definition isNumericSequence :: "ustring \<Rightarrow> bool" where
  "isNumericSequence body = (let n = split_dots body in (length n = 2 \<or> length n = 3) \<and> list_all is_int_str n)"

definition isAlphaSequence :: "ustring \<Rightarrow> bool" where
  "isAlphaSequence body = (let n = split_dots body in (length n = 2 \<or> length n = 3)
     \<and> is_alpha_str (n ! 0) \<and> is_alpha_str (n ! 1) \<and> list_all is_int_str (drop 2 n))"

text \<open>\<^verbatim>\<open>/^-?0\d/\<close> and \<^verbatim>\<open>/,.*\}/\<close>; the dot does not match a line terminator.\<close>

definition isPadded :: "ustring \<Rightarrow> bool" where
  "isPadded el = (let s = (if take 1 el = [MINUS] then drop 1 el else el) in
     length s \<ge> 2 \<and> s ! 0 = 48 \<and> is_digit (s ! 1))"

fun close_on_line :: "ustring \<Rightarrow> bool" where
  "close_on_line [] = False"
| "close_on_line (x # xs) = (x = CLOSE \<or> \<not> line_terminator x \<and> close_on_line xs)"

fun comma_then_close :: "ustring \<Rightarrow> bool" where
  "comma_then_close [] = False"
| "comma_then_close (x # xs) = (x = COMMA \<and> close_on_line xs \<or> comma_then_close xs)"

definition embrace :: "ustring \<Rightarrow> ustring" where
  "embrace str = OPEN # str @ [CLOSE]"

section \<open>Sequences\<close>

definition lte :: "int \<Rightarrow> int \<Rightarrow> bool" where "lte i y \<longleftrightarrow> i \<le> y"
definition gte :: "int \<Rightarrow> int \<Rightarrow> bool" where "gte i y \<longleftrightarrow> i \<ge> y"

text \<open>The numbers the \<^verbatim>\<open>for\<close> loop runs through.\<close>

partial_function (option) seq_loop :: "bool \<Rightarrow> int \<Rightarrow> int \<Rightarrow> int \<Rightarrow> int list option" where
  "seq_loop reverse i y incr =
    (if (if reverse then gte i y else lte i y)
     then Option.bind (seq_loop reverse (i + incr) y incr) (\<lambda>is. Some (i # is))
     else Some [])"

declare seq_loop.simps [code]

definition seq_item :: "bool \<Rightarrow> bool \<Rightarrow> nat \<Rightarrow> int \<Rightarrow> ustring" where
  "seq_item alpha pad width i =
    (if alpha then (if i = BACKSLASH then [] else [i])
     else let c = show_int i in
       if pad then
         (let need = int width - int (length c) in
          if need > 0 then
            (let z = replicate (nat need) 48 in if i < 0 then MINUS # z @ drop 1 c else z @ c)
          else c)
       else c)"

definition sequence_items :: "bool \<Rightarrow> ustring list \<Rightarrow> ustring list option" where
  "sequence_items alpha n =
    (let x = numeric (n ! 0); y = numeric (n ! 1); width = max (length (n ! 0)) (length (n ! 1));
         incr = (if length n = 3 then abs (numeric (n ! 2)) else 1);
         reverse = y < x;
         incr1 = (if reverse then incr * -1 else incr);
         pad = list_ex isPadded n
     in map_option (map (seq_item alpha pad width)) (seq_loop reverse x y incr1))"

section \<open>Expansion\<close>

fun option_all :: "'a option list \<Rightarrow> 'a list option" where
  "option_all [] = Some []"
| "option_all (x # xs) = (case x of None \<Rightarrow> None | Some y \<Rightarrow> map_option ((#) y) (option_all xs))"

text \<open>\<^verbatim>\<open>concatMap\<close> with a callback that returns an array.\<close>

definition concatMap :: "'a list \<Rightarrow> ('a \<Rightarrow> 'b list option) \<Rightarrow> 'b list option" where
  "concatMap xs fn = map_option concat (option_all (map fn xs))"

definition combine :: "bool \<Rightarrow> bool \<Rightarrow> ustring \<Rightarrow> ustring list \<Rightarrow> ustring list \<Rightarrow> ustring list" where
  "combine isTop isSequence pre N post =
    filter (\<lambda>e. \<not> isTop \<or> isSequence \<or> e \<noteq> []) (concat (map (\<lambda>x. map (\<lambda>p. pre @ x @ p) post) N))"

text \<open>
  \<^verbatim>\<open>expand\<close> with a bound on the depth of its recursion; \<^const>\<open>None\<close> means that the
  bound was reached or that a sequence does not end.
\<close>

primrec expand :: "nat \<Rightarrow> ustring \<Rightarrow> bool \<Rightarrow> ustring list option" where
  "expand 0 str isTop = None"
| "expand (Suc fuel) str isTop =
    (case balanced OPEN CLOSE str of None \<Rightarrow> Some [str]
     | Some m \<Rightarrow>
       if m_pre m \<noteq> [] \<and> last (m_pre m) = 36 then Some [str]
       else
       let isAlpha = isAlphaSequence (m_body m);
           isSequence = (isNumericSequence (m_body m) \<or> isAlpha);
           isOptions = (COMMA \<in> set (m_body m));
           post = (if m_post m \<noteq> [] then expand fuel (m_post m) False else Some [[]])
       in if \<not> isSequence \<and> \<not> isOptions then
            (if comma_then_close (m_post m)
             then expand fuel (m_pre m @ OPEN # m_body m @ escClose # m_post m) False
             else Some [str])
          else if isSequence then
            (case (post, sequence_items isAlpha (split_dots (m_body m))) of
               (Some po, Some N) \<Rightarrow> Some (combine isTop True (m_pre m) N po) | _ \<Rightarrow> None)
          else
            let parts = parseCommaParts (m_body m);
                n = (if length parts = 1 then map_option (map embrace) (expand fuel (hd parts) False) else Some parts)
            in case n of None \<Rightarrow> None
              | Some n \<Rightarrow>
                if length parts = 1 \<and> length n = 1
                then map_option (map (\<lambda>p. m_pre m @ hd n @ p)) post
                else (case (post, concatMap n (\<lambda>el. expand fuel el False)) of
                  (Some po, Some N) \<Rightarrow> Some (combine isTop False (m_pre m) N po) | _ \<Rightarrow> None))"

declare expand.simps(2) [simp del]

definition expandTop :: "nat \<Rightarrow> ustring \<Rightarrow> ustring list option" where
  "expandTop fuel str =
    (if str = [] then Some []
     else let str1 = (if take 2 str = [OPEN, CLOSE] then [BACKSLASH, OPEN, BACKSLASH, CLOSE] @ drop 2 str else str)
       in map_option (map unescapeBraces) (expand fuel (escapeBraces str1) True))"

section \<open>Splitting at commas loses nothing\<close>

lemma js_join_glue:
  "xs \<noteq> [] \<Longrightarrow> js_join d (butlast xs @ (last xs @ h) # t) = js_join d xs @ js_join d (h # t)"
proof (induction d xs rule: js_join.induct)
  case (2 d x)
  then show ?case by (cases t) simp_all
next
  case (3 d x y xs)
  then show ?case by (cases "butlast (y # xs) @ (last (y # xs) @ h) # t") auto
qed simp

lemma brace_units [simp]:
  "OPEN \<noteq> CLOSE" "COMMA \<noteq> OPEN" "COMMA \<noteq> CLOSE" "PERIOD \<noteq> COMMA" "escClose \<noteq> PERIOD" "PERIOD \<noteq> OPEN" "PERIOD \<noteq> CLOSE"
  "CLOSE \<noteq> OPEN" "OPEN \<noteq> COMMA" "CLOSE \<noteq> COMMA" "COMMA \<noteq> PERIOD" "PERIOD \<noteq> escClose" "OPEN \<noteq> PERIOD" "CLOSE \<noteq> PERIOD"
  "escClose \<noteq> CLOSE" "CLOSE \<noteq> escClose"
  by (simp_all add: OPEN_def CLOSE_def COMMA_def PERIOD_def escClose_def)

lemma parseCommaParts_not_Nil [simp]: "parseCommaParts str \<noteq> []"
  by (subst parseCommaParts.simps) (simp add: Let_def split: option.split)

lemma join_parts: "js_join [COMMA] (parseCommaParts str) = str"
proof (induction str rule: parseCommaParts.induct)
  case (1 str)
  show ?case
  proof (cases "str = [] \<or> balanced OPEN CLOSE str = None")
    case True
    then show ?thesis by (subst parseCommaParts.simps) (auto simp: join_split_at)
  next
    case False
    then obtain m where m: "str \<noteq> []" "balanced OPEN CLOSE str = Some m" by auto
    let ?p = "split_at COMMA (m_pre m)"
    let ?p1 = "butlast ?p @ [last ?p @ OPEN # m_body m @ [CLOSE]]"
    obtain h t where q: "parseCommaParts (m_post m) = h # t" by (cases "parseCommaParts (m_post m)") auto
    have p1: "js_join [COMMA] ?p1 = m_pre m @ OPEN # m_body m @ [CLOSE]"
      using js_join_glue [of ?p "[COMMA]" "OPEN # m_body m @ [CLOSE]" "[]"] by (simp add: join_split_at)
    have ih: "js_join [COMMA] (h # t) = m_post m"
      using "1.IH" [OF m refl refl] q by simp
    have "js_join [COMMA] (parseCommaParts str) = m_pre m @ OPEN # m_body m @ [CLOSE] @ m_post m"
      using js_join_glue [of ?p1 "[COMMA]" h t] p1 ih m q by (subst parseCommaParts.simps) (auto simp: Let_def)
    then show ?thesis using balanced_split [of OPEN CLOSE str m] m by simp
  qed
qed

text \<open>
  Splitting the body of a brace group at its top-level commas loses
  nothing: joining the parts with commas gives the body back, whatever nested
  or unbalanced braces it contains.
\<close>

theorem parseCommaParts_join: "js_join [COMMA] (parseCommaParts str) = str"
  by (rule join_parts)

section \<open>Flat groups\<close>

lemma indexOf_append: "c \<notin> set xs \<Longrightarrow> indexOf (xs @ c # ys) c 0 = int (length xs)"
  by (simp add: indexOf_def index_of_append Let_def)

lemma indexOf_after: "c \<notin> set ys \<Longrightarrow> indexOf (xs @ x # ys @ c # zs) c (int (length xs) + 1) = int (length xs) + int (length ys) + 1"
proof -
  assume "c \<notin> set ys"
  moreover have "nat (int (length xs) + 1) = Suc (length xs)" by simp
  ultimately show ?thesis by (simp add: indexOf_def index_of_append Let_def)
qed

lemma indexOf_next:
  assumes "0 \<le> k" shows "indexOf str c (k + 1) = -1 \<or> k < indexOf str c (k + 1) \<and> str ! nat (indexOf str c (k + 1)) = c"
  using indexOf_range [of "k + 1" str c] assms by auto

lemma balanced_range_flat:
  assumes "indexOf str a 0 = l" "indexOf str b (l + 1) = r" "0 \<le> l" "l < r"
    and "indexOf str a (l + 1) = k" "\<not> (k < r \<and> 0 \<le> k)" "k \<noteq> r"
  shows "balanced_range a b str = Some (l, r)"
proof -
  let ?s1 = "\<lparr>r_ai = k, r_bi = r, r_i = r, r_begs = [l], r_left = int (length str), r_right = 0\<rparr>"
  have 1: "range_round a b str \<lparr>r_ai = l, r_bi = r, r_i = l, r_begs = [], r_left = int (length str), r_right = 0\<rparr> = Inr ?s1"
    using assms(5,6) by (simp add: range_round_def Let_def)
  have 2: "range_round a b str ?s1 = Inl (l, r)"
    using assms(7) by (simp add: range_round_def Let_def)
  show ?thesis using assms(1-4) 1 2 by (simp add: balanced_range_def Let_def)
qed

lemma balanced_flat:
  assumes "OPEN \<notin> set pre" "OPEN \<notin> set body" "CLOSE \<notin> set body"
  shows "balanced OPEN CLOSE (pre @ OPEN # body @ CLOSE # post) = Some \<lparr>m_pre = pre, m_body = body, m_post = post\<rparr>"
proof -
  let ?str = "pre @ OPEN # body @ CLOSE # post"
  let ?l = "int (length pre)" let ?r = "?l + int (length body) + 1"
  let ?ai = "indexOf ?str OPEN (?l + 1)"
  have ai: "indexOf ?str OPEN 0 = ?l" using assms by (simp add: indexOf_append)
  have bi: "indexOf ?str CLOSE (?l + 1) = ?r" using assms by (simp add: indexOf_after)
  have next_open: "\<not> (?ai < ?r \<and> 0 \<le> ?ai)" "?ai \<noteq> ?r"
  proof -
    have "?str ! (length pre + Suc k) = body ! k" if "k < length body" for k
      using that by (simp add: nth_append)
    then have opens: "?str ! (length pre + Suc k) \<noteq> OPEN" if "k < length body" for k
      using that assms(2) by (metis nth_mem)
    have close: "?str ! (length pre + Suc (length body)) = CLOSE" by (simp add: nth_append)
    consider "?ai = -1" | "?l < ?ai" "?str ! nat ?ai = OPEN" using indexOf_next [of ?l ?str OPEN] by auto
    then have "?ai = -1 \<or> ?r < ?ai"
    proof cases
      case 2
      then obtain k where k: "nat ?ai = length pre + Suc k" by (metis less_imp_Suc_add add_Suc_right zless_nat_eq_int_zless)
      have "\<not> k < length body" using opens [of k] 2(2) k by metis
      moreover have "k \<noteq> length body" using close 2(2) k brace_units(1) by metis
      ultimately have "length body < k" by simp
      then have "?r < int (nat ?ai)" using k by simp
      moreover have "int (nat ?ai) = ?ai" using 2(1) by linarith
      ultimately show ?thesis by simp
    qed simp
    then show "\<not> (?ai < ?r \<and> 0 \<le> ?ai)" "?ai \<noteq> ?r" by auto
  qed
  have "balanced_range OPEN CLOSE ?str = Some (?l, ?r)"
    using ai bi _ _ refl next_open by (rule balanced_range_flat) simp_all
  then show ?thesis by (simp add: balanced_def nat_add_distrib)
qed

lemma split_dots_not_Nil [simp]: "split_dots s \<noteq> []"
  by (induction s rule: split_dots.induct) (auto split: list.splits)

lemma split_dots_units: "c \<in> set s \<Longrightarrow> c \<noteq> PERIOD \<Longrightarrow> \<exists>p\<in>set (split_dots s). c \<in> set p"
  by (induction s rule: split_dots.induct) (auto split: list.splits if_splits)

lemma split_dots_free: "PERIOD \<notin> set s \<Longrightarrow> split_dots s = [s]"
  by (induction s rule: split_dots.induct) auto

lemma int_str_units: "is_int_str s \<Longrightarrow> c \<in> set s \<Longrightarrow> c = MINUS \<or> is_digit c"
  by (cases s) (auto simp: is_int_str_def Let_def list_all_iff split: if_splits)

lemma not_sequence_comma:
  assumes "COMMA \<in> set body"
  shows "\<not> isNumericSequence body" "\<not> isAlphaSequence body"
proof -
  obtain p where p: "p \<in> set (split_dots body)" "COMMA \<in> set p" using split_dots_units [OF assms] by auto
  have ni: "\<not> is_int_str p" using int_str_units [of p COMMA] p(2) by (auto simp: COMMA_def MINUS_def is_digit_def)
  then show "\<not> isNumericSequence body" using p(1) by (auto simp: isNumericSequence_def list_all_iff Let_def)
  have na: "\<not> is_alpha_str p" using p(2) by (cases p) (auto simp: is_alpha_str_def COMMA_def)
  have "p = split_dots body ! 0 \<or> p = split_dots body ! 1 \<or> p \<in> set (drop 2 (split_dots body))"
    using p(1) by (cases "split_dots body"; cases "tl (split_dots body)") auto
  then show "\<not> isAlphaSequence body" using ni na by (auto simp: isAlphaSequence_def list_all_iff Let_def)
qed

lemma join_units: "p \<in> set ps \<Longrightarrow> c \<in> set p \<Longrightarrow> c \<in> set (js_join d ps)"
  by (induction d ps rule: js_join.induct) auto

lemma join_comma: "1 < length ps \<Longrightarrow> COMMA \<in> set (js_join [COMMA] ps)"
  by (induction "[COMMA]" ps rule: js_join.induct) auto

lemma join_units_cases: "c \<in> set (js_join d ps) \<Longrightarrow> c \<in> set d \<or> (\<exists>p\<in>set ps. c \<in> set p)"
  by (induction d ps rule: js_join.induct) auto

lemma balanced_no_open: "OPEN \<notin> set s \<Longrightarrow> balanced OPEN CLOSE s = None"
  by (simp add: balanced_def balanced_range_def indexOf_def)

lemma expand_plain: "OPEN \<notin> set s \<Longrightarrow> expand (Suc fuel) s t = Some [s]"
  by (simp add: expand.simps(2) balanced_no_open)

lemma concatMap_plain:
  "(\<And>p. p \<in> set ps \<Longrightarrow> f p = Some [p]) \<Longrightarrow> concatMap ps f = Some ps"
  unfolding concatMap_def by (induction ps) auto

lemma parse_flat: "OPEN \<notin> set s \<Longrightarrow> parseCommaParts s = split_at COMMA s"
  by (subst parseCommaParts.simps) (simp add: balanced_no_open)



section \<open>Termination\<close>

definition brace_size :: "ustring \<Rightarrow> nat" where
  "brace_size s = length s + length (filter ((=) CLOSE) s)"

lemma brace_size_simps [simp]:
  "brace_size [] = 0"
  "brace_size (c # s) = (if c = CLOSE then 2 else 1) + brace_size s"
  "brace_size (s @ s') = brace_size s + brace_size s'"
  by (simp_all add: brace_size_def)

lemma brace_size_embrace [simp]: "brace_size (embrace s) = brace_size s + 3"
  by (simp add: embrace_def)

lemma brace_size_join: "p \<in> set ps \<Longrightarrow> brace_size p \<le> brace_size (js_join d ps)"
  by (induction d ps rule: js_join.induct) auto

lemma part_size: "p \<in> set (parseCommaParts s) \<Longrightarrow> brace_size p \<le> brace_size s"
  using brace_size_join [of p "parseCommaParts s" "[COMMA]"] by (simp add: join_parts)

lemma part_units: "p \<in> set (parseCommaParts s) \<Longrightarrow> c \<in> set p \<Longrightarrow> c \<in> set s"
  using join_units [of p "parseCommaParts s" c "[COMMA]"] by (simp add: join_parts)

text \<open>The results of an expansion are no larger, and smaller when there are several.\<close>

definition shrinks :: "ustring \<Rightarrow> ustring list \<Rightarrow> bool" where
  "shrinks s r \<longleftrightarrow> (\<forall>x\<in>set r. PERIOD \<notin> set x \<and> brace_size x \<le> brace_size s \<and> (length r \<noteq> 1 \<longrightarrow> brace_size x + 2 \<le> brace_size s))"

lemma shrinks_self: "PERIOD \<notin> set s \<Longrightarrow> shrinks s [s]"
  by (simp add: shrinks_def)

lemma concatMap_total:
  "(\<And>x. x \<in> set xs \<Longrightarrow> \<exists>r. f x = Some r \<and> (\<forall>y\<in>set r. P x y)) \<Longrightarrow>
    \<exists>N. concatMap xs f = Some N \<and> (\<forall>y\<in>set N. \<exists>x\<in>set xs. P x y)"
proof (induction xs)
  case (Cons x xs)
  obtain r where r: "f x = Some r" "\<forall>y\<in>set r. P x y" using Cons.prems [of x] by auto
  have "\<exists>N. concatMap xs f = Some N \<and> (\<forall>y\<in>set N. \<exists>x\<in>set xs. P x y)"
    by (rule Cons.IH) (rule Cons.prems, simp)
  then show ?case using r by (auto simp: concatMap_def)
qed (simp add: concatMap_def)

lemma shrinks_mono: "shrinks s' r \<Longrightarrow> brace_size s' \<le> brace_size s \<Longrightarrow> shrinks s r"
  unfolding shrinks_def by fastforce

lemma shrinks_combine:
  assumes s: "s = pre @ OPEN # body @ CLOSE # post" "PERIOD \<notin> set s"
    and N: "\<forall>y\<in>set N. PERIOD \<notin> set y \<and> brace_size y \<le> brace_size body + 1" and po: "shrinks post po"
  shows "shrinks s (combine t q pre N po)"
proof -
  have "PERIOD \<notin> set x \<and> brace_size x + 2 \<le> brace_size s" if x: "x \<in> set (combine t q pre N po)" for x
  proof -
    obtain y p where "y \<in> set N" "p \<in> set po" "x = pre @ y @ p" using x by (auto simp: combine_def)
    then show ?thesis using s N po by (fastforce simp: shrinks_def)
  qed
  then show ?thesis unfolding shrinks_def by (meson add_leD1)
qed

lemma shrinks_single:
  assumes s: "s = pre @ OPEN # body @ CLOSE # post" "PERIOD \<notin> set s"
    and x: "shrinks body [x]" and po: "shrinks post po"
  shows "shrinks s (map (\<lambda>p. pre @ embrace x @ p) po)"
  using assms by (fastforce simp: shrinks_def embrace_def)

lemma not_sequence_free: "PERIOD \<notin> set body \<Longrightarrow> \<not> isNumericSequence body \<and> \<not> isAlphaSequence body"
  by (simp add: isNumericSequence_def isAlphaSequence_def split_dots_free)

lemma one_part: "length (parseCommaParts s) = 1 \<Longrightarrow> parseCommaParts s = [s]"
  using join_parts [of s] by (cases "parseCommaParts s") auto

lemma expand_group_shrinks:
  assumes m: "balanced OPEN CLOSE s = Some m" and per: "PERIOD \<notin> set s" and c: "COMMA \<in> set (m_body m)"
    and d: "\<not> (m_pre m \<noteq> [] \<and> last (m_pre m) = 36)"
    and ih: "\<And>s' t. PERIOD \<notin> set s' \<Longrightarrow> brace_size s' < brace_size s \<Longrightarrow> \<exists>r. expand fuel s' t = Some r \<and> shrinks s' r"
  shows "\<exists>r. expand (Suc fuel) s t = Some r \<and> shrinks s r"
proof -
  have s: "s = m_pre m @ OPEN # m_body m @ CLOSE # m_post m" using m by (intro balanced_split) simp_all
  have free: "PERIOD \<notin> set (m_body m)" "PERIOD \<notin> set (m_post m)" using per by (subst (asm) s, simp)+
  have size: "brace_size s = brace_size (m_pre m) + brace_size (m_body m) + brace_size (m_post m) + 3"
    by (subst s) simp
  obtain po where po: "(if m_post m \<noteq> [] then expand fuel (m_post m) False else Some [[]]) = Some po" "shrinks (m_post m) po"
    using ih [of "m_post m" False] free(2) size by (cases "m_post m = []") (auto simp: shrinks_def)
  have each: "\<exists>N. concatMap n (\<lambda>el. expand fuel el False) = Some N \<and> shrinks s (combine t False (m_pre m) N po)"
    if n: "\<forall>el\<in>set n. PERIOD \<notin> set el \<and> brace_size el \<le> brace_size (m_body m) + 1" for n
  proof -
    have "\<exists>N. concatMap n (\<lambda>el. expand fuel el False) = Some N \<and>
      (\<forall>y\<in>set N. \<exists>el\<in>set n. PERIOD \<notin> set y \<and> brace_size y \<le> brace_size el)"
      using n ih size by (intro concatMap_total) (force simp: shrinks_def)
    then show ?thesis using n shrinks_combine [OF s per _ po(2)] by (meson order_trans)
  qed
  note expand = expand.simps(2) m d c not_sequence_free [OF free(1)] po(1) Let_def
  show ?thesis
  proof (cases "length (parseCommaParts (m_body m)) = 1")
    case True
    obtain r where r: "expand fuel (m_body m) False = Some r" "shrinks (m_body m) r"
      using ih [of "m_body m" False] free(1) size by auto
    show ?thesis
    proof (cases "length r = 1")
      case one: True
      then obtain x where "r = [x]" by (cases r) auto
      then show ?thesis using r po shrinks_single [OF s per _ po(2)] one_part [OF True] by (simp add: expand)
    next
      case False
      then have "\<forall>el\<in>set (map embrace r). PERIOD \<notin> set el \<and> brace_size el \<le> brace_size (m_body m) + 1"
        using r(2) by (auto simp: shrinks_def) (auto simp: embrace_def)
      from each [OF this] show ?thesis using r False one_part [OF True] by (auto simp: expand)
    qed
  next
    case False
    have "\<forall>el\<in>set (parseCommaParts (m_body m)). PERIOD \<notin> set el \<and> brace_size el \<le> brace_size (m_body m) + 1"
      using part_size part_units free(1) by (meson le_add1 order_trans)
    from each [OF this] show ?thesis using False by (auto simp: expand)
  qed
qed

lemma expand_shrinks:
  "PERIOD \<notin> set s \<Longrightarrow> brace_size s < fuel \<Longrightarrow> \<exists>r. expand fuel s t = Some r \<and> shrinks s r"
proof (induction fuel arbitrary: s t)
  case (Suc fuel)
  show ?case
  proof (cases "balanced OPEN CLOSE s")
    case None
    then show ?thesis using Suc.prems by (simp add: expand.simps(2) shrinks_self)
  next
    case (Some m)
    have s: "s = m_pre m @ OPEN # m_body m @ CLOSE # m_post m" using Some by (intro balanced_split) simp_all
    let ?s = "m_pre m @ OPEN # m_body m @ escClose # m_post m"
    have free: "PERIOD \<notin> set ?s" using Suc.prems(1) by (subst (asm) s) simp
    have size: "brace_size s = brace_size ?s + 1" by (subst s) simp
    obtain r where r: "expand fuel ?s False = Some r" "shrinks ?s r" using Suc.IH [OF free, of False] Suc.prems(2) size by auto
    consider "m_pre m \<noteq> [] \<and> last (m_pre m) = 36" | "COMMA \<notin> set (m_body m)"
      | "\<not> (m_pre m \<noteq> [] \<and> last (m_pre m) = 36)" "COMMA \<in> set (m_body m)" by blast
    then show ?thesis
    proof cases
      case 3
      show ?thesis using expand_group_shrinks [OF Some Suc.prems(1) 3(2,1)] Suc.IH Suc.prems(2) by auto
    next
      case 2
      have "\<not> isNumericSequence (m_body m) \<and> \<not> isAlphaSequence (m_body m)" using free by (intro not_sequence_free) simp
      then show ?thesis
        using 2 r shrinks_mono [OF r(2), of s] size Some Suc.prems(1) by (auto simp: expand.simps(2) shrinks_self)
    qed (use Some Suc.prems(1) in \<open>auto simp: expand.simps(2) shrinks_self\<close>)
  qed
qed simp

text \<open>
  C32: On a string without periods the expansion always returns, however its
  braces nest: its recursion is no deeper than the length of the string plus
  the number of its closing braces, although a group with one part expands
  strings that are built from earlier results.
\<close>

theorem expand_terminates:
  "PERIOD \<notin> set str \<Longrightarrow> \<exists>r. expand (Suc (brace_size str)) str isTop = Some r"
  using expand_shrinks [of str "Suc (brace_size str)" isTop] by auto

theorem expand_terminates_witness:
  "\<exists>r. expand (Suc (brace_size (lit ''x{{a,b}}{},c}y''))) (lit ''x{{a,b}}{},c}y'') True = Some r"
  by (rule expand_terminates) code_simp

section \<open>Sequences end unless their increment is zero\<close>

lemma seq_loop_zero:
  assumes "if reverse then gte i y else lte i y"
  shows "seq_loop reverse i y 0 = None"
proof (rule ccontr)
  assume "seq_loop reverse i y 0 \<noteq> None"
  then obtain xs where "seq_loop reverse i y 0 = Some xs" by auto
  moreover from this have "seq_loop reverse i y 0 = Some (i # xs)" using assms by (subst seq_loop.simps) simp
  ultimately show False by simp
qed

lemma seq_loop_up: "0 < d \<Longrightarrow> \<exists>is. seq_loop False i y d = Some is"
proof (induction "nat (y - i + 1)" arbitrary: i rule: less_induct)
  case less
  show ?case
  proof (cases "i \<le> y")
    case True
    then obtain xs where "seq_loop False (i + d) y d = Some xs" using less.hyps [of "i + d"] less.prems by auto
    then show ?thesis by (subst seq_loop.simps) simp
  qed (subst seq_loop.simps, simp add: lte_def)
qed

lemma seq_loop_down: "d < 0 \<Longrightarrow> \<exists>is. seq_loop True i y d = Some is"
proof (induction "nat (i - y + 1)" arbitrary: i rule: less_induct)
  case less
  show ?case
  proof (cases "i \<ge> y")
    case True
    then obtain xs where "seq_loop True (i + d) y d = Some xs" using less.hyps [of "i + d"] less.prems by auto
    then show ?thesis by (subst seq_loop.simps) simp
  qed (subst seq_loop.simps, simp add: gte_def)
qed

lemma seq_loop_ends:
  assumes "0 \<le> d"
  shows "seq_loop (y < x) x y (if y < x then d * -1 else d) = None \<longleftrightarrow> d = 0"
proof (cases "d = 0")
  case True
  then show ?thesis using seq_loop_zero [of "y < x" x y] by (cases "y < x") (simp_all add: gte_def lte_def)
next
  case False
  then show ?thesis
    using seq_loop_up [of d x y] seq_loop_down [of "- d" x y] assms by (cases "y < x") auto
qed


end
