(* ===== verification/Mm_Parse.thy ===== *)
theory Mm_Parse
  imports Mm_Match Js_Expand
begin

text \<open>
  The translation of one path part of a glob into a regular expression:
  \<^verbatim>\<open>parse\<close> of \<^verbatim>\<open>minimatch\<close> (module 20 of \<^verbatim>\<open>wordcut.js\<close>).  The local variables of \<^verbatim>\<open>parse\<close>
  are a record, the body of its loop is \<^verbatim>\<open>parse_char\<close>, and what follows the loop
  is \<^verbatim>\<open>parse_end\<close>.
\<close>

section \<open>Constants and local state\<close>

definition reSpecials :: "code_unit \<Rightarrow> bool" where
  "reSpecials c \<longleftrightarrow> c \<in> set [40, 41, 46, 42, 123, 125, 43, 63, 91, 93, 94, 36, 92, 33]"

definition qmark :: ustring where "qmark = lit ''[^/]''"

definition star :: ustring where "star = qmark @ lit ''*?''"

definition plTypes_open :: "code_unit \<Rightarrow> ustring" where
  "plTypes_open t = (if t = 33 then lit ''(?:(?!(?:'' else lit ''(?:'')"

definition plTypes_close :: "code_unit \<Rightarrow> ustring" where
  "plTypes_close t = (if t = 33 then lit ''))[^/]*?)'' else if t = 63 then lit '')?''
     else if t = 43 then lit '')+'' else if t = 42 then lit '')*'' else lit '')'')"

record pattern_list =
  pl_type :: code_unit
  pl_start :: int
  pl_reStart :: nat
  pl_reEnd :: nat

record pstate =
  re_text :: ustring
  hasMagic :: bool
  escaping :: bool
  patternListStack :: "pattern_list list"
  negativeLists :: "pattern_list list"
  stateChar :: "code_unit option"
  inClass :: bool
  reClassStart :: int
  classStart :: int

definition parse_init :: "mm_options \<Rightarrow> pstate" where
  "parse_init opts = \<lparr> re_text = [], hasMagic = nocase opts, escaping = False, patternListStack = [],
     negativeLists = [], stateChar = None, inClass = False, reClassStart = -1, classStart = -1 \<rparr>"

text \<open>What \<^verbatim>\<open>parse\<close> returns: a part, or the pair for a caller that asked for a piece of a larger pattern.\<close>

datatype parse_result = Part part | Sub ustring bool

text \<open>
  The elements 0 and 1 of such a pair as the caller reads them: of any other
  value they are undefined, which is the text \<^verbatim>\<open>undefined\<close> in a concatenation.
\<close>

fun sub_re :: "parse_result \<Rightarrow> ustring" where
  "sub_re (Sub r m) = r"
| "sub_re (Part p) = lit ''undefined''"

fun sub_magic :: "parse_result \<Rightarrow> bool" where
  "sub_magic (Sub r m) = m"
| "sub_magic (Part p) = False"

definition emit_re :: "ustring \<Rightarrow> pstate \<Rightarrow> pstate" where
  "emit_re s st = st\<lparr>re_text := re_text st @ s\<rparr>"

definition clearStateChar :: "pstate \<Rightarrow> pstate" where
  "clearStateChar st = (case stateChar st of None \<Rightarrow> st
   | Some c \<Rightarrow>
     (if c = 42 then (emit_re star st)\<lparr>hasMagic := True, stateChar := None\<rparr>
      else if c = 63 then (emit_re qmark st)\<lparr>hasMagic := True, stateChar := None\<rparr>
      else (emit_re [BACKSLASH, c] st)\<lparr>stateChar := None\<rparr>))"

section \<open>The loop\<close>

definition parse_stateChar :: "mm_options \<Rightarrow> nat \<Rightarrow> code_unit \<Rightarrow> pstate \<Rightarrow> pstate" where
  "parse_stateChar opts i c st =
    (if inClass st then emit_re [if c = 33 \<and> int i = classStart st + 1 then 94 else c] st
     else let st1 = (clearStateChar st)\<lparr>stateChar := Some c\<rparr>
       in if noext opts then clearStateChar st1 else st1)"

definition parse_open :: "nat \<Rightarrow> pstate \<Rightarrow> pstate" where
  "parse_open i st =
    (if inClass st then emit_re (lit ''('') st
     else case stateChar st of None \<Rightarrow> emit_re [BACKSLASH, 40] st
     | Some t \<Rightarrow>
       let pl = \<lparr> pl_type = t, pl_start = int i - 1, pl_reStart = length (re_text st), pl_reEnd = 0 \<rparr>
       in (emit_re (plTypes_open t) st)\<lparr>patternListStack := pl # patternListStack st, stateChar := None\<rparr>)"

definition parse_close :: "pstate \<Rightarrow> pstate" where
  "parse_close st =
    (if inClass st \<or> patternListStack st = [] then emit_re [BACKSLASH, 41] st
     else let st1 = (clearStateChar st)\<lparr>hasMagic := True\<rparr>;
              pl = hd (patternListStack st1);
              st2 = (emit_re (plTypes_close (pl_type pl)) st1)\<lparr>patternListStack := tl (patternListStack st1)\<rparr>
       in if pl_type pl = 33
          then st2\<lparr>negativeLists := pl\<lparr>pl_reEnd := length (re_text st2)\<rparr> # negativeLists st2\<rparr>
          else st2)"

definition parse_pipe :: "pstate \<Rightarrow> pstate" where
  "parse_pipe st =
    (if inClass st \<or> patternListStack st = [] \<or> escaping st
     then (emit_re [BACKSLASH, 124] st)\<lparr>escaping := False\<rparr>
     else emit_re [124] (clearStateChar st))"

definition parse_lbracket :: "nat \<Rightarrow> pstate \<Rightarrow> pstate" where
  "parse_lbracket i st =
    (let st1 = clearStateChar st in
     if inClass st1 then emit_re [BACKSLASH, 91] st1
     else emit_re [91] (st1\<lparr>inClass := True, classStart := int i, reClassStart := int (length (re_text st1))\<rparr>))"

definition parse_rbracket :: "(ustring \<Rightarrow> parse_result js) \<Rightarrow> ustring \<Rightarrow> nat \<Rightarrow> pstate \<Rightarrow> pstate js" where
  "parse_rbracket sub pattern i st =
    (if int i = classStart st + 1 \<or> \<not> inClass st then Inr ((emit_re [BACKSLASH, 93] st)\<lparr>escaping := False\<rparr>)
     else let cs = drop (nat (classStart st + 1)) (take i pattern) in
       if RegExp_new ([91] @ cs @ [93]) = None
       then js_bind (sub cs) (\<lambda>sp. Inr (st\<lparr>
              re_text := take (nat (reClassStart st)) (re_text st) @ [BACKSLASH, 91] @ sub_re sp @ [BACKSLASH, 93],
              hasMagic := hasMagic st \<or> sub_magic sp, inClass := False\<rparr>))
       else Inr (emit_re [93] (st\<lparr>hasMagic := True, inClass := False\<rparr>)))"

definition parse_default :: "code_unit \<Rightarrow> pstate \<Rightarrow> pstate" where
  "parse_default c st =
    (let st1 = clearStateChar st in
     if escaping st1 then emit_re [c] (st1\<lparr>escaping := False\<rparr>)
     else if reSpecials c \<and> \<not> (c = 94 \<and> inClass st1) then emit_re [BACKSLASH, c] st1
     else emit_re [c] st1)"

text \<open>One round: \<^const>\<open>None\<close> is the early \<^verbatim>\<open>return false\<close>.\<close>

definition parse_char ::
  "mm_options \<Rightarrow> (ustring \<Rightarrow> parse_result js) \<Rightarrow> ustring \<Rightarrow> nat \<Rightarrow> code_unit \<Rightarrow> pstate \<Rightarrow> pstate option js" where
  "parse_char opts sub pattern i c st =
    (if escaping st \<and> reSpecials c then Inr (Some ((emit_re [BACKSLASH, c] st)\<lparr>escaping := False\<rparr>))
     else if c = 47 then Inr None
     else if c = BACKSLASH then Inr (Some ((clearStateChar st)\<lparr>escaping := True\<rparr>))
     else if c \<in> set [63, 42, 43, 64, 33] then Inr (Some (parse_stateChar opts i c st))
     else if c = 40 then Inr (Some (parse_open i st))
     else if c = 41 then Inr (Some (parse_close st))
     else if c = 124 then Inr (Some (parse_pipe st))
     else if c = 91 then Inr (Some (parse_lbracket i st))
     else if c = 93 then js_bind (parse_rbracket sub pattern i st) (\<lambda>st1. Inr (Some st1))
     else Inr (Some (parse_default c st)))"

fun parse_loop ::
  "mm_options \<Rightarrow> (ustring \<Rightarrow> parse_result js) \<Rightarrow> ustring \<Rightarrow> nat \<Rightarrow> ustring \<Rightarrow> pstate \<Rightarrow> pstate option js" where
  "parse_loop opts sub pattern i [] st = Inr (Some st)"
| "parse_loop opts sub pattern i (c # cs) st =
    js_bind (parse_char opts sub pattern i c st) (\<lambda>r. case r of None \<Rightarrow> Inr None
      | Some st1 \<Rightarrow> parse_loop opts sub pattern (Suc i) cs st1)"

section \<open>After the loop\<close>

definition close_class :: "(ustring \<Rightarrow> parse_result js) \<Rightarrow> ustring \<Rightarrow> pstate \<Rightarrow> pstate js" where
  "close_class sub pattern st =
    (if inClass st then
       js_bind (sub (drop (nat (classStart st + 1)) pattern)) (\<lambda>sp. Inr (st\<lparr>
         re_text := take (nat (reClassStart st)) (re_text st) @ [BACKSLASH, 91] @ sub_re sp,
         hasMagic := hasMagic st \<or> sub_magic sp\<rparr>))
     else Inr st)"

text \<open>
  The replacement in the tail of an unclosed list: up to 64 pairs of backslashes,
  perhaps one more and a bar, where the pairs are doubled and the bar is
  escaped.
\<close>

function escape_pipes :: "ustring \<Rightarrow> ustring" where
  "escape_pipes s =
    (let k = length (takeWhile (\<lambda>c. c = BACKSLASH) s) in
     if k \<le> 129 \<and> take 1 (drop k s) = [124]
     then replicate (2 * (k - k mod 2)) BACKSLASH @ [BACKSLASH, 124] @ escape_pipes (drop (Suc k) s)
     else case s of [] \<Rightarrow> [] | c # cs \<Rightarrow> c # escape_pipes cs)"
  by pat_completeness auto
termination
  by (relation "measure length") (auto, metis diff_less drop_Nil length_greater_0_conv list.distinct(1) take_Nil zero_less_Suc)

declare escape_pipes.simps [simp del]

definition unclosed_list :: "pattern_list \<Rightarrow> pstate \<Rightarrow> pstate" where
  "unclosed_list pl st =
    (let tail = escape_pipes (drop (pl_reStart pl + length (plTypes_open (pl_type pl))) (re_text st));
         t = (if pl_type pl = 42 then star else if pl_type pl = 63 then qmark else [BACKSLASH, pl_type pl])
     in st\<lparr>hasMagic := True, re_text := take (pl_reStart pl) (re_text st) @ t @ [BACKSLASH, 40] @ tail\<rparr>)"

text \<open>\<^verbatim>\<open>replace(/\)[+*?]?/, '')\<close>, and the part of the text after a negation without the enclosing parentheses.\<close>

fun drop_close :: "ustring \<Rightarrow> ustring" where
  "drop_close [] = []"
| "drop_close (c # s) =
    (if c = 41 then (case s of [] \<Rightarrow> [] | d # s' \<Rightarrow> if d = 43 \<or> d = 42 \<or> d = 63 then s' else s)
     else c # drop_close s)"

definition fix_negation :: "bool \<Rightarrow> pattern_list \<Rightarrow> ustring \<Rightarrow> ustring" where
  "fix_negation isSub nl re =
    (let nlBefore = take (pl_reStart nl) re;
         nlFirst = drop (pl_reStart nl) (take (pl_reEnd nl - 8) re);
         nlAfter = drop (pl_reEnd nl) re;
         nlLast = drop (pl_reEnd nl - 8) (take (pl_reEnd nl) re) @ nlAfter;
         openParensBefore = length (filter (\<lambda>c. c = 40) nlBefore);
         cleanAfter = (drop_close ^^ openParensBefore) nlAfter;
         dollar = (if cleanAfter = [] \<and> \<not> isSub then lit ''$'' else [])
     in nlBefore @ nlFirst @ cleanAfter @ dollar @ nlLast)"

definition patternStart :: "mm_options \<Rightarrow> ustring \<Rightarrow> ustring" where
  "patternStart opts pattern =
    (if take 1 pattern = lit ''.'' then []
     else if dot opts then lit ''(?!(?:^|'' @ [BACKSLASH] @ lit ''/)'' @ [BACKSLASH] @ lit ''.{1,2}(?:$|'' @ [BACKSLASH] @ lit ''/))''
     else lit ''(?!'' @ [BACKSLASH] @ lit ''.)'')"

fun globUnescape :: "ustring \<Rightarrow> ustring" where
  "globUnescape (a # b # s) =
    (if a = BACKSLASH \<and> \<not> line_terminator b then b # globUnescape s else a # globUnescape (b # s))"
| "globUnescape s = s"

definition never_matches :: regobj where
  "never_matches = \<lparr> compiled = the (RegExp_new (lit ''$.'')), ignoreCase = False, re_src = None \<rparr>"

definition make_part :: "mm_options \<Rightarrow> ustring \<Rightarrow> part" where
  "make_part opts re = (case RegExp_new (lit ''^'' @ re @ lit ''$'') of None \<Rightarrow> Re never_matches
     | Some r \<Rightarrow> Re \<lparr> compiled = r, ignoreCase = nocase opts, re_src = Some re \<rparr>)"

definition parse_end :: "mm_options \<Rightarrow> bool \<Rightarrow> ustring \<Rightarrow> pstate \<Rightarrow> parse_result" where
  "parse_end opts isSub pattern st =
    (let st1 = clearStateChar (fold unclosed_list (patternListStack st) st);
         re1 = (if escaping st1 then re_text st1 @ [BACKSLASH, BACKSLASH] else re_text st1);
         addPatternStart = (take 1 re1 \<in> set [lit ''.'', lit ''['', lit ''('']);
         re2 = fold (fix_negation isSub) (negativeLists st1) re1;
         re3 = (if re2 \<noteq> [] \<and> hasMagic st1 then lit ''(?=.)'' @ re2 else re2);
         re4 = (if addPatternStart then patternStart opts pattern @ re3 else re3)
     in if isSub then Sub re4 (hasMagic st1)
        else if \<not> hasMagic st1 then Part (Str (globUnescape pattern))
        else Part (make_part opts re4))"

text \<open>
  \<^verbatim>\<open>parse\<close> with a bound on the nesting of bracket expressions that turn out not to
  be classes; beyond the bound the call stack of the runtime overflows.
\<close>

primrec parse :: "nat \<Rightarrow> mm_options \<Rightarrow> bool \<Rightarrow> ustring \<Rightarrow> parse_result js" where
  "parse 0 opts isSub pattern = Inl RangeError"
| "parse (Suc n) opts isSub pattern =
    (if int (length pattern) > 65536 then Inl TypeError
     else if \<not> noglobstar opts \<and> pattern = lit ''**'' then Inr (Part GLOBSTAR)
     else if pattern = [] then Inr (Part (Str []))
     else js_bind (parse_loop opts (\<lambda>cs. parse n opts True cs) pattern 0 pattern (parse_init opts)) (\<lambda>r.
       case r of None \<Rightarrow> Inr (Part PFalse)
       | Some st \<Rightarrow> js_bind (close_class (\<lambda>cs. parse n opts True cs) pattern st) (\<lambda>st1.
           Inr (parse_end opts isSub pattern st1))))"

end
