(* ===== verification/Mm_Core.thy ===== *)
theory Mm_Core
  imports Mm_Parse
begin

text \<open>
  The entry points of \<^verbatim>\<open>minimatch\<close> (module 20 of \<^verbatim>\<open>wordcut.js\<close>): the object
  \<^verbatim>\<open>Minimatch\<close> with its compiled set of patterns, negation, brace expansion,
  \<^verbatim>\<open>match\<close> and \<^verbatim>\<open>makeRe\<close>.  The outer \<^const>\<open>None\<close> of a result is a call that does not
  return, because the expansion of braces does not.
\<close>

section \<open>Definitions\<close>

record mm =
  mm_options :: mm_options
  mm_set :: "part list list"
  mm_pattern :: ustring
  mm_regexp :: "regobj option option"
  mm_negate :: bool
  mm_comment :: bool
  mm_empty :: bool

definition slashSplit :: "ustring \<Rightarrow> ustring list" where
  "slashSplit s = split_runs (\<lambda>c. c = 47) False s"

definition parseNegate :: "mm \<Rightarrow> mm" where
  "parseNegate m =
    (if nonegate (mm_options m) then m
     else let negateOffset = length (takeWhile (\<lambda>c. c = 33) (mm_pattern m))
       in m\<lparr>mm_pattern := drop negateOffset (mm_pattern m), mm_negate := odd negateOffset\<rparr>)"

text \<open>\<^verbatim>\<open>pattern.match(/\{.*\}/)\<close>.\<close>

fun has_braces :: "ustring \<Rightarrow> bool" where
  "has_braces [] = False"
| "has_braces (c # s) = (c = OPEN \<and> close_on_line s \<or> has_braces s)"

definition braceExpand :: "nat \<Rightarrow> mm_options \<Rightarrow> ustring \<Rightarrow> ustring list option" where
  "braceExpand fuel opts pattern =
    (if nobrace opts \<or> \<not> has_braces pattern then Some [pattern] else expandTop fuel pattern)"

fun part_of :: "parse_result \<Rightarrow> part" where
  "part_of (Part p) = p"
| "part_of (Sub r m) = PFalse"

definition parse_part :: "mm_options \<Rightarrow> ustring \<Rightarrow> part js" where
  "parse_part opts p = js_bind (parse (length p + 1) opts False p) (\<lambda>r. Inr (part_of r))"

definition make :: "nat \<Rightarrow> mm \<Rightarrow> mm js option" where
  "make fuel m =
    (if \<not> nocomment (mm_options m) \<and> take 1 (mm_pattern m) = lit ''#'' then Some (Inr (m\<lparr>mm_comment := True\<rparr>))
     else if mm_pattern m = [] then Some (Inr (m\<lparr>mm_empty := True\<rparr>))
     else let m1 = parseNegate m in
       map_option (\<lambda>globSet.
         js_bind (js_map (js_map (parse_part (mm_options m1))) (map slashSplit globSet)) (\<lambda>set1.
           Inr (m1\<lparr>mm_set := filter (\<lambda>s. \<not> list_ex (\<lambda>p. p = PFalse) s) set1\<rparr>)))
         (braceExpand fuel (mm_options m1) (mm_pattern m1)))"

definition Minimatch :: "nat \<Rightarrow> ustring option \<Rightarrow> mm_options \<Rightarrow> mm js option" where
  "Minimatch fuel pattern opts = (case pattern of None \<Rightarrow> Some (Inl TypeError)
   | Some p \<Rightarrow> make fuel \<lparr> mm_options = opts, mm_set = [], mm_pattern = js_trim p, mm_regexp = None,
       mm_negate = False, mm_comment = False, mm_empty = False \<rparr>)"

text \<open>The last part that is not empty, and otherwise the first part, which is empty then.\<close>

definition last_filename :: "ustring list \<Rightarrow> ustring" where
  "last_filename parts = (case filter (\<lambda>p. p \<noteq> []) parts of [] \<Rightarrow> [] | ps \<Rightarrow> last ps)"

definition mm_match :: "unicode \<Rightarrow> mm \<Rightarrow> ustring \<Rightarrow> bool \<Rightarrow> bool" where
  "mm_match u m f partial =
    (if mm_comment m then False
     else if mm_empty m then f = []
     else if f = lit ''/'' \<and> partial then True
     else let opts = mm_options m; parts = slashSplit f in
       if list_ex (\<lambda>pattern. matchOne u opts partial
            (if matchBase opts \<and> length pattern = 1 then [last_filename parts] else parts) pattern) (mm_set m)
       then (if flipNegate opts then True else \<not> mm_negate m)
       else (if flipNegate opts then False else mm_negate m))"

definition minimatch :: "nat \<Rightarrow> unicode \<Rightarrow> ustring \<Rightarrow> ustring option \<Rightarrow> mm_options \<Rightarrow> bool js option" where
  "minimatch fuel u p pattern opts = (case pattern of None \<Rightarrow> Some (Inl TypeError)
   | Some s \<Rightarrow>
     if \<not> nocomment opts \<and> take 1 s = lit ''#'' then Some (Inr False)
     else if js_trim s = [] then Some (Inr (p = []))
     else map_option (\<lambda>r. js_bind r (\<lambda>m. Inr (mm_match u m p False))) (Minimatch fuel pattern opts))"

definition minimatch_list :: "nat \<Rightarrow> unicode \<Rightarrow> ustring list \<Rightarrow> ustring option \<Rightarrow> mm_options \<Rightarrow> ustring list js option" where
  "minimatch_list fuel u fs pattern opts =
    map_option (\<lambda>r. js_bind r (\<lambda>m.
      let found = filter (\<lambda>f. mm_match u m f False) fs
      in Inr (if nonull (mm_options m) \<and> found = [] then [the pattern] else found)))
      (Minimatch fuel pattern opts)"

section \<open>One regular expression for a pattern\<close>

definition regExpEscape :: "ustring \<Rightarrow> ustring" where
  "regExpEscape s = concat (map (\<lambda>c.
     if c \<in> set [45, 91, 93, 123, 125, 40, 41, 42, 43, 63, 46, 44, 92, 94, 36, 124, 35] \<or> js_space c
     then [BACKSLASH, c] else [c]) s)"

definition twoStarDot :: ustring where
  "twoStarDot = lit ''(?:(?!(?:'' @ [BACKSLASH] @ lit ''/|^)(?:'' @ [BACKSLASH] @ lit ''.{1,2})($|'' @ [BACKSLASH] @ lit ''/)).)*?''"

definition twoStarNoDot :: ustring where
  "twoStarNoDot = lit ''(?:(?!(?:'' @ [BACKSLASH] @ lit ''/|^)'' @ [BACKSLASH] @ lit ''.).)*?''"

definition part_source :: "mm_options \<Rightarrow> part \<Rightarrow> ustring" where
  "part_source opts p = (case p of
     GLOBSTAR \<Rightarrow> if noglobstar opts then star else if dot opts then twoStarDot else twoStarNoDot
   | Str s \<Rightarrow> regExpEscape s
   | Re r \<Rightarrow> (case re_src r of Some s \<Rightarrow> s | None \<Rightarrow> []) | PFalse \<Rightarrow> [])"

definition makeRe_source :: "mm \<Rightarrow> ustring" where
  "makeRe_source m =
    (let re = js_join [124] (map (\<lambda>pattern. js_join [BACKSLASH, 47] (map (part_source (mm_options m)) pattern)) (mm_set m));
         re1 = lit ''^(?:'' @ re @ lit '')$''
     in if mm_negate m then lit ''^(?!'' @ re1 @ lit '').*$'' else re1)"

definition makeRe :: "mm \<Rightarrow> mm" where
  "makeRe m =
    (if mm_regexp m \<noteq> None then m
     else if mm_set m = [] then m\<lparr>mm_regexp := Some None\<rparr>
     else m\<lparr>mm_regexp := Some (map_option (\<lambda>r. \<lparr> compiled = r, ignoreCase = nocase (mm_options m), re_src = None \<rparr>)
              (RegExp_new (makeRe_source m)))\<rparr>)"

end
