(* ===== verification/Mm_Props.thy ===== *)
theory Mm_Props
  imports Mm_Core
begin

text \<open>
  What a glob matches: patterns without magic match themselves part by part, a
  star before a literal tail matches the names with that tail, and an
  unclosed bracket after a star is mistranslated.
\<close>

section \<open>Ordinary characters\<close>

text \<open>The code units that reach the default branch of the loop.\<close>

definition default_unit :: "code_unit \<Rightarrow> bool" where
  "default_unit c \<longleftrightarrow> c \<notin> {47, 92, 63, 42, 43, 64, 33, 40, 41, 124, 91, 93}"

definition unit_source :: "code_unit \<Rightarrow> ustring" where
  "unit_source c = (if reSpecials c then [BACKSLASH, c] else [c])"

definition text_source :: "ustring \<Rightarrow> ustring" where
  "text_source s = concat (map unit_source s)"

lemma text_source_simps [simp]:
  "text_source [] = []" "text_source (c # s) = unit_source c @ text_source s"
  by (simp_all add: text_source_def)

lemma char_default:
  assumes "default_unit c" "stateChar st = None" "\<not> escaping st" "\<not> inClass st"
  shows "parse_char opts sub pattern i c st = Inr (Some (emit_re (unit_source c) st))"
  using assms by (simp add: parse_char_def parse_default_def clearStateChar_def default_unit_def unit_source_def BACKSLASH_def)

lemma loop_default:
  "stateChar st = None \<Longrightarrow> \<not> escaping st \<Longrightarrow> \<not> inClass st \<Longrightarrow> list_all default_unit cs \<Longrightarrow>
    parse_loop opts sub pattern i cs st = Inr (Some (emit_re (text_source cs) st))"
proof (induction cs arbitrary: i st)
  case (Cons c cs)
  then show ?case by (simp add: char_default) (simp add: emit_re_def)
qed (simp add: emit_re_def)

lemma globUnescape_plain: "BACKSLASH \<notin> set s \<Longrightarrow> globUnescape s = s"
  by (induction s rule: globUnescape.induct) auto

lemma parse_literal:
  assumes "list_all default_unit p" "int (length p) \<le> 65536" "\<not> nocase opts"
  shows "parse (Suc n) opts False p = Inr (Part (Str p))"
proof (cases "p = []")
  case False
  have "p \<noteq> lit ''**''" using assms(1) by (auto simp: lit_def default_unit_def)
  moreover have "BACKSLASH \<notin> set p" using assms(1) by (auto simp: list_all_iff default_unit_def BACKSLASH_def)
  ultimately show ?thesis
    using assms False by (simp add: loop_default [OF _ _ _ assms(1)] parse_init_def close_class_def parse_end_def
      clearStateChar_def emit_re_def globUnescape_plain Let_def)
qed (simp add: lit_def)

section \<open>The translation always returns\<close>

definition class_ok :: "pstate \<Rightarrow> bool" where
  "class_ok st \<longleftrightarrow> (inClass st \<longrightarrow> 0 \<le> classStart st)"

lemma class_ok_clear [simp]: "class_ok (clearStateChar st) \<longleftrightarrow> class_ok st"
  by (auto simp: class_ok_def clearStateChar_def emit_re_def split: option.split)

lemma class_ok_step [simp]:
  "class_ok (emit_re s st) \<longleftrightarrow> class_ok st"
  "class_ok st \<Longrightarrow> class_ok (st\<lparr>escaping := b\<rparr>)" "class_ok st \<Longrightarrow> class_ok (st\<lparr>stateChar := sc\<rparr>)"
  "class_ok st \<Longrightarrow> class_ok (parse_stateChar opts i c st)" "class_ok st \<Longrightarrow> class_ok (parse_open i st)"
  "class_ok st \<Longrightarrow> class_ok (parse_close st)" "class_ok st \<Longrightarrow> class_ok (parse_pipe st)"
  "class_ok st \<Longrightarrow> class_ok (parse_lbracket i st)" "class_ok st \<Longrightarrow> class_ok (parse_default c st)"
  unfolding parse_stateChar_def parse_open_def parse_close_def parse_pipe_def parse_lbracket_def parse_default_def Let_def
  by (auto simp: class_ok_def clearStateChar_def emit_re_def split: option.split)

definition round_ok :: "pstate option js \<Rightarrow> bool" where
  "round_ok m \<longleftrightarrow> (\<exists>r. m = Inr r \<and> (\<forall>st1. r = Some st1 \<longrightarrow> class_ok st1))"

lemma round_ok_intros:
  "class_ok st \<Longrightarrow> round_ok (Inr (Some st))" "round_ok (Inr None)"
  "round_ok x \<Longrightarrow> round_ok y \<Longrightarrow> round_ok (if b then x else y)"
  by (simp_all add: round_ok_def)

lemma parse_char_total:
  assumes sub: "\<And>cs. length cs < length pattern \<Longrightarrow> \<exists>r. sub cs = Inr r" and "class_ok st" "i < length pattern"
  shows "round_ok (parse_char opts sub pattern i c st)"
proof -
  have "length (drop (nat (classStart st + 1)) (take i pattern)) < length pattern" using assms(3) by (simp add: less_imp_diff_less)
  then obtain sp where "sub (drop (nat (classStart st + 1)) (take i pattern)) = Inr sp" using sub by blast
  then have "\<exists>st1. parse_rbracket sub pattern i st = Inr st1 \<and> class_ok st1"
    using assms(2) by (auto simp: parse_rbracket_def Let_def class_ok_def emit_re_def)
  then obtain st1 where "parse_rbracket sub pattern i st = Inr st1" "class_ok st1" by blast
  then show ?thesis using assms(2) unfolding parse_char_def by (intro round_ok_intros) (simp_all add: round_ok_intros)
qed

lemma parse_loop_total:
  assumes sub: "\<And>cs. length cs < length pattern \<Longrightarrow> \<exists>r. sub cs = Inr r"
  shows "class_ok st \<Longrightarrow> i + length cs \<le> length pattern \<Longrightarrow>
    \<exists>r. parse_loop opts sub pattern i cs st = Inr r \<and> (\<forall>st1. r = Some st1 \<longrightarrow> class_ok st1)"
proof (induction cs arbitrary: i st)
  case (Cons c cs)
  have "round_ok (parse_char opts sub pattern i c st)"
    using Cons.prems by (intro parse_char_total sub) auto
  then obtain r where "parse_char opts sub pattern i c st = Inr r" "\<forall>st1. r = Some st1 \<longrightarrow> class_ok st1"
    by (auto simp: round_ok_def)
  then show ?case using Cons.IH [of _ "Suc i"] Cons.prems(2) by (cases r) auto
qed simp

text \<open>The depth bound used by \<^const>\<open>parse_part\<close> is enough: no pattern of an allowed length fails.\<close>

lemma parse_total:
  "length p < n \<Longrightarrow> int (length p) \<le> 65536 \<Longrightarrow> \<exists>r. parse n opts isSub p = Inr r"
proof (induction n arbitrary: isSub p)
  case (Suc n)
  have sub: "\<exists>r. parse n opts True cs = Inr r" if "length cs < length p" for cs
    using Suc.IH [of cs True] Suc.prems that by simp
  have "\<exists>r. parse_loop opts (\<lambda>cs. parse n opts True cs) p 0 p (parse_init opts) = Inr r \<and> (\<forall>st1. r = Some st1 \<longrightarrow> class_ok st1)"
    by (rule parse_loop_total) (use sub in \<open>auto simp: class_ok_def parse_init_def\<close>)
  then obtain r where r: "parse_loop opts (\<lambda>cs. parse n opts True cs) p 0 p (parse_init opts) = Inr r"
    "\<forall>st1. r = Some st1 \<longrightarrow> class_ok st1" by blast
  have "\<exists>st2. close_class (\<lambda>cs. parse n opts True cs) p st1 = Inr st2" if "r = Some st1" "p \<noteq> []" for st1
  proof -
    have "inClass st1 \<Longrightarrow> length (drop (nat (classStart st1 + 1)) p) < length p"
      using r(2) that by (auto simp: class_ok_def)
    then show ?thesis using sub [of "drop (nat (classStart st1 + 1)) p"] by (auto simp: close_class_def)
  qed
  then show ?case using r(1) Suc.prems(2) by (cases r) auto
qed simp

section \<open>Patterns without magic\<close>

lemma split_runs_units: "p \<in> set (split_runs P b s) \<Longrightarrow> c \<in> set p \<Longrightarrow> c \<in> set s \<and> \<not> P c"
  by (induction P b s arbitrary: p rule: split_runs.induct) (fastforce split: if_splits list.splits)+

lemma split_runs_length: "p \<in> set (split_runs P b s) \<Longrightarrow> length p \<le> length s"
  by (induction P b s arbitrary: p rule: split_runs.induct) (fastforce split: if_splits list.splits)+

lemma no_braces: "OPEN \<notin> set s \<Longrightarrow> \<not> has_braces s"
  by (induction s) auto

lemma matchOne_literal:
  "\<not> nocase opts \<Longrightarrow> matchOne u opts False fs (map Str ps) \<longleftrightarrow> fs = ps \<or> fs = ps @ [[]]"
proof (induction ps arbitrary: fs)
  case Nil
  then show ?case by (cases fs) auto
next
  case (Cons p ps)
  then show ?case by (cases fs) (auto simp: part_hit_def)
qed

text \<open>The pattern's own start: no comment, no negation, nothing to trim.\<close>

definition proper_start :: "ustring \<Rightarrow> bool" where
  "proper_start pat \<longleftrightarrow> pat \<noteq> [] \<and> hd pat \<noteq> 35 \<and> hd pat \<noteq> 33 \<and> js_trim pat = pat"

lemma make_proper:
  assumes "proper_start pat" "OPEN \<notin> set pat"
  shows "Minimatch fuel (Some pat) opts =
    Some (js_bind (js_map (parse_part opts) (slashSplit pat)) (\<lambda>ps. Inr \<lparr> mm_options = opts,
      mm_set = filter (\<lambda>s. \<not> list_ex (\<lambda>p. p = PFalse) s) [ps], mm_pattern = pat, mm_regexp = None,
      mm_negate = False, mm_comment = False, mm_empty = False \<rparr>))"
proof -
  have "take 1 pat \<noteq> lit ''#''" "takeWhile (\<lambda>c. c = 33) pat = []" "pat \<noteq> []" "js_trim pat = pat"
    using assms(1) by (cases pat; simp add: proper_start_def lit_def)+
  then show ?thesis
    using no_braces [OF assms(2)]
    by (cases "js_map (parse_part opts) (slashSplit pat)")
      (simp_all add: Minimatch_def make_def parseNegate_def braceExpand_def Let_def)
qed

lemma minimatch_proper:
  assumes "proper_start pat" "OPEN \<notin> set pat" "js_map (parse_part opts) (slashSplit pat) = Inr ps" "PFalse \<notin> set ps" "\<not> matchBase opts"
  shows "minimatch fuel u f (Some pat) opts = Some (Inr (matchOne u opts False (slashSplit f) ps))"
proof -
  have "take 1 pat \<noteq> lit ''#''" "pat \<noteq> []" "js_trim pat = pat"
    using assms(1) by (cases pat; simp add: proper_start_def lit_def)+
  moreover have "\<not> list_ex (\<lambda>p. p = PFalse) ps" using assms(4) by (auto simp: list_ex_iff)
  ultimately show ?thesis
    using assms(3,5) by (simp add: minimatch_def make_proper [OF assms(1,2)] mm_match_def Let_def)
qed

text \<open>
  C35: A pattern without magic characters matches a path exactly when their
  parts between slashes are equal, where runs of slashes count as one and the
  path may end in a slash more.
\<close>

theorem minimatch_literal:
  assumes "proper_start pat" "OPEN \<notin> set pat" "int (length pat) \<le> 65536"
    and "\<forall>c\<in>set pat. default_unit c \<or> c = 47" "\<not> nocase opts" "\<not> matchBase opts"
  shows "minimatch fuel u f (Some pat) opts =
    Some (Inr (slashSplit f = slashSplit pat \<or> slashSplit f = slashSplit pat @ [[]]))"
proof -
  have "parse_part opts p = Inr (Str p)" if p: "p \<in> set (slashSplit pat)" for p
  proof -
    have "list_all default_unit p" "int (length p) \<le> 65536"
      using split_runs_units [of p] split_runs_length [of p] p assms(3,4) by (fastforce simp: slashSplit_def list_all_iff)+
    then show ?thesis using parse_literal [OF _ _ assms(5)] by (simp add: parse_part_def)
  qed
  then have "js_map (parse_part opts) (slashSplit pat) = Inr (map Str (slashSplit pat))" by (rule js_map_total)
  from minimatch_proper [OF assms(1,2) this _ assms(6)] show ?thesis
    by (auto simp: matchOne_literal [OF assms(5)])
qed

definition ascii :: unicode where
  "ascii = \<lparr> toLowerCase = map (\<lambda>c. if 65 \<le> c \<and> c \<le> 90 then c + 32 else c),
     canonicalize = (\<lambda>c. if 97 \<le> c \<and> c \<le> 122 then c - 32 else c) \<rparr>"

theorem minimatch_literal_witness:
  "minimatch 0 ascii (lit ''lib//a.js/'') (Some (lit ''lib/a.js'')) no_options = Some (Inr True)"
proof -
  have "minimatch 0 ascii (lit ''lib//a.js/'') (Some (lit ''lib/a.js'')) no_options =
    Some (Inr (slashSplit (lit ''lib//a.js/'') = slashSplit (lit ''lib/a.js'')
      \<or> slashSplit (lit ''lib//a.js/'') = slashSplit (lit ''lib/a.js'') @ [[]]))"
    by (rule minimatch_literal) (code_simp, code_simp, code_simp, simp add: lit_def default_unit_def, simp_all add: no_options_def)
  moreover have "slashSplit (lit ''lib//a.js/'') = slashSplit (lit ''lib/a.js'') @ [[]]" by code_simp
  ultimately show ?thesis by simp
qed

section \<open>A star before a literal tail\<close>

text \<open>The regular expression of the tail, up to the end of the text.\<close>

primrec tail_regex :: "ustring \<Rightarrow> regex" where
  "tail_regex [] = RSeq REnd REmpty"
| "tail_regex (c # s) = RSeq (RChar c) (tail_regex s)"

lemma ends_tail: "j \<le> length f \<Longrightarrow> ends None (tail_regex t) f j \<noteq> [] \<longleftrightarrow> drop j f = t"
proof (induction t arbitrary: j)
  case Nil
  then show ?case by auto
next
  case (Cons c t)
  show ?case
  proof (cases "j < length f")
    case True
    then have "drop j f = f ! j # drop (Suc j) f" by (simp add: Cons_nth_drop_Suc)
    then show ?thesis using Cons.IH [of "Suc j"] True by (auto simp: same_unit_def)
  next
    case False
    then show ?thesis by simp
  qed
qed

definition stops_term :: "ustring \<Rightarrow> bool" where
  "stops_term s \<longleftrightarrow> s = [] \<or> hd s \<notin> {42, 43, 63, 123}"

lemma re_quant_stops: "stops_term s \<Longrightarrow> re_quant r s = Some (r, s)"
  by (auto simp: re_quant_def stops_term_def split: list.split)

lemma tail_stops: "list_all default_unit t \<Longrightarrow> stops_term (text_source t @ [36])"
  by (cases t) (auto simp: stops_term_def unit_source_def BACKSLASH_def reSpecials_def)

lemma re_escape_special: "reSpecials c \<Longrightarrow> re_escape (c # s) = Some (CUnit c, s)"
proof -
  assume "reSpecials c"
  then have "c \<noteq> 100" "c \<noteq> 68" "c \<noteq> 119" "c \<noteq> 87" "c \<noteq> 115" "c \<noteq> 83" "c \<noteq> 98" "c \<noteq> 102" "c \<noteq> 110"
    "c \<noteq> 114" "c \<noteq> 116" "c \<noteq> 118" "c \<noteq> 120" "c \<noteq> 117" "c \<noteq> 99" "\<not> (48 \<le> c \<and> c \<le> 55)"
    unfolding reSpecials_def by auto
  then show ?thesis unfolding re_escape_def by auto
qed

lemma re_term_unit:
  assumes "default_unit c"
  shows "re_term (Suc n) (unit_source c @ s) = Some (RChar c, s)"
proof (cases "reSpecials c")
  case True
  then have "take 1 (c # s) \<noteq> [98]" "take 1 (c # s) \<noteq> [66]" by (auto simp: reSpecials_def)
  then show ?thesis using True by (simp add: unit_source_def BACKSLASH_def re_escape_special)
next
  case False
  then have "c \<notin> {40, 91, 46, 94, 36, 92, 42, 43, 63}" by (auto simp: reSpecials_def)
  then show ?thesis using False by (simp add: unit_source_def)
qed

lemma re_seq_tail:
  "list_all default_unit t \<Longrightarrow> re_seq (Suc (Suc (Suc n + length t))) (text_source t @ [36]) = Some (tail_regex t, [])"
proof (induction t)
  case Nil
  then show ?case by (simp add: re_quant_def)
next
  case (Cons c t)
  have "unit_source c \<noteq> []" "hd (unit_source c) \<noteq> 124" "hd (unit_source c) \<noteq> 41"
    using Cons.prems by (auto simp: unit_source_def default_unit_def BACKSLASH_def)
  moreover have "re_quant (RChar c) (text_source t @ [36]) = Some (RChar c, text_source t @ [36])"
    using Cons.prems by (intro re_quant_stops tail_stops) simp
  ultimately show ?case
    using Cons re_term_unit [of c "Suc (Suc n + length t)"]
    by (subst list.size(4), subst add_Suc_right, subst re_seq.simps(2)) (simp del: re_seq.simps re_term.simps)
qed

text \<open>The expression that \<^verbatim>\<open>parse\<close> builds for a star and a tail.\<close>

definition star_source :: "ustring \<Rightarrow> ustring" where
  "star_source t = lit ''(?!'' @ [BACKSLASH] @ lit ''.)(?=.)'' @ star @ text_source t"

definition star_regex :: "ustring \<Rightarrow> regex" where
  "star_regex t = RSeq RBegin (RSeq (RLook False (RSeq (RChar 46) REmpty)) (RSeq (RLook True (RSeq RDot REmpty))
     (RSeq (RRep (RClass False [CUnit 47]) 0 None) (tail_regex t))))"

lemma star_source_units:
  "[94] @ star_source t @ [36] = 94 # 40 # 63 # 33 # 92 # 46 # 41 # 40 # 63 # 61 # 46 # 41 # 91 # 94 # 47 # 93 # 42 # 63 # text_source t @ [36]"
  by (simp add: star_source_def star_def qmark_def lit_def BACKSLASH_def)

lemma text_source_length: "length t \<le> length (text_source t)"
  by (induction t) (auto simp: unit_source_def)

lemma re_seq_step:
  "re_term n s = Some (t, s1) \<Longrightarrow> re_quant t s1 = Some (q, s2) \<Longrightarrow> re_seq n s2 = Some (r, s3) \<Longrightarrow>
    s \<noteq> [] \<Longrightarrow> hd s \<noteq> 124 \<Longrightarrow> hd s \<noteq> 41 \<Longrightarrow> re_seq (Suc n) s = Some (RSeq q r, s3)"
  by simp

lemma re_disj_star:
  assumes "re_seq (Suc (Suc (Suc (Suc (Suc m))))) (text_source t @ [36]) = Some (tail_regex t, [])"
  shows "re_disj (Suc (Suc (Suc (Suc (Suc (Suc (Suc (Suc (Suc (Suc m)))))))))) ([94] @ star_source t @ [36])
    = Some (star_regex t, [])"
proof -
  let ?s4 = "text_source t @ [36]" let ?s3 = "91 # 94 # 47 # 93 # 42 # 63 # ?s4" let ?s2 = "40 # 63 # 61 # 46 # 41 # ?s3"
  let ?s1 = "40 # 63 # 33 # 92 # 46 # 41 # ?s2"
  have 3: "re_seq (Suc (Suc (Suc (Suc (Suc (Suc m)))))) ?s3 = Some (RSeq (RRep (RClass False [CUnit 47]) 0 None) (tail_regex t), [])"
    by (rule re_seq_step [OF _ _ assms]) (simp add: re_quant_def skip_lazy_def class_atom_def)+
  have 2: "re_seq (Suc (Suc (Suc (Suc (Suc (Suc (Suc m))))))) ?s2 = Some (RSeq (RLook True (RSeq RDot REmpty))
      (RSeq (RRep (RClass False [CUnit 47]) 0 None) (tail_regex t)), [])"
    by (rule re_seq_step [OF _ _ 3]) (simp add: re_quant_def re_close_def)+
  have 1: "re_seq (Suc (Suc (Suc (Suc (Suc (Suc (Suc (Suc m)))))))) ?s1 = Some (RSeq (RLook False (RSeq (RChar 46) REmpty))
      (RSeq (RLook True (RSeq RDot REmpty)) (RSeq (RRep (RClass False [CUnit 47]) 0 None) (tail_regex t))), [])"
    by (rule re_seq_step [OF _ _ 2]) (simp add: re_quant_def re_close_def re_escape_def)+
  have "re_seq (Suc (Suc (Suc (Suc (Suc (Suc (Suc (Suc (Suc m))))))))) (94 # ?s1) = Some (star_regex t, [])"
    unfolding star_regex_def by (rule re_seq_step [OF _ _ 1]) (simp add: re_quant_def)+
  then show ?thesis unfolding star_source_units by (subst re_disj.simps(2)) (simp del: re_seq.simps re_disj.simps)
qed

lemma RegExp_star:
  assumes "list_all default_unit t"
  shows "RegExp_new ([94] @ star_source t @ [36]) = Some (star_regex t)"
proof -
  let ?src = "[94] @ star_source t @ [36]"
  have "length ?src = length (text_source t) + 19" unfolding star_source_units by simp
  then have "10 + length t \<le> 3 * length ?src + 3" using text_source_length [of t] by simp
  then obtain k where "3 * length ?src + 3 = 10 + length t + k" by (metis le_iff_add)
  then have k: "3 * length ?src + 3 = Suc (Suc (Suc (Suc (Suc (Suc (Suc (Suc (Suc (Suc (k + length t))))))))))" by simp
  have "re_seq (Suc (Suc (Suc (Suc (Suc (k + length t)))))) (text_source t @ [36]) = Some (tail_regex t, [])"
    using re_seq_tail [OF assms, of "Suc (Suc k)"] by simp
  from re_disj_star [OF this] show ?thesis unfolding RegExp_new_def k by (simp del: re_disj.simps)
qed

section \<open>What the star matches\<close>

lemma steps_through:
  assumes "i \<le> len" and step: "\<And>j. f j = (if j < len then [j + 1] else [])"
  shows "set (upto_steps n f [i]) = {i..min (i + n) len}"
  using assms(1)
proof (induction n arbitrary: i)
  case (Suc n)
  show ?case
  proof (cases "i < len")
    case True
    then have "set (upto_steps n f [Suc i]) = {Suc i..min (Suc i + n) len}" using Suc.IH [of "Suc i"] by simp
    moreover have "f i = [Suc i]" using True step [of i] by simp
    moreover have "{i..min (i + Suc n) len} = insert i {Suc i..min (Suc i + n) len}" using True by auto
    ultimately show ?thesis by simp
  next
    case False
    have "upto_steps n f [] = []" by (induction n) simp_all
    moreover have "f i = []" using False step [of i] by simp
    ultimately show ?thesis using False Suc.prems by auto
  qed
qed auto

lemma ends_star:
  assumes "47 \<notin> set f"
  shows "set (ends None (RRep (RClass False [CUnit 47]) 0 None) f 0) = {0..length f}"
proof -
  have "ends None (RClass False [CUnit 47]) f j = (if j < length f then [j + 1] else [])" for j
    using assms by (auto simp: same_unit_def in_set_conv_nth)
  from steps_through [OF le0 this, of "length f + 1"] show ?thesis
    by (simp only: ends.simps(6) option.case exact_steps.simps(1)) simp
qed

lemma star_regex_test:
  assumes "47 \<notin> set f"
  shows "re_test None (star_regex t) f \<longleftrightarrow>
    f \<noteq> [] \<and> hd f \<noteq> 46 \<and> \<not> line_terminator (hd f) \<and> (\<exists>pre. f = pre @ t)"
proof -
  have start: "ends None (star_regex t) f i = []" if "i \<noteq> 0" for i using that by (simp add: star_regex_def)
  have rest: "ends None (RSeq (RRep (RClass False [CUnit 47]) 0 None) (tail_regex t)) f 0 \<noteq> [] \<longleftrightarrow> (\<exists>pre. f = pre @ t)"
    (is "?l \<longleftrightarrow> ?r")
  proof -
    have "?l \<longleftrightarrow> (\<exists>j\<in>{0..length f}. ends None (tail_regex t) f j \<noteq> [])"
      unfolding ends_star [OF assms, symmetric] by auto
    also have "\<dots> \<longleftrightarrow> (\<exists>j\<le>length f. drop j f = t)" using ends_tail by auto
    also have "\<dots> \<longleftrightarrow> ?r" by (metis append_eq_conv_conj append_take_drop_id le_add1 length_append)
    finally show ?thesis .
  qed
  have "ends None (star_regex t) f 0 \<noteq> [] \<longleftrightarrow> f \<noteq> [] \<and> hd f \<noteq> 46 \<and> \<not> line_terminator (hd f) \<and> (\<exists>pre. f = pre @ t)"
    using rest by (cases f) (auto simp: star_regex_def same_unit_def simp del: ends.simps(6))
  moreover have "re_test None (star_regex t) f \<longleftrightarrow> ends None (star_regex t) f 0 \<noteq> []"
    using start unfolding re_test_def list_ex_iff by (metis atLeastLessThan_iff set_upt zero_le zero_less_Suc Suc_eq_plus1)
  ultimately show ?thesis by simp
qed

lemma loop_after_star:
  assumes "stateChar st = Some 42" "\<not> escaping st" "\<not> inClass st" "list_all default_unit cs"
  shows "parse_loop opts sub pattern i cs st = Inr (Some (if cs = [] then st else emit_re (text_source cs) (clearStateChar st)))"
proof (cases cs)
  case (Cons c cs')
  have st: "stateChar (clearStateChar st) = None" "\<not> escaping (clearStateChar st)" "\<not> inClass (clearStateChar st)"
    using assms(1-3) by (simp_all add: clearStateChar_def emit_re_def)
  have "parse_char opts sub pattern i c st = parse_char opts sub pattern i c (clearStateChar st)"
    using assms(2-4) st Cons
    by (simp add: parse_char_def parse_default_def clearStateChar_def [of "clearStateChar st"] default_unit_def BACKSLASH_def Let_def)
  then have "parse_loop opts sub pattern i cs st = parse_loop opts sub pattern i cs (clearStateChar st)"
    using Cons by simp
  then show ?thesis using loop_default [OF st assms(4)] Cons by simp
qed simp

lemma parse_star:
  assumes "list_all default_unit t" "int (length t) < 65536"
  shows "parse (Suc n) no_options False (42 # t) =
    Inr (Part (Re \<lparr> compiled = star_regex t, ignoreCase = False, re_src = Some (star_source t) \<rparr>))"
proof -
  let ?st = "(parse_init no_options)\<lparr>stateChar := Some 42\<rparr>"
  let ?st1 = "if t = [] then ?st else emit_re (text_source t) (clearStateChar ?st)"
  have "42 # t \<noteq> lit ''**''" using assms(1) by (auto simp: lit_def default_unit_def)
  moreover have "parse_char no_options sub (42 # t) 0 42 (parse_init no_options) = Inr (Some ?st)" for sub
    by (simp add: parse_char_def parse_stateChar_def parse_init_def no_options_def clearStateChar_def BACKSLASH_def)
  moreover have "parse_loop no_options sub (42 # t) 1 t ?st = Inr (Some ?st1)" for sub
    using assms(1) by (intro loop_after_star) (simp_all add: parse_init_def)
  moreover have "\<not> inClass ?st1" by (simp add: parse_init_def clearStateChar_def emit_re_def)
  ultimately have "parse (Suc n) no_options False (42 # t) = Inr (parse_end no_options False (42 # t) ?st1)"
    using assms(2) by (simp add: close_class_def)
  moreover have "parse_end no_options False (42 # t) ?st1 = Part (make_part no_options (star_source t))"
    by (simp add: parse_end_def parse_init_def clearStateChar_def emit_re_def star_source_def patternStart_def
      no_options_def star_def qmark_def lit_def BACKSLASH_def Let_def)
  moreover have "RegExp_new (lit ''^'' @ star_source t @ lit ''$'') = Some (star_regex t)"
    using RegExp_star [OF assms(1)] by (simp add: lit_def)
  ultimately show ?thesis by (simp add: make_part_def no_options_def)
qed

lemma slashSplit_single: "47 \<notin> set s \<Longrightarrow> slashSplit s = [s]"
proof -
  have "47 \<notin> set s \<Longrightarrow> split_runs (\<lambda>c. c = 47) b s = [s]" for b by (induction s arbitrary: b) auto
  then show "47 \<notin> set s \<Longrightarrow> slashSplit s = [s]" by (simp add: slashSplit_def)
qed

text \<open>
  C36: A star before a literal tail, such as \<^verbatim>\<open>*.js\<close>, matches a name without
  slashes exactly when the name ends in the tail and starts with a character
  that is neither a period nor a line break; in particular it is not empty.
\<close>

theorem minimatch_star:
  assumes "list_all default_unit ext" "OPEN \<notin> set ext" "int (length ext) < 65536" "js_trim (42 # ext) = 42 # ext" "47 \<notin> set f"
  shows "minimatch fuel u f (Some (42 # ext)) no_options =
    Some (Inr (f \<noteq> [] \<and> hd f \<noteq> 46 \<and> \<not> line_terminator (hd f) \<and> (\<exists>pre. f = pre @ ext)))"
proof -
  let ?r = "Re \<lparr> compiled = star_regex ext, ignoreCase = False, re_src = Some (star_source ext) \<rparr>"
  have "47 \<notin> set (42 # ext)" using assms(1) by (auto simp: list_all_iff default_unit_def)
  then have "js_map (parse_part no_options) (slashSplit (42 # ext)) = Inr [?r]"
    using parse_star [OF assms(1,3)] by (simp add: slashSplit_single parse_part_def del: parse.simps)
  moreover have "proper_start (42 # ext)" "OPEN \<notin> set (42 # ext)" "\<not> matchBase no_options"
    using assms(2,4) by (simp_all add: proper_start_def OPEN_def no_options_def)
  ultimately have "minimatch fuel u f (Some (42 # ext)) no_options = Some (Inr (matchOne u no_options False (slashSplit f) [?r]))"
    by (intro minimatch_proper) simp_all
  then show ?thesis
    using star_regex_test [OF assms(5), of ext] by (simp add: slashSplit_single [OF assms(5)] part_hit_def regobj_test_def)
qed

theorem minimatch_star_witness:
  "minimatch 0 ascii (lit ''a.js'') (Some (lit ''*.js'')) no_options = Some (Inr True)"
proof -
  have ext: "lit ''*.js'' = 42 # lit ''.js''" "\<exists>pre. lit ''a.js'' = pre @ lit ''.js''"
    by (simp_all add: lit_def)
  show ?thesis unfolding ext(1)
    by (subst minimatch_star) (code_simp, code_simp, code_simp, code_simp, code_simp, use ext(2) in \<open>simp add: lit_def line_terminator_def\<close>)
qed

section \<open>An unclosed bracket\<close>

text \<open>
  A bracket that is never closed should stand for itself, as it does in
  the pattern \<^verbatim>\<open>[\<close>, which matches the name \<^verbatim>\<open>[\<close>.  When nothing follows the bracket and the
  pattern has magic before it, the text \<^verbatim>\<open>undefined\<close> ends up in the regular
  expression: \<^verbatim>\<open>*[\<close> does not match \<^verbatim>\<open>a[\<close> and matches \<^verbatim>\<open>a[undefined\<close>.
\<close>

theorem unclosed_bracket_undefined:
  "minimatch 0 ascii (lit ''['') (Some (lit ''['')) no_options = Some (Inr True)
   \<and> minimatch 0 ascii (lit ''a['') (Some (lit ''*['')) no_options = Some (Inr False)
   \<and> minimatch 0 ascii (lit ''a[undefined'') (Some (lit ''*['')) no_options = Some (Inr True)"
  by code_simp

end
