(* ===== verification/Us_Arrays.thy ===== *)
theory Us_Arrays
  imports Js_Prelude
begin

text \<open>
  The array functions of the bundled underscore library (module 25 of
  \<^verbatim>\<open>wordcut.js\<close>).  An element is \<^verbatim>\<open>NaN\<close> or any other value but \<^verbatim>\<open>undefined\<close>, of a type on
  which \<^verbatim>\<open>===\<close> is equality; for objects that type holds their identities.
  Callbacks are functions of the value, and of the index where one is used.
\<close>

section \<open>Values\<close>

datatype 'a jsv = NaN | V 'a

text \<open>The operators \<^verbatim>\<open>===\<close> and \<^verbatim>\<open><\<close> on values of one type.\<close>

fun strict_eq :: "'a jsv \<Rightarrow> 'a jsv \<Rightarrow> bool" where
  "strict_eq (V x) (V y) = (x = y)"
| "strict_eq _ _ = False"

fun js_less :: "'k::linorder jsv \<Rightarrow> 'k jsv \<Rightarrow> bool" where
  "js_less (V x) (V y) = (x < y)"
| "js_less _ _ = False"

fun us_isNaN :: "'a jsv \<Rightarrow> bool" where
  "us_isNaN NaN = True"
| "us_isNaN (V x) = False"

text \<open>\<^verbatim>\<open>slice\<close>, where a negative index counts from the end.\<close>

definition rel_index :: "nat \<Rightarrow> int \<Rightarrow> nat" where
  "rel_index n i = (if i < 0 then nat (max (int n + i) 0) else min (nat i) n)"

definition js_slice :: "'a list \<Rightarrow> int \<Rightarrow> int \<Rightarrow> 'a list" where
  "js_slice xs a b = (let s = rel_index (length xs) a; e = rel_index (length xs) b in drop s (take e xs))"

section \<open>Searching\<close>

text \<open>The loop of the two predicate finders, forwards or backwards from an index.\<close>

function index_loop :: "bool \<Rightarrow> ('a \<Rightarrow> int \<Rightarrow> bool) \<Rightarrow> 'a list \<Rightarrow> int \<Rightarrow> int \<Rightarrow> int" where
  "index_loop fwd P array len index =
    (if index \<ge> 0 \<and> index < len then
       (if index < int (length array) \<and> P (array ! nat index) index then index
        else index_loop fwd P array len (index + (if fwd then 1 else -1)))
     else -1)"
  by pat_completeness auto
termination
  by (relation "measure (\<lambda>(fwd, P, array, len, index). if fwd then nat (len - index) else nat (index + 1))") auto

declare index_loop.simps [simp del]

definition createPredicateIndexFinder :: "bool \<Rightarrow> 'a list \<Rightarrow> ('a \<Rightarrow> int \<Rightarrow> bool) \<Rightarrow> int" where
  "createPredicateIndexFinder fwd array predicate =
    (let len = int (length array) in index_loop fwd predicate array len (if fwd then 0 else len - 1))"

definition findIndex :: "'a list \<Rightarrow> ('a \<Rightarrow> int \<Rightarrow> bool) \<Rightarrow> int" where
  "findIndex = createPredicateIndexFinder True"

definition findLastIndex :: "'a list \<Rightarrow> ('a \<Rightarrow> int \<Rightarrow> bool) \<Rightarrow> int" where
  "findLastIndex = createPredicateIndexFinder False"

text \<open>The binary search.\<close>

function sortedIndex_loop :: "('a \<Rightarrow> 'k::linorder jsv) \<Rightarrow> 'a list \<Rightarrow> 'k jsv \<Rightarrow> nat \<Rightarrow> nat \<Rightarrow> nat" where
  "sortedIndex_loop iteratee array value low high =
    (if low < high then
       let mid = (low + high) div 2 in
       if js_less (iteratee (array ! mid)) value then sortedIndex_loop iteratee array value (mid + 1) high
       else sortedIndex_loop iteratee array value low mid
     else low)"
  by pat_completeness auto
termination
  by (relation "measure (\<lambda>(_, _, _, low, high). high - low)") auto

declare sortedIndex_loop.simps [simp del]

definition sortedIndex :: "('a \<Rightarrow> 'k::linorder jsv) \<Rightarrow> 'a list \<Rightarrow> 'a \<Rightarrow> nat" where
  "sortedIndex iteratee array obj = sortedIndex_loop iteratee array (iteratee obj) 0 (length array)"

text \<open>The third argument of \<^verbatim>\<open>indexOf\<close>: absent, an index, or the flag for sorted arrays.\<close>

datatype idx_arg = NoIdx | IdxNum int | IdxTrue

definition finder_bounds :: "bool \<Rightarrow> int \<Rightarrow> idx_arg \<Rightarrow> int \<times> int" where
  "finder_bounds fwd len idx = (case idx of
     IdxNum n \<Rightarrow> if fwd then (if n \<ge> 0 then n else max (n + len) 0, len)
       else (0, if n \<ge> 0 then min (n + 1) len else n + len + 1)
   | _ \<Rightarrow> (0, len))"

definition createIndexFinder ::
  "bool \<Rightarrow> ('a jsv list \<Rightarrow> ('a jsv \<Rightarrow> int \<Rightarrow> bool) \<Rightarrow> int) \<Rightarrow> ('a jsv list \<Rightarrow> 'a jsv \<Rightarrow> nat) option
    \<Rightarrow> 'a jsv list \<Rightarrow> 'a jsv \<Rightarrow> idx_arg \<Rightarrow> int" where
  "createIndexFinder fwd predicateFind sorted_index array item idx =
    (let len = int (length array) in
     case (idx, sorted_index) of
       (IdxTrue, Some f) \<Rightarrow>
         if array \<noteq> [] then
           (let k = f array item
            in if k < length array \<and> strict_eq (array ! k) item then int k else -1)
         else -1
     | _ \<Rightarrow>
       let (i, len1) = finder_bounds fwd len idx in
       if us_isNaN item then
         (let k = predicateFind (js_slice array i len1) (\<lambda>v _. us_isNaN v) in if k \<ge> 0 then k + i else -1)
       else index_loop fwd (\<lambda>v _. strict_eq v item) array len1 (if fwd then i else len1 - 1))"

definition us_indexOf :: "'a::linorder jsv list \<Rightarrow> 'a jsv \<Rightarrow> idx_arg \<Rightarrow> int" where
  "us_indexOf = createIndexFinder True findIndex (Some (sortedIndex (\<lambda>x. x)))"

definition us_lastIndexOf :: "'a jsv list \<Rightarrow> 'a jsv \<Rightarrow> idx_arg \<Rightarrow> int" where
  "us_lastIndexOf = createIndexFinder False findLastIndex None"

definition contains :: "'a jsv list \<Rightarrow> 'a jsv \<Rightarrow> bool" where
  "contains obj item = (createIndexFinder True findIndex None obj item (IdxNum 0) \<ge> 0)"

section \<open>Duplicates and sets\<close>

text \<open>\<^verbatim>\<open>uniq\<close>: the third argument is the iteratee, if any.\<close>

fun uniq_sorted_loop :: "('a jsv \<Rightarrow> 'b jsv) \<Rightarrow> 'a jsv list \<Rightarrow> 'b jsv option \<Rightarrow> 'a jsv list" where
  "uniq_sorted_loop f [] seen = []"
| "uniq_sorted_loop f (value # array) seen =
    (let computed = f value in
     if (case seen of None \<Rightarrow> True | Some s \<Rightarrow> \<not> strict_eq s computed)
     then value # uniq_sorted_loop f array (Some computed) else uniq_sorted_loop f array (Some computed))"

fun uniq_by_loop :: "('a jsv \<Rightarrow> 'b jsv) \<Rightarrow> 'a jsv list \<Rightarrow> 'b jsv list \<Rightarrow> 'a jsv list \<Rightarrow> 'a jsv list" where
  "uniq_by_loop f [] seen result = result"
| "uniq_by_loop f (value # array) seen result =
    (let computed = f value in
     if \<not> contains seen computed then uniq_by_loop f array (seen @ [computed]) (result @ [value])
     else uniq_by_loop f array seen result)"

fun uniq_loop :: "'a jsv list \<Rightarrow> 'a jsv list \<Rightarrow> 'a jsv list" where
  "uniq_loop [] result = result"
| "uniq_loop (value # array) result =
    (if \<not> contains result value then uniq_loop array (result @ [value]) else uniq_loop array result)"

definition uniq :: "'a jsv list \<Rightarrow> bool \<Rightarrow> ('a jsv \<Rightarrow> 'a jsv) option \<Rightarrow> 'a jsv list" where
  "uniq array isSorted iteratee =
    (if isSorted then uniq_sorted_loop (case iteratee of None \<Rightarrow> (\<lambda>x. x) | Some f \<Rightarrow> f) array None
     else case iteratee of None \<Rightarrow> uniq_loop array [] | Some f \<Rightarrow> uniq_by_loop f array [] [])"

text \<open>Arguments of the set functions: an array, or something else, which the strict flattening skips.\<close>

definition flatten_args :: "'a jsv list option list \<Rightarrow> nat \<Rightarrow> 'a jsv list" where
  "flatten_args args startIndex =
    concat (map (\<lambda>value. case value of Some xs \<Rightarrow> xs | None \<Rightarrow> []) (drop startIndex args))"

definition us_union :: "'a jsv list option list \<Rightarrow> 'a jsv list" where
  "us_union args = uniq (flatten_args args 0) False None"

fun intersection_loop :: "'a jsv list list \<Rightarrow> 'a jsv list \<Rightarrow> 'a jsv list \<Rightarrow> 'a jsv list" where
  "intersection_loop others [] result = result"
| "intersection_loop others (item # array) result =
    (if contains result item then intersection_loop others array result
     else if list_all (\<lambda>xs. contains xs item) others then intersection_loop others array (result @ [item])
     else intersection_loop others array result)"

definition intersection :: "'a jsv list \<Rightarrow> 'a jsv list list \<Rightarrow> 'a jsv list" where
  "intersection array others = intersection_loop others array []"

definition difference :: "'a jsv list \<Rightarrow> 'a jsv list option list \<Rightarrow> 'a jsv list" where
  "difference array others =
    (let rest = flatten_args (Some array # others) 1 in filter (\<lambda>value. \<not> contains rest value) array)"

definition without :: "'a jsv list \<Rightarrow> 'a jsv list \<Rightarrow> 'a jsv list" where
  "without array values = difference array [Some values]"

text \<open>Nested arrays and \<^verbatim>\<open>flatten\<close>.\<close>

datatype 'a nest = Leaf 'a | Arr "'a nest list"

fun us_flatten :: "bool \<Rightarrow> bool \<Rightarrow> 'a nest list \<Rightarrow> 'a nest list" where
  "us_flatten shallow strict [] = []"
| "us_flatten shallow strict (Arr xs # input) =
    (if shallow then xs else us_flatten shallow strict xs) @ us_flatten shallow strict input"
| "us_flatten shallow strict (Leaf x # input) =
    (if strict then us_flatten shallow strict input else Leaf x # us_flatten shallow strict input)"

section \<open>What the searches find\<close>

lemma index_loop_hit:
  assumes "k < length xs" "P (xs ! k) (int k)"
  shows "0 \<le> i \<Longrightarrow> i \<le> int k \<Longrightarrow> (\<And>j. i \<le> int j \<Longrightarrow> j < k \<Longrightarrow> \<not> P (xs ! j) (int j)) \<Longrightarrow>
    index_loop True P xs (int (length xs)) i = int k"
proof (induction "nat (int k - i)" arbitrary: i)
  case 0
  then have "i = int k" by simp
  then show ?case using assms by (subst index_loop.simps) simp
next
  case (Suc n)
  then have "\<not> P (xs ! nat i) i" using Suc.prems(3) [of "nat i"] by simp
  moreover have "index_loop True P xs (int (length xs)) (i + 1) = int k" using Suc by (intro Suc.hyps(1)) auto
  ultimately show ?case using Suc.prems(1,2) assms(1) by (subst index_loop.simps) simp
qed

lemma index_loop_miss:
  "0 \<le> i \<Longrightarrow> (\<And>j. i \<le> int j \<Longrightarrow> j < length xs \<Longrightarrow> \<not> P (xs ! j) (int j)) \<Longrightarrow>
    index_loop True P xs (int (length xs)) i = -1"
proof (induction "nat (int (length xs) - i)" arbitrary: i)
  case 0
  then show ?case by (subst index_loop.simps) simp
next
  case (Suc n)
  then have "\<not> P (xs ! nat i) i" using Suc.prems(2) [of "nat i"] by simp
  moreover have "index_loop True P xs (int (length xs)) (i + 1) = -1" using Suc by (intro Suc.hyps(1)) auto
  ultimately show ?case using Suc.prems(1) Suc.hyps(2) by (subst index_loop.simps) simp
qed

lemma index_loop_first:
  "index_loop True P xs (int (length xs)) 0 =
    (if \<exists>k<length xs. P (xs ! k) (int k) then int (LEAST k. P (xs ! k) (int k)) else -1)"
proof (cases "\<exists>k<length xs. P (xs ! k) (int k)")
  case True
  then obtain k where k: "k < length xs" "P (xs ! k) (int k)" by blast
  let ?l = "LEAST k. P (xs ! k) (int k)"
  have "P (xs ! ?l) (int ?l)" "?l \<le> k" using k(2) by (auto intro: LeastI Least_le)
  moreover have "\<not> P (xs ! j) (int j)" if "j < ?l" for j using that not_less_Least by blast
  ultimately show ?thesis using True k(1) by (subst index_loop_hit [of ?l]) auto
next
  case False
  then show ?thesis by (subst index_loop_miss) auto
qed

lemma js_slice_all [simp]: "js_slice xs 0 (int (length xs)) = xs"
  by (simp add: js_slice_def rel_index_def Let_def)

lemma findIndex_found: "findIndex xs P \<ge> 0 \<longleftrightarrow> (\<exists>k<length xs. P (xs ! k) (int k))"
  by (simp add: findIndex_def createPredicateIndexFinder_def Let_def index_loop_first)

lemma contains_iff [simp]: "contains xs v \<longleftrightarrow> v \<in> set xs"
proof (cases v)
  case NaN
  have "us_isNaN x \<longleftrightarrow> x = NaN" for x :: "'a jsv" by (cases x) simp_all
  then have "(findIndex xs (\<lambda>v _. us_isNaN v) \<ge> 0) = (NaN \<in> set xs)" by (auto simp: findIndex_found in_set_conv_nth)
  then show ?thesis using NaN by (simp add: contains_def createIndexFinder_def finder_bounds_def Let_def)
next
  case (V x)
  have "strict_eq y (V x) \<longleftrightarrow> y = V x" for y by (cases y) simp_all
  then show ?thesis using V
    by (auto simp: contains_def createIndexFinder_def finder_bounds_def Let_def index_loop_first in_set_conv_nth)
qed

section \<open>Binary search\<close>

lemma sortedIndex_loop_count:
  "low \<le> high \<Longrightarrow> high \<le> length array \<Longrightarrow> sorted (map key array) \<Longrightarrow> (\<And>i. i < low \<Longrightarrow> key (array ! i) < v) \<Longrightarrow>
    (\<And>i. high \<le> i \<Longrightarrow> i < length array \<Longrightarrow> v \<le> key (array ! i)) \<Longrightarrow>
    sortedIndex_loop (\<lambda>x. V (key x)) array (V v) low high = length (filter (\<lambda>x. key x < v) array)"
proof (induction "\<lambda>x. V (key x)" array "V v" low high rule: sortedIndex_loop.induct)
  case (1 array low high)
  have mono: "key (array ! i) \<le> key (array ! j)" if "i \<le> j" "j < length array" for i j
    using sorted_nth_mono [OF "1.prems"(3)] that by simp
  show ?case
  proof (cases "low < high")
    case True
    let ?mid = "(low + high) div 2"
    have mid: "low \<le> ?mid" "?mid < high" "?mid < length array" using True "1.prems"(2) by auto
    show ?thesis
    proof (cases "key (array ! ?mid) < v")
      case lt: True
      have "key (array ! i) < v" if "i < ?mid + 1" for i using mono [of i ?mid] mid(3) that lt by force
      then have "sortedIndex_loop (\<lambda>x. V (key x)) array (V v) (?mid + 1) high = length (filter (\<lambda>x. key x < v) array)"
        using "1.hyps"(1) [OF True refl] lt mid "1.prems" by simp
      then show ?thesis using True lt by (subst sortedIndex_loop.simps) (simp add: Let_def)
    next
      case ge: False
      have "v \<le> key (array ! i)" if "?mid \<le> i" "i < length array" for i using mono [of ?mid i] that ge by force
      then have "sortedIndex_loop (\<lambda>x. V (key x)) array (V v) low ?mid = length (filter (\<lambda>x. key x < v) array)"
        using "1.hyps"(2) [OF True refl] ge mid "1.prems" by simp
      then show ?thesis using True ge by (subst sortedIndex_loop.simps) (simp add: Let_def)
    qed
  next
    case False
    then have eq: "low = high" using "1.prems"(1) by simp
    have "filter (\<lambda>x. key x < v) (take low array) = take low array"
      using "1.prems"(4) by (auto simp: filter_id_conv in_set_conv_nth)
    moreover have "v \<le> key x" if "x \<in> set (drop low array)" for x
      using "1.prems"(5) eq that by (auto simp: in_set_conv_nth)
    then have "filter (\<lambda>x. key x < v) (drop low array) = []" by (fastforce simp: filter_empty_conv)
    ultimately have "filter (\<lambda>x. key x < v) array = take low array"
      by (metis append.right_neutral append_take_drop_id filter_append)
    then show ?thesis using False "1.prems"(1,2) by (subst sortedIndex_loop.simps) simp
  qed
qed

lemma sortedIndex_count:
  "sorted (map key array) \<Longrightarrow> sortedIndex (\<lambda>x. V (key x)) array obj = length (filter (\<lambda>x. key x < key obj) array)"
  unfolding sortedIndex_def by (rule sortedIndex_loop_count) auto

lemma sorted_split:
  "sorted (map key array) \<Longrightarrow>
    filter (\<lambda>x. key x < v) array = take (length (filter (\<lambda>x. key x < v) array)) array
    \<and> filter (\<lambda>x. \<not> key x < v) array = drop (length (filter (\<lambda>x. key x < v) array)) array"
proof (induction array)
  case (Cons x array)
  have "\<not> key x < v \<Longrightarrow> filter (\<lambda>x. key x < v) array = [] \<and> filter (\<lambda>x. \<not> key x < v) array = array"
    using Cons.prems by (fastforce simp: filter_empty_conv filter_id_conv)
  then show ?case using Cons by auto
qed simp

lemma sorted_split_keys:
  assumes "sorted (map key array)"
  shows "x \<in> set (take (length (filter (\<lambda>x. key x < v) array)) array) \<Longrightarrow> key x < v"
    and "x \<in> set (drop (length (filter (\<lambda>x. key x < v) array)) array) \<Longrightarrow> v \<le> key x"
proof -
  let ?n = "length (filter (\<lambda>x. key x < v) array)"
  have "set (take ?n array) = set (filter (\<lambda>x. key x < v) array)" "set (drop ?n array) = set (filter (\<lambda>x. \<not> key x < v) array)"
    using sorted_split [OF assms, of v] by auto
  then show "x \<in> set (take ?n array) \<Longrightarrow> key x < v" "x \<in> set (drop ?n array) \<Longrightarrow> v \<le> key x" by auto
qed

text \<open>
  C37: On an array sorted by the iteratee the binary search returns the number
  of elements with a smaller key, which is the smallest index at which the
  new element can be inserted without breaking the order.
\<close>

theorem sortedIndex_least:
  assumes "sorted (map key array)"
  shows "sortedIndex (\<lambda>x. V (key x)) array obj = length (filter (\<lambda>x. key x < key obj) array)
    \<and> sorted (map key (take (sortedIndex (\<lambda>x. V (key x)) array obj) array @ obj # drop (sortedIndex (\<lambda>x. V (key x)) array obj) array))"
proof -
  let ?n = "length (filter (\<lambda>x. key x < key obj) array)"
  have "sorted (map key (take ?n array))" "sorted (map key (drop ?n array))"
    using sorted_wrt_take [OF assms, of ?n] sorted_wrt_drop [OF assms, of ?n] by (simp_all add: take_map drop_map)
  moreover have lt: "\<forall>a\<in>set (take ?n array). key a \<le> key obj" and ge: "\<forall>b\<in>set (drop ?n array). key obj \<le> key b"
    using sorted_split_keys [OF assms, of _ "key obj"] by (blast intro: less_imp_le)+
  moreover have "\<forall>a\<in>set (take ?n array). \<forall>b\<in>set (drop ?n array). key a \<le> key b" using lt ge order_trans by blast
  ultimately have "sorted (map key (take ?n array) @ key obj # map key (drop ?n array))" by (simp add: sorted_append)
  then show ?thesis using sortedIndex_count [OF assms] by simp
qed

theorem sortedIndex_least_witness:
  "sorted (map id [10, 20, 30 :: int]) \<and> sortedIndex (\<lambda>x. V (id x)) [10, 20, 30 :: int] 20 = 1"
  using sortedIndex_least [of id "[10, 20, 30 :: int]" 20] by simp

section \<open>Duplicates\<close>

lemma remdups_snoc: "remdups (xs @ [v]) = filter (\<lambda>x. x \<noteq> v) (remdups xs) @ [v]"
  by (induction xs) auto

lemma first_occurrences_Cons: "rev (remdups (rev (v # xs))) = v # rev (remdups (rev (filter (\<lambda>x. x \<noteq> v) xs)))"
  by (simp add: remdups_snoc rev_filter remdups_filter)

lemma uniq_loop_spec: "uniq_loop array result = result @ rev (remdups (rev (filter (\<lambda>x. x \<notin> set result) array)))"
proof (induction array arbitrary: result)
  case (Cons v array)
  have "filter (\<lambda>x. x \<notin> set (result @ [v])) array = filter (\<lambda>x. x \<noteq> v) (filter (\<lambda>x. x \<notin> set result) array)"
    by (auto intro: filter_cong)
  then show ?case
    using Cons first_occurrences_Cons [of v "filter (\<lambda>x. x \<notin> set result) array"] by auto
qed simp

lemma uniq_sorted_spec:
  "sorted (s # xs) \<Longrightarrow> uniq_sorted_loop (\<lambda>x. x) (map V xs) (Some (V s)) = map V (rev (remdups (rev (filter (\<lambda>x. x \<noteq> s) xs))))"
proof (induction xs arbitrary: s)
  case (Cons x xs)
  show ?case
  proof (cases "x = s")
    case True
    then show ?thesis using Cons by (simp add: Let_def)
  next
    case False
    then have "filter (\<lambda>y. y \<noteq> s) (x # xs) = x # xs" using Cons.prems by (auto simp: filter_id_conv)
    then show ?thesis using False Cons first_occurrences_Cons [of x xs] by (simp add: Let_def)
  qed
qed simp

text \<open>
  C38: \<^verbatim>\<open>uniq\<close> keeps exactly the first occurrences, in their order, also of \<^verbatim>\<open>NaN\<close>; and on a
  sorted array the faster variant, which compares neighbours only, returns
  the same.
\<close>

theorem uniq_first_occurrences:
  "uniq array False None = rev (remdups (rev array))
   \<and> uniq (map V (sort xs)) True None = uniq (map V (sort xs)) False None"
proof
  show all: "uniq array False None = rev (remdups (rev array))" for array :: "'a jsv list"
    by (simp add: uniq_def uniq_loop_spec)
  show "uniq (map V (sort xs)) True None = uniq (map V (sort xs)) False None"
  proof (cases "sort xs")
    case (Cons y ys)
    have "remdups (map V zs) = map V (remdups zs)" for zs :: "'b list"
      by (induction zs) auto
    then have "uniq (map V (sort xs)) False None = map V (rev (remdups (rev (sort xs))))"
      by (simp add: uniq_def uniq_loop_spec rev_map)
    moreover have "sorted (y # ys)" using Cons by (metis sorted_sort)
    ultimately show ?thesis
      using Cons first_occurrences_Cons [of y ys] uniq_sorted_spec [of y ys] by (simp add: uniq_def Let_def)
  qed (simp add: uniq_def)
qed

section \<open>Sorted search and linear search\<close>

lemma sorted_split_nth:
  fixes ys :: "'a::linorder list"
  assumes "sorted ys" "k = length (filter (\<lambda>y. y < x) ys)"
  shows "j < k \<Longrightarrow> ys ! j < x" and "k \<le> j \<Longrightarrow> j < length ys \<Longrightarrow> x \<le> ys ! j"
proof -
  have sorted: "sorted (map id ys)" using assms(1) by simp
  have le: "k \<le> length ys" using assms(2) by simp
  show "ys ! j < x" if "j < k"
  proof -
    have "take k ys ! j \<in> set (take k ys)" using that le by (intro nth_mem) simp
    then show ?thesis using sorted_split_keys(1) [OF sorted, of "ys ! j" x] that assms(2) by simp
  qed
  show "x \<le> ys ! j" if "k \<le> j" "j < length ys"
  proof -
    have "drop k ys ! (j - k) \<in> set (drop k ys)" using that by (intro nth_mem) simp
    then show ?thesis using sorted_split_keys(2) [OF sorted, of "ys ! j" x] that assms(2) by simp
  qed
qed

lemma sortedIndex_values:
  "sorted ys \<Longrightarrow> sortedIndex (\<lambda>y. y) (map V ys) (V x) = length (filter (\<lambda>y. y < x) ys)"
proof -
  assume ys: "sorted ys"
  have "sortedIndex_loop (\<lambda>y. y) (map V ys) v low high = sortedIndex_loop (\<lambda>y. V (id y)) ys v low high"
    if "high \<le> length ys" for ys :: "'a list" and v low high
    using that
  proof (induction "\<lambda>y. V (id y) :: 'a jsv" ys v low high rule: sortedIndex_loop.induct)
    case (1 ys v low high)
    then show ?case by (subst (1 2) sortedIndex_loop.simps) (auto simp: Let_def)
  qed
  then show ?thesis using sortedIndex_count [of id ys x] ys by (simp add: sortedIndex_def)
qed

text \<open>
  On a sorted array \<^verbatim>\<open>indexOf\<close> with the flag for sorted arrays, which uses the
  binary search, returns what the linear search returns: the first position
  of the item, or -1.
\<close>

theorem indexOf_sorted_agrees:
  "us_indexOf (map V (sort xs)) (V x) IdxTrue = us_indexOf (map V (sort xs)) (V x) NoIdx"
proof -
  let ?ys = "sort xs" let ?k = "length (filter (\<lambda>y. y < x) ?ys)"
  let ?P = "\<lambda>v (_ :: int). strict_eq v (V x)"
  have before: "?ys ! j < x" if "j < ?k" for j using sorted_split_nth(1) [OF sorted_sort refl that] .
  have after: "x \<le> ?ys ! j" if "?k \<le> j" "j < length ?ys" for j using sorted_split_nth(2) [OF sorted_sort refl that] .
  have lin: "us_indexOf (map V ?ys) (V x) NoIdx = index_loop True ?P (map V ?ys) (int (length (map V ?ys))) 0"
    by (simp add: us_indexOf_def createIndexFinder_def finder_bounds_def Let_def)
  have bin: "us_indexOf (map V ?ys) (V x) IdxTrue = (if ?k < length ?ys \<and> ?ys ! ?k = x then int ?k else -1)"
    using sortedIndex_values [of ?ys x] by (auto simp: us_indexOf_def createIndexFinder_def Let_def)
  show ?thesis
  proof (cases "?k < length ?ys \<and> ?ys ! ?k = x")
    case True
    then have "index_loop True ?P (map V ?ys) (int (length (map V ?ys))) 0 = int ?k"
      using before by (intro index_loop_hit) force+
    then show ?thesis using lin bin True by simp
  next
    case False
    have "?ys ! j \<noteq> x" if j: "j < length ?ys" for j
    proof (cases "j < ?k")
      case ge: False
      have "?ys ! ?k \<le> ?ys ! j" using ge j by (intro sorted_nth_mono) simp_all
      then show ?thesis using False ge j after [of ?k] by force
    qed (use before in force)
    then have "index_loop True ?P (map V ?ys) (int (length (map V ?ys))) 0 = -1" by (intro index_loop_miss) auto
    then show ?thesis using lin bin False by simp
  qed
qed

section \<open>Searching for NaN from the end\<close>

text \<open>
  With a start index before the array, \<^verbatim>\<open>lastIndexOf\<close> finds nothing, except for \<^verbatim>\<open>NaN\<close>:
  the negative end index is handed to \<^verbatim>\<open>slice\<close>, which counts it from the end.
\<close>

lemma lastIndexOf_nan_wraps:
  "us_lastIndexOf [V 1, V 2, V (3 :: int)] (V 1) (IdxNum (-5)) = -1
   \<and> us_lastIndexOf [NaN, V 2, V (3 :: int)] NaN (IdxNum (-5)) = 0"
  by code_simp

end
