(* ===== verification/Us_Collections.thy ===== *)
theory Us_Collections
  imports Us_Arrays
begin

text \<open>
  The collection functions of the bundled underscore library (module 25 of
  \<^verbatim>\<open>wordcut.js\<close>), on arrays and on objects with string keys.  Callbacks are
  pure functions of the value and its key.
\<close>

section \<open>Iteration\<close>

datatype key = KIdx nat | KStr ustring

datatype 'a coll = CArray "'a list" | CObject "(ustring \<times> 'a) list"

text \<open>The keys and values in the order in which all the functions visit them.\<close>

fun entries :: "'a coll \<Rightarrow> (key \<times> 'a) list" where
  "entries (CArray xs) = map (\<lambda>(i, x). (KIdx i, x)) (List.enumerate 0 xs)"
| "entries (CObject kvs) = map (\<lambda>(k, x). (KStr k, x)) kvs"

definition us_each :: "'a coll \<Rightarrow> ('a \<Rightarrow> key \<Rightarrow> 's \<Rightarrow> 's) \<Rightarrow> 's \<Rightarrow> 's" where
  "us_each obj iteratee s = fold (\<lambda>(k, x). iteratee x k) (entries obj) s"

definition us_map :: "'a coll \<Rightarrow> ('a \<Rightarrow> key \<Rightarrow> 'b) \<Rightarrow> 'b list" where
  "us_map obj iteratee = map (\<lambda>(k, x). iteratee x k) (entries obj)"

text \<open>Reductions: without an initial value the first visited element is taken; of an empty collection it is undefined.\<close>

definition createReduce :: "bool \<Rightarrow> 'a coll \<Rightarrow> ('a option \<Rightarrow> 'a \<Rightarrow> key \<Rightarrow> 'a) \<Rightarrow> 'a option \<Rightarrow> 'a option" where
  "createReduce fwd obj iteratee memo =
    (let es = (if fwd then entries obj else rev (entries obj));
         go = fold (\<lambda>(k, x) m. Some (iteratee m x k))
     in case memo of Some m \<Rightarrow> go es (Some m)
        | None \<Rightarrow> (case es of [] \<Rightarrow> None | (k, x) # es' \<Rightarrow> go es' (Some x)))"

definition us_reduce :: "'a coll \<Rightarrow> ('a option \<Rightarrow> 'a \<Rightarrow> key \<Rightarrow> 'a) \<Rightarrow> 'a option \<Rightarrow> 'a option" where
  "us_reduce = createReduce True"

definition us_reduceRight :: "'a coll \<Rightarrow> ('a option \<Rightarrow> 'a \<Rightarrow> key \<Rightarrow> 'a) \<Rightarrow> 'a option \<Rightarrow> 'a option" where
  "us_reduceRight = createReduce False"

fun findKey :: "(ustring \<times> 'a) list \<Rightarrow> ('a \<Rightarrow> key \<Rightarrow> bool) \<Rightarrow> ustring option" where
  "findKey [] predicate = None"
| "findKey ((k, x) # kvs) predicate = (if predicate x (KStr k) then Some k else findKey kvs predicate)"

fun us_find :: "'a coll \<Rightarrow> ('a \<Rightarrow> key \<Rightarrow> bool) \<Rightarrow> 'a option" where
  "us_find (CArray xs) predicate =
    (let i = findIndex xs (\<lambda>x i. predicate x (KIdx (nat i))) in if i \<noteq> -1 then Some (xs ! nat i) else None)"
| "us_find (CObject kvs) predicate = Option.bind (findKey kvs predicate) (map_of kvs)"

definition us_filter :: "'a coll \<Rightarrow> ('a \<Rightarrow> key \<Rightarrow> bool) \<Rightarrow> 'a list" where
  "us_filter obj predicate = us_each obj (\<lambda>value index results. if predicate value index then results @ [value] else results) []"

definition us_reject :: "'a coll \<Rightarrow> ('a \<Rightarrow> key \<Rightarrow> bool) \<Rightarrow> 'a list" where
  "us_reject obj predicate = us_filter obj (\<lambda>value index. \<not> predicate value index)"

fun every_loop :: "(key \<times> 'a) list \<Rightarrow> ('a \<Rightarrow> key \<Rightarrow> bool) \<Rightarrow> bool" where
  "every_loop [] predicate = True"
| "every_loop ((k, x) # es) predicate = (if \<not> predicate x k then False else every_loop es predicate)"

definition us_every :: "'a coll \<Rightarrow> ('a \<Rightarrow> key \<Rightarrow> bool) \<Rightarrow> bool" where
  "us_every obj predicate = every_loop (entries obj) predicate"

fun some_loop :: "(key \<times> 'a) list \<Rightarrow> ('a \<Rightarrow> key \<Rightarrow> bool) \<Rightarrow> bool" where
  "some_loop [] predicate = False"
| "some_loop ((k, x) # es) predicate = (if predicate x k then True else some_loop es predicate)"

definition us_some :: "'a coll \<Rightarrow> ('a \<Rightarrow> key \<Rightarrow> bool) \<Rightarrow> bool" where
  "us_some obj predicate = some_loop (entries obj) predicate"

definition us_values :: "'a coll \<Rightarrow> 'a list" where
  "us_values obj = map snd (entries obj)"

definition us_size :: "'a coll option \<Rightarrow> nat" where
  "us_size obj = (case obj of None \<Rightarrow> 0 | Some (CArray xs) \<Rightarrow> length xs | Some (CObject kvs) \<Rightarrow> length kvs)"

definition us_partition :: "'a coll \<Rightarrow> ('a \<Rightarrow> key \<Rightarrow> bool) \<Rightarrow> 'a list \<times> 'a list" where
  "us_partition obj predicate = us_each obj (\<lambda>value k (pass, fail).
     if predicate value k then (pass @ [value], fail) else (pass, fail @ [value])) ([], [])"

section \<open>Sorting and grouping\<close>

record ('a, 'k) sort_entry =
  se_value :: 'a
  se_index :: int
  se_criteria :: "'k option"

text \<open>The comparison function of \<^verbatim>\<open>sortBy\<close>; a missing criterion is \<^verbatim>\<open>undefined\<close>.\<close>

definition sortBy_compare :: "('a, 'k::linorder) sort_entry \<Rightarrow> ('a, 'k) sort_entry \<Rightarrow> int" where
  "sortBy_compare l r =
    (let a = se_criteria l; b = se_criteria r;
         less = (\<lambda>x y. case (x, y) of (Some p, Some q) \<Rightarrow> p < q | _ \<Rightarrow> False)
     in if a \<noteq> b \<and> (less b a \<or> a = None) then 1
        else if a \<noteq> b \<and> (less a b \<or> b = None) then -1
        else se_index l - se_index r)"

text \<open>\<^verbatim>\<open>Array.prototype.sort\<close>; the comparison never gives zero for two entries, so their order is determined.\<close>

fun insert_by :: "('e \<Rightarrow> 'e \<Rightarrow> int) \<Rightarrow> 'e \<Rightarrow> 'e list \<Rightarrow> 'e list" where
  "insert_by cmp x [] = [x]"
| "insert_by cmp x (y # ys) = (if cmp x y \<le> 0 then x # y # ys else y # insert_by cmp x ys)"

definition js_sort :: "('e \<Rightarrow> 'e \<Rightarrow> int) \<Rightarrow> 'e list \<Rightarrow> 'e list" where
  "js_sort cmp xs = foldr (insert_by cmp) xs []"

definition sortBy :: "'a list \<Rightarrow> ('a \<Rightarrow> 'k::linorder option) \<Rightarrow> 'a list" where
  "sortBy obj iteratee = map se_value (js_sort sortBy_compare
     (map (\<lambda>(i, x). \<lparr> se_value = x, se_index = int i, se_criteria = iteratee x \<rparr>) (List.enumerate 0 obj)))"

text \<open>\<^verbatim>\<open>group\<close> with the three behaviours; an object is the list of its entries in insertion order.\<close>

definition us_group :: "('r \<Rightarrow> 'a \<Rightarrow> ustring \<Rightarrow> 'r) \<Rightarrow> 'r \<Rightarrow> 'a coll \<Rightarrow> ('a \<Rightarrow> key \<Rightarrow> ustring) \<Rightarrow> 'r" where
  "us_group behavior result0 obj iteratee =
    us_each obj (\<lambda>value index result. behavior result value (iteratee value index)) result0"

definition groupBy :: "'a coll \<Rightarrow> ('a \<Rightarrow> key \<Rightarrow> ustring) \<Rightarrow> (ustring \<times> 'a list) list" where
  "groupBy = us_group (\<lambda>result value key. case map_of result key of
     Some xs \<Rightarrow> AList.update key (xs @ [value]) result | None \<Rightarrow> AList.update key [value] result) []"

definition indexBy :: "'a coll \<Rightarrow> ('a \<Rightarrow> key \<Rightarrow> ustring) \<Rightarrow> (ustring \<times> 'a) list" where
  "indexBy = us_group (\<lambda>result value key. AList.update key value result) []"

definition countBy :: "'a coll \<Rightarrow> ('a \<Rightarrow> key \<Rightarrow> ustring) \<Rightarrow> (ustring \<times> nat) list" where
  "countBy = us_group (\<lambda>result value key. case map_of result key of
     Some n \<Rightarrow> AList.update key (n + 1) result | None \<Rightarrow> AList.update key 1 result) []"

section \<open>Parts of arrays\<close>

text \<open>The optional argument \<^verbatim>\<open>n\<close>; \<^verbatim>\<open>first\<close> and \<^verbatim>\<open>last\<close> without it return an element.\<close>

definition initial :: "'a list \<Rightarrow> int option \<Rightarrow> 'a list" where
  "initial array n = js_slice array 0 (max 0 (int (length array) - (case n of None \<Rightarrow> 1 | Some k \<Rightarrow> k)))"

definition us_rest :: "'a list \<Rightarrow> int option \<Rightarrow> 'a list" where
  "us_rest array n = js_slice array (case n of None \<Rightarrow> 1 | Some k \<Rightarrow> k) (int (length array))"

definition us_first :: "'a list \<Rightarrow> 'a option" where
  "us_first array = (if array = [] then None else Some (array ! 0))"

definition us_first_n :: "'a list \<Rightarrow> int \<Rightarrow> 'a list" where
  "us_first_n array n = initial array (Some (int (length array) - n))"

definition us_last :: "'a list \<Rightarrow> 'a option" where
  "us_last array = (if array = [] then None else Some (array ! (length array - 1)))"

definition us_last_n :: "'a list \<Rightarrow> int \<Rightarrow> 'a list" where
  "us_last_n array n = us_rest array (Some (max 0 (int (length array) - n)))"

definition unzip :: "'a list list \<Rightarrow> 'a option list list" where
  "unzip array = (let len = fold (\<lambda>xs m. if length xs > m then length xs else m) array 0
     in map (\<lambda>index. map (\<lambda>xs. if index < length xs then Some (xs ! index) else None) array) [0..<len])"

definition us_range :: "int \<Rightarrow> int option \<Rightarrow> int option \<Rightarrow> int list" where
  "us_range start stop step =
    (let (start1, stop1) = (case stop of None \<Rightarrow> (0, start) | Some s \<Rightarrow> (start, s));
         step1 = (case step of None \<Rightarrow> 1 | Some s \<Rightarrow> if s = 0 then 1 else s);
         len = max (- ((start1 - stop1) div step1)) 0
     in map (\<lambda>idx. start1 + int idx * step1) [0..<nat len])"

section \<open>Lemmas\<close>

lemma snd_entries [simp]: "map snd (entries (CArray xs)) = xs"
  by (simp add: case_prod_unfold comp_def)

lemma us_filter_spec:
  fixes obj :: "'a coll"
  shows "us_filter obj (\<lambda>x _. P x) = filter P (us_values obj)"
proof -
  have "fold (\<lambda>(k, x) r. if P x then r @ [x] else r) es acc = acc @ filter P (map snd es)" for es :: "(key \<times> 'a) list" and acc
    by (induction es arbitrary: acc) auto
  then show ?thesis by (simp add: us_filter_def us_each_def us_values_def)
qed

lemma us_partition_spec:
  fixes obj :: "'a coll"
  shows "us_partition obj (\<lambda>x _. P x) = (filter P (us_values obj), us_reject obj (\<lambda>x _. P x))"
proof -
  have "fold (\<lambda>(k, x) (p, f). if P x then (p @ [x], f) else (p, f @ [x])) es (a, b)
    = (a @ filter P (map snd es), b @ filter (\<lambda>x. \<not> P x) (map snd es))" for es :: "(key \<times> 'a) list" and a b
    by (induction es arbitrary: a b) auto
  then show ?thesis by (simp add: us_partition_def us_each_def us_values_def us_reject_def us_filter_spec)
qed

lemma groupBy_lookup:
  fixes obj :: "'a coll"
  shows "map_of (groupBy obj (\<lambda>x _. f x)) k =
    (if filter (\<lambda>x. f x = k) (us_values obj) = [] then None else Some (filter (\<lambda>x. f x = k) (us_values obj)))"
proof -
  let ?step = "\<lambda>(i, x) r. case map_of r (f x) of
     Some xs \<Rightarrow> AList.update (f x) (xs @ [x]) r | None \<Rightarrow> AList.update (f x) [x] r"
  have "map_of (fold ?step es r) k = (let g = filter (\<lambda>x. f x = k) (map snd es) in
      case map_of r k of Some xs \<Rightarrow> Some (xs @ g) | None \<Rightarrow> if g = [] then None else Some g)" for es :: "(key \<times> 'a) list" and r
    by (induction es arbitrary: r) (auto simp: Let_def update_conv split: option.splits if_splits)
  then show ?thesis by (simp add: groupBy_def us_group_def us_each_def us_values_def Let_def case_prod_unfold)
qed

lemma us_range_up: "us_range 0 (Some (int n)) None = map int [0..<n]"
  by (simp add: us_range_def)

section \<open>Stability of sortBy\<close>

abbreviation entry_list :: "nat \<Rightarrow> 'a list \<Rightarrow> ('a \<Rightarrow> 'k option) \<Rightarrow> ('a, 'k) sort_entry list" where
  "entry_list n xs f \<equiv> map (\<lambda>(i, x). \<lparr> se_value = x, se_index = int i, se_criteria = f x \<rparr>) (List.enumerate n xs)"

lemma compare_le:
  assumes "se_index e < se_index y" "se_criteria e = c" "se_criteria y = d"
  shows "sortBy_compare e y \<le> 0 \<longleftrightarrow> (case c of None \<Rightarrow> d = None | Some p \<Rightarrow> (case d of None \<Rightarrow> True | Some q \<Rightarrow> p \<le> q))"
  using assms by (auto simp: sortBy_compare_def Let_def split: option.splits)

lemma insert_entry:
  assumes "\<forall>y\<in>set L. se_index e < se_index y \<and> se_criteria y = f (se_value y)" "se_criteria e = f (se_value e)"
    and "map se_value L = D @ U" "\<forall>x\<in>set D. f x \<noteq> None" "\<forall>x\<in>set U. f x = None"
  shows "map se_value (insert_by sortBy_compare e L) =
    (if f (se_value e) = None then D @ se_value e # U else insort_key (\<lambda>x. the (f x)) (se_value e) D @ U)"
  using assms
proof (induction D arbitrary: L)
  case Nil
  show ?case
  proof (cases L)
    case (Cons y L')
    then have "sortBy_compare e y \<le> 0" using Nil.prems by (subst compare_le) (auto split: option.split)
    then show ?thesis using Cons Nil.prems(3) by auto
  qed (use Nil.prems in auto)
next
  case (Cons d D)
  then obtain y L' where L: "L = y # L'" "se_value y = d" "map se_value L' = D @ U" by (cases L) auto
  have "sortBy_compare e y \<le> 0 \<longleftrightarrow> f (se_value e) \<noteq> None \<and> the (f (se_value e)) \<le> the (f d)"
    using Cons.prems L by (subst compare_le) (auto split: option.split)
  moreover have "map se_value (insert_by sortBy_compare e L') =
    (if f (se_value e) = None then D @ se_value e # U else insort_key (\<lambda>x. the (f x)) (se_value e) D @ U)"
    using Cons.prems L by (intro Cons.IH) auto
  ultimately show ?case using L Cons.prems(3) by auto
qed

lemma insert_by_set: "set (insert_by cmp x ys) = insert x (set ys)"
  by (induction ys) auto

lemma js_sort_entries:
  "(\<forall>e\<in>set (js_sort sortBy_compare (entry_list n xs f)). int n \<le> se_index e \<and> se_criteria e = f (se_value e))
   \<and> map se_value (js_sort sortBy_compare (entry_list n xs f)) =
      sort_key (\<lambda>x. the (f x)) (filter (\<lambda>x. f x \<noteq> None) xs) @ filter (\<lambda>x. f x = None) xs"
proof (induction xs arbitrary: n)
  case (Cons x xs)
  let ?L = "js_sort sortBy_compare (entry_list (Suc n) xs f)"
  let ?e = "\<lparr> se_value = x, se_index = int n, se_criteria = f x \<rparr>"
  have step: "js_sort sortBy_compare (entry_list n (x # xs) f) = insert_by sortBy_compare ?e ?L"
    by (simp add: js_sort_def)
  have ih: "\<forall>e\<in>set ?L. int (Suc n) \<le> se_index e \<and> se_criteria e = f (se_value e)"
    "map se_value ?L = sort_key (\<lambda>x. the (f x)) (filter (\<lambda>x. f x \<noteq> None) xs) @ filter (\<lambda>x. f x = None) xs"
    using Cons.IH [of "Suc n"] by blast+
  have "map se_value (insert_by sortBy_compare ?e ?L) =
      (if f x = None then sort_key (\<lambda>x. the (f x)) (filter (\<lambda>x. f x \<noteq> None) xs) @ x # filter (\<lambda>x. f x = None) xs
       else insort_key (\<lambda>x. the (f x)) x (sort_key (\<lambda>x. the (f x)) (filter (\<lambda>x. f x \<noteq> None) xs)) @ filter (\<lambda>x. f x = None) xs)"
    using insert_entry [of ?L ?e f, OF _ _ ih(2)] ih(1) by fastforce
  moreover have "\<forall>e\<in>set (insert_by sortBy_compare ?e ?L). int n \<le> se_index e \<and> se_criteria e = f (se_value e)"
    using ih(1) by (auto simp: insert_by_set)
  ultimately show ?case unfolding step by auto
qed (simp add: js_sort_def)

text \<open>
  \<^verbatim>\<open>sortBy\<close> is a stable sort: the elements come in the order of their
  criteria, elements with equal criteria keep their order, and those without
  a criterion follow at the end in their order.
\<close>

theorem sortBy_stable:
  "sortBy xs f = sort_key (\<lambda>x. the (f x)) (filter (\<lambda>x. f x \<noteq> None) xs) @ filter (\<lambda>x. f x = None) xs"
  using js_sort_entries [where n = 0 and xs = xs and f = f] by (simp add: sortBy_def)

end
