(* ===== verification/Us_Functions.thy ===== *)
theory Us_Functions
  imports Js_Prelude
begin

text \<open>
  The function wrappers of the bundled underscore library (module 25 of
  \<^verbatim>\<open>wordcut.js\<close>): throttling, debouncing, counting, memoizing, partial application
  and composition.  The variables a wrapper closes over are a record.  The
  wrapped function is a pure function of its arguments that does not call the
  wrapper; each of its invocations is recorded with the time.  A timer is the
  time at which it is due: it fires then or later, unless it was cleared.
\<close>

section \<open>Throttling and debouncing\<close>

record throttle_options =
  leading :: "bool option"
  trailing :: "bool option"

record ('a, 'r) limiter =
  timeout :: "int option"
  args :: "'a list option"
  lim_result :: "'r option"
  invoked :: "(int \<times> 'a list) list"

record ('a, 'r) throttled = "('a, 'r) limiter" +
  previous :: int

record ('a, 'r) debounced = "('a, 'r) limiter" +
  timestamp :: "int option"

definition throttle_new :: "('a, 'r) throttled" where
  "throttle_new = \<lparr> timeout = None, args = None, lim_result = None, invoked = [], previous = 0 \<rparr>"

definition debounce_new :: "('a, 'r) debounced" where
  "debounce_new = \<lparr> timeout = None, args = None, lim_result = None, invoked = [], timestamp = None \<rparr>"

text \<open>\<^verbatim>\<open>result = func.apply(context, args)\<close>; null arguments are no arguments.\<close>

definition apply_func :: "('a list \<Rightarrow> 'r) \<Rightarrow> int \<Rightarrow> ('a, 'r, 'm) limiter_scheme \<Rightarrow> ('a, 'r, 'm) limiter_scheme" where
  "apply_func func now s =
    (let xs = (case args s of None \<Rightarrow> [] | Some xs \<Rightarrow> xs)
     in s\<lparr> lim_result := Some (func xs), invoked := invoked s @ [(now, xs)] \<rparr>)"

definition release_args :: "('a, 'r, 'm) limiter_scheme \<Rightarrow> ('a, 'r, 'm) limiter_scheme" where
  "release_args s = (if timeout s = None then s\<lparr> args := None \<rparr> else s)"

definition throttle_later ::
  "throttle_options \<Rightarrow> ('a list \<Rightarrow> 'r) \<Rightarrow> int \<Rightarrow> ('a, 'r) throttled \<Rightarrow> ('a, 'r) throttled" where
  "throttle_later options func now s =
    release_args (apply_func func now
      (s\<lparr> previous := (if leading options = Some False then 0 else now), timeout := None \<rparr>))"

definition throttle ::
  "throttle_options \<Rightarrow> ('a list \<Rightarrow> 'r) \<Rightarrow> int \<Rightarrow> int \<Rightarrow> 'a list \<Rightarrow> ('a, 'r) throttled \<Rightarrow> 'r option \<times> ('a, 'r) throttled" where
  "throttle options func wait now arguments s =
    (let prev = (if previous s = 0 \<and> leading options = Some False then now else previous s);
         remaining = wait - (now - prev);
         s1 = s\<lparr> previous := prev, args := Some arguments \<rparr>;
         s2 = (if remaining \<le> 0 \<or> remaining > wait
               then release_args (apply_func func now (s1\<lparr> timeout := None, previous := now \<rparr>))
               else if timeout s1 = None \<and> trailing options \<noteq> Some False
               then s1\<lparr> timeout := Some (now + remaining) \<rparr> else s1)
     in (lim_result s2, s2))"

definition debounce_later ::
  "('a list \<Rightarrow> 'r) \<Rightarrow> int \<Rightarrow> bool \<Rightarrow> int \<Rightarrow> ('a, 'r) debounced \<Rightarrow> ('a, 'r) debounced" where
  "debounce_later func wait immediate now s =
    (let last = map_option (\<lambda>t. now - t) (timestamp s); s1 = s\<lparr> timeout := None \<rparr>
     in case last of
          Some l \<Rightarrow> if l < wait \<and> l \<ge> 0 then s\<lparr> timeout := Some (now + (wait - l)) \<rparr>
                     else if \<not> immediate then release_args (apply_func func now s1) else s1
        | None \<Rightarrow> if \<not> immediate then release_args (apply_func func now s1) else s1)"

definition debounce ::
  "('a list \<Rightarrow> 'r) \<Rightarrow> int \<Rightarrow> bool \<Rightarrow> int \<Rightarrow> 'a list \<Rightarrow> ('a, 'r) debounced \<Rightarrow> 'r option \<times> ('a, 'r) debounced" where
  "debounce func wait immediate now arguments s =
    (let callNow = (immediate \<and> timeout s = None);
         s1 = s\<lparr> args := Some arguments, timestamp := Some now \<rparr>;
         s2 = (if timeout s1 = None then s1\<lparr> timeout := Some (now + wait) \<rparr> else s1);
         s3 = (if callNow then (apply_func func now s2)\<lparr> args := None \<rparr> else s2)
     in (lim_result s3, s3))"

section \<open>Calls counted and results kept\<close>

text \<open>\<^verbatim>\<open>--times < 1\<close> and \<^verbatim>\<open>--times > 0\<close>; \<^verbatim>\<open>before\<close> drops its function when it has been called for the last time.\<close>

definition after :: "('a \<Rightarrow> 'r) \<Rightarrow> 'a \<Rightarrow> int \<Rightarrow> 'r option \<times> int" where
  "after func x n = (if n - 1 < 1 then Some (func x) else None, n - 1)"

record ('a, 'r) counter =
  times_left :: int
  before_func :: "('a \<Rightarrow> 'r) option"
  memo :: "'r option"

definition before_new :: "int \<Rightarrow> ('a \<Rightarrow> 'r) \<Rightarrow> ('a, 'r) counter" where
  "before_new n func = \<lparr> times_left = n, before_func = Some func, memo = None \<rparr>"

definition before :: "'a \<Rightarrow> ('a, 'r) counter \<Rightarrow> ('r option \<times> ('a, 'r) counter) js" where
  "before x s =
    (let t = times_left s - 1; s1 = s\<lparr> times_left := t \<rparr>
     in js_bind (if t > 0 then case before_func s of None \<Rightarrow> Inl TypeError
                   | Some f \<Rightarrow> Inr (s1\<lparr> memo := Some (f x) \<rparr>) else Inr s1)
          (\<lambda>s2. let s3 = (if t \<le> 1 then s2\<lparr> before_func := None \<rparr> else s2) in Inr (memo s3, s3)))"

definition us_once :: "('a \<Rightarrow> 'r) \<Rightarrow> ('a, 'r) counter" where
  "us_once func = before_new 2 func"

definition memoize ::
  "('a \<Rightarrow> 'r) \<Rightarrow> ('a \<Rightarrow> ustring) \<Rightarrow> 'a \<Rightarrow> (ustring \<rightharpoonup> 'r) \<Rightarrow> 'r \<times> (ustring \<rightharpoonup> 'r)" where
  "memoize func address x cache =
    (case cache (address x) of Some r \<Rightarrow> (r, cache) | None \<Rightarrow> (func x, cache(address x \<mapsto> func x)))"

text \<open>
  Partial application: a bound argument is a value or the placeholder, which
  takes the next argument of the call or, when there is none left, undefined.
\<close>

fun partial_fill :: "'a option list \<Rightarrow> 'a list \<Rightarrow> 'a option list \<times> 'a list" where
  "partial_fill [] arguments = ([], arguments)"
| "partial_fill (Some b # bs) arguments =
    (let (filled, more) = partial_fill bs arguments in (Some b # filled, more))"
| "partial_fill (None # bs) [] = (let (filled, more) = partial_fill bs [] in (None # filled, more))"
| "partial_fill (None # bs) (x # xs) = (let (filled, more) = partial_fill bs xs in (Some x # filled, more))"

definition partial :: "('a option list \<Rightarrow> 'r) \<Rightarrow> 'a option list \<Rightarrow> 'a list \<Rightarrow> 'r" where
  "partial func boundArgs arguments =
    (let (filled, more) = partial_fill boundArgs arguments in func (filled @ map Some more))"

definition us_wrap :: "('a option list \<Rightarrow> 'r) \<Rightarrow> 'a \<Rightarrow> 'a list \<Rightarrow> 'r" where
  "us_wrap wrapper func = partial wrapper [Some func]"

definition negate :: "('a \<Rightarrow> bool) \<Rightarrow> 'a \<Rightarrow> bool" where
  "negate predicate x = (\<not> predicate x)"

text \<open>The functions of \<^verbatim>\<open>compose\<close>, all but the last, and the last, which gets the arguments.\<close>

fun compose_loop :: "('v \<Rightarrow> 'v) list \<Rightarrow> nat \<Rightarrow> 'v \<Rightarrow> 'v" where
  "compose_loop fs 0 r = r"
| "compose_loop fs (Suc i) r = compose_loop fs i ((fs ! i) r)"

definition compose :: "('v \<Rightarrow> 'v) list \<Rightarrow> ('a \<Rightarrow> 'v) \<Rightarrow> 'a \<Rightarrow> 'v" where
  "compose fs start x = compose_loop fs (length fs) (start x)"

section \<open>Runs\<close>

text \<open>
  A step of a throttled function: it is called, or its timer fires.  The clock
  does not go back and is never zero, the value the code takes for no call.
\<close>

inductive throttle_step ::
  "throttle_options \<Rightarrow> ('a list \<Rightarrow> 'r) \<Rightarrow> int \<Rightarrow> int \<times> ('a, 'r) throttled \<Rightarrow> int \<times> ('a, 'r) throttled \<Rightarrow> bool"
  for options :: throttle_options and func :: "'a list \<Rightarrow> 'r" and wait :: int where
  throttle_call: "c \<le> now \<Longrightarrow> 0 < now \<Longrightarrow>
    throttle_step options func wait (c, s) (now, snd (throttle options func wait now arguments s))"
| throttle_fire: "timeout s = Some due \<Longrightarrow> due \<le> now \<Longrightarrow> c \<le> now \<Longrightarrow> 0 < now \<Longrightarrow>
    throttle_step options func wait (c, s) (now, throttle_later options func now s)"

text \<open>A step of a debounced function; the calls are kept beside the state, with their times.\<close>

inductive debounce_step ::
  "('a list \<Rightarrow> 'r) \<Rightarrow> int \<Rightarrow> bool \<Rightarrow> int \<times> (int \<times> 'a list) list \<times> ('a, 'r) debounced \<Rightarrow>
    int \<times> (int \<times> 'a list) list \<times> ('a, 'r) debounced \<Rightarrow> bool"
  for func :: "'a list \<Rightarrow> 'r" and wait :: int and immediate :: bool where
  debounce_call: "c \<le> now \<Longrightarrow>
    debounce_step func wait immediate (c, calls, s)
      (now, calls @ [(now, arguments)], snd (debounce func wait immediate now arguments s))"
| debounce_fire: "timeout s = Some due \<Longrightarrow> due \<le> now \<Longrightarrow> c \<le> now \<Longrightarrow>
    debounce_step func wait immediate (c, calls, s) (now, calls, debounce_later func wait immediate now s)"

abbreviation throttle_reach ::
  "throttle_options \<Rightarrow> ('a list \<Rightarrow> 'r) \<Rightarrow> int \<Rightarrow> int \<times> ('a, 'r) throttled \<Rightarrow> bool" where
  "throttle_reach options func wait \<equiv> reach (\<lambda>x. x = (0, throttle_new)) (throttle_step options func wait)"

abbreviation debounce_reach ::
  "('a list \<Rightarrow> 'r) \<Rightarrow> int \<Rightarrow> bool \<Rightarrow> int \<times> (int \<times> 'a list) list \<times> ('a, 'r) debounced \<Rightarrow> bool" where
  "debounce_reach func wait immediate \<equiv>
    reach (\<lambda>x. x = (0, [], debounce_new)) (debounce_step func wait immediate)"

section \<open>At most one invocation in a window\<close>

definition spaced :: "int \<Rightarrow> (int \<times> 'a) list \<Rightarrow> bool" where
  "spaced wait log \<longleftrightarrow> successively (\<lambda>x y. fst x + wait \<le> fst y) log"

lemma spaced_snoc [simp]:
  "spaced wait (log @ [e]) \<longleftrightarrow> spaced wait log \<and> (log = [] \<or> fst (last log) + wait \<le> fst e)"
  by (auto simp: spaced_def successively_append_iff)

definition last_invoked :: "('a, 'r, 'm) limiter_scheme \<Rightarrow> int \<Rightarrow> bool" where
  "last_invoked s t \<longleftrightarrow> (invoked s = [] \<or> fst (last (invoked s)) \<le> t)"

definition result_ok :: "('a list \<Rightarrow> 'r) \<Rightarrow> ('a, 'r, 'm) limiter_scheme \<Rightarrow> bool" where
  "result_ok func s \<longleftrightarrow>
    lim_result s = (if invoked s = [] then None else Some (func (snd (last (invoked s)))))"

fun throttle_inv ::
  "throttle_options \<Rightarrow> ('a list \<Rightarrow> 'r) \<Rightarrow> int \<Rightarrow> int \<times> ('a, 'r) throttled \<Rightarrow> bool" where
  "throttle_inv options func wait (c, s) \<longleftrightarrow>
    spaced wait (invoked s) \<and> result_ok func s \<and> 0 \<le> previous s \<and> previous s \<le> c
  \<and> (last_invoked s (previous s)
     \<or> leading options = Some False \<and> previous s = 0 \<and> timeout s = None \<and> last_invoked s c)
  \<and> (\<forall>due. timeout s = Some due \<longrightarrow> due = previous s + wait \<and> args s \<noteq> None \<and> last_invoked s (previous s)
      \<and> (leading options = Some False \<longrightarrow> previous s \<noteq> 0))"

lemmas limiter_defs = apply_func_def release_args_def Let_def

lemma throttle_inv_call:
  assumes "throttle_inv options func wait (c, s)" "c \<le> now" "0 < now"
  shows "throttle_inv options func wait (now, snd (throttle options func wait now arguments s))"
  using assms
  by (auto simp: throttle_def limiter_defs last_invoked_def result_ok_def)

lemma throttle_inv_fire:
  assumes "throttle_inv options func wait (c, s)" "timeout s = Some due" "due \<le> now" "c \<le> now" "0 < now"
  shows "throttle_inv options func wait (now, throttle_later options func now s)"
  using assms
  by (auto simp: throttle_later_def limiter_defs last_invoked_def result_ok_def)

interpretation throttling: invariant_system "\<lambda>x. x = (0, throttle_new)" "throttle_step options func wait"
  "throttle_inv options func wait" for options func wait
proof unfold_locales
  fix s :: "int \<times> ('a, 'b) throttled" assume "s = (0, throttle_new)"
  then show "throttle_inv options func wait s" by (simp add: throttle_new_def last_invoked_def result_ok_def spaced_def)
next
  fix s s' assume i: "throttle_inv options func wait s" and st: "throttle_step options func wait s s'"
  from st i show "throttle_inv options func wait s'"
    by cases (auto simp only: intro: throttle_inv_call throttle_inv_fire)
qed

text \<open>After a call with trailing calls enabled, its arguments have been used or will be when the timer fires.\<close>

definition served :: "int \<Rightarrow> int \<Rightarrow> 'a list \<Rightarrow> ('a, 'r, 'm) limiter_scheme \<Rightarrow> bool" where
  "served wait now arguments s \<longleftrightarrow>
    (invoked s \<noteq> [] \<and> last (invoked s) = (now, arguments))
  \<or> (\<exists>due. timeout s = Some due \<and> now < due \<and> due \<le> now + wait \<and> args s = Some arguments)"

lemma throttle_served:
  assumes "throttle_inv options func wait (c, s)" "c \<le> now" "0 < now" "trailing options \<noteq> Some False"
  shows "served wait now arguments (snd (throttle options func wait now arguments s))"
  using assms by (auto simp: throttle_def limiter_defs served_def)


definition ex_options :: throttle_options where
  "ex_options = \<lparr> leading = None, trailing = None \<rparr>"

definition ex_throttled :: "(int, int) throttled" where
  "ex_throttled = throttle_later ex_options sum_list 1500
     (snd (throttle ex_options sum_list 500 1400 [3]
       (snd (throttle ex_options sum_list 500 1200 [2]
         (snd (throttle ex_options sum_list 500 1000 [1] throttle_new))))))"

lemma ex_throttled_reach: "throttle_reach ex_options sum_list 500 (1500, ex_throttled)"
  unfolding ex_throttled_def
  by (rule reach_step [OF reach_step [OF reach_step [OF reach_step [OF reach_init]]]],
      rule refl, rule throttle_call [where now = 1000], simp, simp, rule throttle_call [where now = 1200], simp, simp,
      rule throttle_call [where now = 1400], simp, simp, rule throttle_fire [where due = 1500])
    (simp_all add: throttle_def limiter_defs throttle_new_def ex_options_def)


section \<open>Invocation after a quiet period\<close>

fun debounce_inv :: "int \<Rightarrow> bool \<Rightarrow> int \<times> (int \<times> 'a list) list \<times> ('a, 'r) debounced \<Rightarrow> bool" where
  "debounce_inv wait immediate (c, calls, s) \<longleftrightarrow>
    spaced wait (invoked s)
  \<and> sorted (map fst calls) \<and> (calls \<noteq> [] \<longrightarrow> fst (last calls) \<le> c)
  \<and> timestamp s = (if calls = [] then None else Some (fst (last calls)))
  \<and> (case timeout s of
        None \<Rightarrow> last_invoked s (if immediate then c - wait else c)
      | Some due \<Rightarrow> calls \<noteq> [] \<and> due \<le> fst (last calls) + wait \<and> last_invoked s (fst (last calls))
          \<and> (\<not> immediate \<longrightarrow> args s = Some (snd (last calls))))"

lemma sorted_last_le: "sorted xs \<Longrightarrow> xs \<noteq> [] \<Longrightarrow> last xs \<le> y \<Longrightarrow> x \<in> set xs \<Longrightarrow> x \<le> (y :: int)"
  by (metis append_butlast_last_id in_set_conv_decomp last_in_set order_trans sorted_wrt_snoc set_append Un_iff
      list.set_intros(1) empty_iff insert_iff list.set(1) list.set(2))

lemma debounce_inv_call:
  assumes "debounce_inv wait immediate (c, calls, s)" "c \<le> now"
  shows "debounce_inv wait immediate
    (now, calls @ [(now, arguments)], snd (debounce func wait immediate now arguments s))"
proof -
  have "\<forall>x\<in>set (map fst calls). x \<le> now"
    using assms sorted_last_le [of "map fst calls" now] by (cases "calls = []") (auto simp: last_map)
  with assms show ?thesis
    by (cases "timeout s") (auto simp: debounce_def limiter_defs last_invoked_def)
qed

lemma debounce_inv_fire:
  assumes "debounce_inv wait immediate (c, calls, s)" "timeout s = Some due" "due \<le> now" "c \<le> now"
  shows "debounce_inv wait immediate (now, calls, debounce_later func wait immediate now s)"
  using assms by (auto simp: debounce_later_def limiter_defs last_invoked_def split: if_splits)

interpretation debouncing: invariant_system "\<lambda>x. x = (0, [], debounce_new)" "debounce_step func wait immediate"
  "debounce_inv wait immediate" for func wait immediate
proof unfold_locales
  fix s :: "int \<times> (int \<times> 'a list) list \<times> ('a, 'b) debounced" assume "s = (0, [], debounce_new)"
  then show "debounce_inv wait immediate s" by (simp add: debounce_new_def last_invoked_def spaced_def)
next
  fix s s' assume i: "debounce_inv wait immediate s" and st: "debounce_step func wait immediate s s'"
  from st i show "debounce_inv wait immediate s'"
    by cases (auto simp only: intro: debounce_inv_call debounce_inv_fire)
qed

text \<open>
  The timer of a debounced function invokes it exactly when no call came in
  the last \<^verbatim>\<open>wait\<close> milliseconds, with the arguments of the last call, and is set again
  for the end of the quiet period otherwise; also with \<^verbatim>\<open>immediate\<close> the invocations
  are spaced.
\<close>

lemma debounce_quiet:
  assumes "debounce_reach func wait False (c, calls, s)" "timeout s = Some due" "due \<le> now" "c \<le> now"
  shows "let s' = debounce_later func wait False now s in
    if \<exists>x\<in>set calls. now - wait < fst x
    then invoked s' = invoked s \<and> timeout s' = Some (fst (last calls) + wait)
    else invoked s' = invoked s @ [(now, snd (last calls))] \<and> timeout s' = None"
proof -
  from debouncing.reach_inv [OF assms(1)] have i: "debounce_inv wait False (c, calls, s)" .
  then have n: "calls \<noteq> []" using assms(2) by simp
  have "\<forall>x\<in>set calls. fst x \<le> fst (last calls)"
    using i n sorted_last_le [of "map fst calls" "fst (last calls)"] by (auto simp: last_map)
  then have "(\<exists>x\<in>set calls. now - wait < fst x) \<longleftrightarrow> now - wait < fst (last calls)"
    using n by (meson last_in_set order_less_le_trans)
  then show ?thesis
    using i n assms by (auto simp: debounce_later_def limiter_defs)
qed

lemma debounce_spaced: "debounce_reach func wait immediate (c, calls, s) \<Longrightarrow> spaced wait (invoked s)"
  using debouncing.reach_inv by fastforce

section \<open>Counted calls\<close>

text \<open>A function wrapped by \<^verbatim>\<open>once\<close> runs at the first call; later calls return the same result without an error.\<close>

fun before_calls :: "'a list \<Rightarrow> ('a, 'r) counter \<Rightarrow> ('r option list \<times> ('a, 'r) counter) js" where
  "before_calls [] s = Inr ([], s)"
| "before_calls (x # xs) s =
    js_bind (before x s) (\<lambda>(r, s1). js_bind (before_calls xs s1) (\<lambda>(rs, s2). Inr (r # rs, s2)))"

lemma before_done:
  "times_left s \<le> 1 \<Longrightarrow> \<exists>s'. before_calls xs s = Inr (replicate (length xs) (memo s), s')"
proof (induction xs arbitrary: s)
  case (Cons x xs)
  define s1 where "s1 = s\<lparr> times_left := times_left s - 1, before_func := None \<rparr>"
  have "before x s = Inr (memo s, s1)"
    using Cons.prems by (simp add: before_def s1_def Let_def)
  with Cons.IH [of s1] Cons.prems show ?case by (auto simp: s1_def)
qed simp

lemma once_first_result:
  "\<exists>s. before_calls (x # xs) (us_once f) = Inr (replicate (Suc (length xs)) (Some (f x)), s)"
proof -
  have "before x (us_once f) =
      Inr (Some (f x), \<lparr> times_left = 1, before_func = None, memo = Some (f x) \<rparr>)"
    by (simp add: us_once_def before_new_def before_def Let_def)
  then show ?thesis
    using before_done [of "\<lparr> times_left = 1, before_func = None, memo = Some (f x) \<rparr>" xs] by auto
qed

definition cache_ok :: "('a \<Rightarrow> 'r) \<Rightarrow> ('a \<Rightarrow> ustring) \<Rightarrow> (ustring \<rightharpoonup> 'r) \<Rightarrow> bool" where
  "cache_ok func address cache \<longleftrightarrow> (\<forall>x r. cache (address x) = Some r \<longrightarrow> func x = r)"

lemma memoize_result: "cache_ok func address cache \<Longrightarrow> fst (memoize func address x cache) = func x"
  by (cases "cache (address x)") (simp_all add: memoize_def cache_ok_def)

lemma memoize_cache:
  assumes "cache_ok func address cache" "\<And>x y. address x = address y \<Longrightarrow> func x = func y"
  shows "cache_ok func address (snd (memoize func address x cache))"
proof (cases "cache (address x)")
  case None
  show ?thesis
    unfolding cache_ok_def
  proof (intro allI impI)
    fix y r assume r: "snd (memoize func address x cache) (address y) = Some r"
    show "func y = r"
    proof (cases "address y = address x")
      case True
      with r None have "r = func x" by (simp add: memoize_def)
      with assms(2) [OF True] show ?thesis by simp
    next
      case False
      with r None assms(1) show ?thesis by (simp add: memoize_def cache_ok_def)
    qed
  qed
qed (use assms in \<open>simp add: memoize_def\<close>)

lemma compose_foldr: "compose fs start x = foldr (\<lambda>f. f) fs (start x)"
proof -
  have "n \<le> length fs \<Longrightarrow> compose_loop fs n r = foldr (\<lambda>f. f) (take n fs) r" for n r
    by (induction n arbitrary: r) (simp_all add: take_Suc_conv_app_nth)
  then show ?thesis by (simp add: compose_def)
qed

lemma partial_values: "partial func (map Some bs) arguments = func (map Some (bs @ arguments))"
proof -
  have "partial_fill (map Some bs) arguments = (map Some bs, arguments)"
    by (induction bs) simp_all
  then show ?thesis by (simp add: partial_def)
qed

end
