(* ===== verification/Us_Equal.thy ===== *)
theory Us_Equal
  imports Js_Prelude
begin

text \<open>
  Deep comparison in the bundled underscore library: \<^verbatim>\<open>eq\<close> and \<^verbatim>\<open>isEqual\<close> of module 25
  of \<^verbatim>\<open>wordcut.js\<close>.  Objects live on a heap, so that sharing and cycles are what they
  are in the program: a value refers to an object by its address.  Conversions
  of an object to a primitive give the primitive value it holds.
\<close>

section \<open>Values and the heap\<close>

datatype num = NumNaN | NegZero | NumInt int

datatype val = Undefined | Null | Bool bool | Number num | Str ustring | Ref nat

text \<open>
  An object: its class name, the primitive it holds (wrappers of primitives,
  dates and regular expressions), its elements (arrays), its own enumerable
  properties, the constructor property it inherits, whether it is an instance
  of itself (constructors of objects and functions), and what it wraps when it
  is an underscore object.
\<close>

record hobj =
  ob_class :: string
  ob_prim :: val
  ob_elems :: "val list"
  ob_own :: "(ustring \<times> val) list"
  ob_ctor :: "val option"
  ob_self_instance :: bool
  ob_wrapped :: "val option"

type_synonym jsheap = "hobj list"

definition obj_at :: "jsheap \<Rightarrow> nat \<Rightarrow> hobj option" where
  "obj_at h n = (if n < length h then Some (h ! n) else None)"

definition is_zero :: "num \<Rightarrow> bool" where
  "is_zero n \<longleftrightarrow> n = NegZero \<or> n = NumInt 0"

definition num_strict_eq :: "num \<Rightarrow> num \<Rightarrow> bool" where
  "num_strict_eq m n \<longleftrightarrow> m \<noteq> NumNaN \<and> n \<noteq> NumNaN \<and> (m = n \<or> is_zero m \<and> is_zero n)"

fun val_strict_eq :: "val \<Rightarrow> val \<Rightarrow> bool" where
  "val_strict_eq (Number m) (Number n) = num_strict_eq m n"
| "val_strict_eq a b = (a = b)"

text \<open>\<^verbatim>\<open>a === b\<close>, and for zeros \<^verbatim>\<open>1 / a === 1 / b\<close>.\<close>

definition same_sign_zero :: "val \<Rightarrow> val \<Rightarrow> bool" where
  "same_sign_zero a b \<longleftrightarrow> (case a of Number m \<Rightarrow> is_zero m \<longrightarrow> a = b | _ \<Rightarrow> True)"

definition nullish :: "val \<Rightarrow> bool" where
  "nullish v \<longleftrightarrow> v = Undefined \<or> v = Null"

definition unwrap :: "jsheap \<Rightarrow> val \<Rightarrow> val" where
  "unwrap h v = (case v of Ref n \<Rightarrow> (case obj_at h n of
       Some ob \<Rightarrow> (case ob_wrapped ob of Some w \<Rightarrow> w | None \<Rightarrow> v) | None \<Rightarrow> v) | _ \<Rightarrow> v)"

definition class_name :: "jsheap \<Rightarrow> val \<Rightarrow> string" where
  "class_name h v = (case v of Undefined \<Rightarrow> ''Undefined'' | Null \<Rightarrow> ''Null'' | Bool _ \<Rightarrow> ''Boolean''
     | Number _ \<Rightarrow> ''Number'' | Str _ \<Rightarrow> ''String''
     | Ref n \<Rightarrow> (case obj_at h n of Some ob \<Rightarrow> ob_class ob | None \<Rightarrow> ''''))"

definition primitive :: "jsheap \<Rightarrow> val \<Rightarrow> val" where
  "primitive h v = (case v of Ref n \<Rightarrow> (case obj_at h n of Some ob \<Rightarrow> ob_prim ob | None \<Rightarrow> Undefined) | _ \<Rightarrow> v)"

definition to_number :: "jsheap \<Rightarrow> val \<Rightarrow> num" where
  "to_number h v = (case primitive h v of Number n \<Rightarrow> n | Bool b \<Rightarrow> NumInt (if b then 1 else 0)
     | Null \<Rightarrow> NumInt 0 | _ \<Rightarrow> NumNaN)"

definition val_isFunction :: "jsheap \<Rightarrow> val \<Rightarrow> bool" where
  "val_isFunction h v \<longleftrightarrow> (case v of Ref n \<Rightarrow> class_name h v = ''Function'' | _ \<Rightarrow> False)"

definition typeof_object :: "jsheap \<Rightarrow> val \<Rightarrow> bool" where
  "typeof_object h v \<longleftrightarrow> v = Null \<or> (case v of Ref n \<Rightarrow> \<not> val_isFunction h v | _ \<Rightarrow> False)"

section \<open>The comparison\<close>

text \<open>The switch over the class name; \<^verbatim>\<open>None\<close> is the case of objects and arrays.\<close>

definition eq_by_value :: "jsheap \<Rightarrow> val \<Rightarrow> val \<Rightarrow> bool option" where
  "eq_by_value h a b =
    (let c = class_name h a in
     if c = ''RegExp'' \<or> c = ''String'' then Some (primitive h a = primitive h b)
     else if c = ''Number'' then
       (let x = to_number h a; y = to_number h b in
        if x = NumNaN then Some (y = NumNaN)
        else if is_zero x then Some (x = y) else Some (num_strict_eq x y))
     else if c = ''Date'' \<or> c = ''Boolean'' then Some (num_strict_eq (to_number h a) (to_number h b))
     else None)"

text \<open>The property \<^verbatim>\<open>constructor\<close>: whether it is in the object, and its value.\<close>

definition ctor_of :: "hobj \<Rightarrow> val option" where
  "ctor_of ob = (case map_of (ob_own ob) (lit ''constructor'') of Some v \<Rightarrow> Some v | None \<Rightarrow> ob_ctor ob)"

definition self_ctor :: "jsheap \<Rightarrow> val \<Rightarrow> bool" where
  "self_ctor h v \<longleftrightarrow> val_isFunction h v \<and>
    (case v of Ref n \<Rightarrow> (case obj_at h n of Some ob \<Rightarrow> ob_self_instance ob | None \<Rightarrow> False) | _ \<Rightarrow> False)"

definition ctors_differ :: "jsheap \<Rightarrow> hobj \<Rightarrow> hobj \<Rightarrow> bool" where
  "ctors_differ h oa ob1 \<longleftrightarrow>
    (let aCtor = (case ctor_of oa of None \<Rightarrow> Undefined | Some v \<Rightarrow> v);
         bCtor = (case ctor_of ob1 of None \<Rightarrow> Undefined | Some v \<Rightarrow> v)
     in \<not> val_strict_eq aCtor bCtor \<and> \<not> (self_ctor h aCtor \<and> self_ctor h bCtor)
        \<and> ctor_of oa \<noteq> None \<and> ctor_of ob1 \<noteq> None)"

text \<open>The members that are compared, from the last to the first; a missing key of the second object is \<^verbatim>\<open>None\<close>.\<close>

definition members :: "bool \<Rightarrow> hobj \<Rightarrow> hobj \<Rightarrow> (val \<times> val option) list option" where
  "members areArrays oa ob1 =
    (if areArrays then
       if length (ob_elems oa) \<noteq> length (ob_elems ob1) then None
       else Some (rev (zip (ob_elems oa) (map Some (ob_elems ob1))))
     else if length (ob_own ob1) \<noteq> length (ob_own oa) then None
       else Some (rev (map (\<lambda>(k, v). (v, map_of (ob_own ob1) k)) (ob_own oa))))"

text \<open>A result is \<^verbatim>\<open>None\<close> when the bound on the depth is reached or an address is not on the heap.\<close>

fun eq_all :: "(val \<Rightarrow> val \<Rightarrow> bool js option) \<Rightarrow> (val \<times> val option) list \<Rightarrow> bool js option" where
  "eq_all cmp [] = Some (Inr True)"
| "eq_all cmp ((x, None) # ps) = Some (Inr False)"
| "eq_all cmp ((x, Some y) # ps) =
    (case cmp x y of None \<Rightarrow> None | Some (Inl e) \<Rightarrow> Some (Inl e)
     | Some (Inr r) \<Rightarrow> if r then eq_all cmp ps else Some (Inr False))"

text \<open>
  The stack holds the pairs under comparison, the latest first; the code keeps
  it in two arrays.  A comparison that fails leaves its pairs on the stack, but
  then every enclosing comparison fails at once.
\<close>

definition eq_objects ::
  "jsheap \<Rightarrow> (val \<Rightarrow> val \<Rightarrow> (val \<times> val) list \<Rightarrow> bool js option) \<Rightarrow> val \<Rightarrow> val \<Rightarrow> (val \<times> val) list \<Rightarrow> bool js option" where
  "eq_objects h cmp a b stk =
    (let areArrays = (class_name h a = ''Array'') in
     if \<not> areArrays \<and> (\<not> typeof_object h a \<or> \<not> typeof_object h b) then Some (Inr False)
     else if a = Null \<or> b = Null then Some (Inl TypeError)
     else case (a, b) of
       (Ref x, Ref y) \<Rightarrow> (case (obj_at h x, obj_at h y) of
         (Some oa, Some ob1) \<Rightarrow>
           if \<not> areArrays \<and> ctors_differ h oa ob1 then Some (Inr False)
           else (case find (\<lambda>p. val_strict_eq (fst p) a) stk of
             Some p \<Rightarrow> Some (Inr (val_strict_eq (snd p) b))
           | None \<Rightarrow> (case members areArrays oa ob1 of
               None \<Rightarrow> Some (Inr False)
             | Some ps \<Rightarrow> eq_all (\<lambda>v w. cmp v w ((a, b) # stk)) ps))
       | _ \<Rightarrow> None)
     | _ \<Rightarrow> None)"

primrec us_eq :: "jsheap \<Rightarrow> nat \<Rightarrow> val \<Rightarrow> val \<Rightarrow> (val \<times> val) list \<Rightarrow> bool js option" where
  "us_eq h 0 = (\<lambda>a b stk. None)"
| "us_eq h (Suc n) = (\<lambda>a b stk.
    if val_strict_eq a b then Some (Inr (same_sign_zero a b))
    else if nullish a \<or> nullish b then Some (Inr False)
    else let a1 = unwrap h a; b1 = unwrap h b in
    if class_name h a1 \<noteq> class_name h b1 then Some (Inr False)
    else case eq_by_value h a1 b1 of
      Some r \<Rightarrow> Some (Inr r)
    | None \<Rightarrow> eq_objects h (us_eq h n) a1 b1 stk)"

text \<open>The bound on the depth: the stack never holds an object twice.\<close>

definition isEqual :: "jsheap \<Rightarrow> val \<Rightarrow> val \<Rightarrow> bool js option" where
  "isEqual h a b = us_eq h (length h + 1) a b []"

section \<open>The comparison ends\<close>

definition in_heap :: "jsheap \<Rightarrow> val \<Rightarrow> bool" where
  "in_heap h v \<longleftrightarrow> (case v of Ref n \<Rightarrow> n < length h | _ \<Rightarrow> True)"

definition wf_heap :: "jsheap \<Rightarrow> bool" where
  "wf_heap h \<longleftrightarrow> (\<forall>ob\<in>set h. (\<forall>v\<in>set (ob_elems ob). in_heap h v) \<and> (\<forall>p\<in>set (ob_own ob). in_heap h (snd p))
    \<and> (\<forall>w. ob_wrapped ob = Some w \<longrightarrow> in_heap h w))"

definition stack_ok :: "jsheap \<Rightarrow> (val \<times> val) list \<Rightarrow> bool" where
  "stack_ok h stk \<longleftrightarrow> distinct (map fst stk) \<and> fst ` set stk \<subseteq> Ref ` {..<length h}"

lemma stack_bounded: "stack_ok h stk \<Longrightarrow> length stk \<le> length h"
proof -
  assume s: "stack_ok h stk"
  then have "card (fst ` set stk) \<le> card (Ref ` {..<length h})"
    unfolding stack_ok_def by (intro card_mono) auto
  moreover have "card (Ref ` {..<length h}) = length h" by (simp add: card_image inj_on_def)
  moreover have "card (fst ` set stk) = length stk"
    using s unfolding stack_ok_def by (metis distinct_card length_map list.set_map)
  ultimately show ?thesis by simp
qed

lemma in_heap_unwrap: "wf_heap h \<Longrightarrow> in_heap h v \<Longrightarrow> in_heap h (unwrap h v)"
  by (auto simp: unwrap_def wf_heap_def in_heap_def [of h v] obj_at_def split: val.splits option.splits)
     (auto simp: in_heap_def)

lemma members_in_heap:
  assumes "wf_heap h" "oa \<in> set h" "ob1 \<in> set h" "members arr oa ob1 = Some ps" "(v, Some w) \<in> set ps"
  shows "in_heap h v \<and> in_heap h w"
proof (cases arr)
  case True
  then have z: "(v, Some w) \<in> set (zip (ob_elems oa) (map Some (ob_elems ob1)))"
    using assms(4,5) by (auto simp: members_def split: if_splits)
  have "v \<in> set (ob_elems oa)" "w \<in> set (ob_elems ob1)"
    using set_zip_leftD [OF z] set_zip_rightD [OF z] by auto
  then show ?thesis using assms(1-3) by (auto simp: wf_heap_def)
next
  case False
  then obtain k where "(k, v) \<in> set (ob_own oa)" "map_of (ob_own ob1) k = Some w"
    using assms(4,5) by (auto simp: members_def split: if_splits)
  then have "(k, v) \<in> set (ob_own oa)" "(k, w) \<in> set (ob_own ob1)" by (auto dest: map_of_SomeD)
  then show ?thesis using assms(1-3) unfolding wf_heap_def by (metis snd_conv)
qed

lemma eq_all_total:
  "(\<And>v w. (v, Some w) \<in> set ps \<Longrightarrow> cmp v w \<noteq> None) \<Longrightarrow> eq_all cmp ps \<noteq> None"
proof (induction cmp ps rule: eq_all.induct)
  case (3 cmp x y ps)
  then show ?case by (auto split: option.splits sum.splits)
qed simp_all

lemma eq_all_True:
  "eq_all cmp ps = Some (Inr True) \<Longrightarrow> p \<in> set ps \<Longrightarrow> \<exists>w. snd p = Some w \<and> cmp (fst p) w = Some (Inr True)"
proof (induction cmp ps rule: eq_all.induct)
  case (3 cmp x y ps)
  then show ?case by (auto split: option.splits sum.splits if_splits)
qed simp_all

lemma strict_eq_Ref [simp]: "val_strict_eq v (Ref x) \<longleftrightarrow> v = Ref x"
  by (cases v) simp_all

lemma compound_refs:
  assumes "class_name h a = ''Array'' \<and> class_name h b = ''Array'' \<or> typeof_object h a \<and> typeof_object h b"
    "a \<noteq> Null" "b \<noteq> Null"
  shows "\<exists>x y. a = Ref x \<and> b = Ref y"
  using assms by (cases a; cases b) (auto simp: class_name_def typeof_object_def)

lemma eq_objects_cases:
  assumes "class_name h a = class_name h b" "in_heap h a" "in_heap h b"
  obtains r where "eq_objects h cmp a b stk = Some r"
    "r = Inr True \<longrightarrow> (a, b) \<in> set stk"
  | x y ps where "a = Ref x" "b = Ref y" "x < length h" "y < length h"
    "class_name h a = ''Array'' \<or> \<not> ctors_differ h (h ! x) (h ! y)"
    "find (\<lambda>p. val_strict_eq (fst p) a) stk = None" "members (class_name h a = ''Array'') (h ! x) (h ! y) = Some ps"
    "eq_objects h cmp a b stk = eq_all (\<lambda>v w. cmp v w ((a, b) # stk)) ps"
proof (cases "class_name h a = ''Array'' \<or> typeof_object h a \<and> typeof_object h b")
  case False
  then show thesis using that(1) by (auto simp: eq_objects_def Let_def)
next
  case c: True
  show thesis
  proof (cases "a = Null \<or> b = Null")
    case True
    then show thesis using that(1) c by (auto simp: eq_objects_def Let_def)
  next
    case False
    with c assms(1) obtain x y where xy: "a = Ref x" "b = Ref y" using compound_refs [of h a b] by auto
    have h: "x < length h" "y < length h" using assms(2,3) xy by (simp_all add: in_heap_def)
    define arr where "arr = (class_name h a = ''Array'')"
    have e: "eq_objects h cmp a b stk = (if \<not> arr \<and> ctors_differ h (h ! x) (h ! y) then Some (Inr False)
        else case find (\<lambda>p. val_strict_eq (fst p) a) stk of
             Some p \<Rightarrow> Some (Inr (val_strict_eq (snd p) b))
           | None \<Rightarrow> (case members arr (h ! x) (h ! y) of
               None \<Rightarrow> Some (Inr False)
             | Some ps \<Rightarrow> eq_all (\<lambda>v w. cmp v w ((a, b) # stk)) ps))"
      using c h unfolding arr_def xy eq_objects_def Let_def by (auto simp: obj_at_def)
    consider "\<not> arr \<and> ctors_differ h (h ! x) (h ! y)"
      | p where "\<not> (\<not> arr \<and> ctors_differ h (h ! x) (h ! y))" "find (\<lambda>p. val_strict_eq (fst p) a) stk = Some p"
      | "\<not> (\<not> arr \<and> ctors_differ h (h ! x) (h ! y))" "find (\<lambda>p. val_strict_eq (fst p) a) stk = None"
      by (cases "find (\<lambda>p. val_strict_eq (fst p) a) stk") blast+
    then show thesis
    proof cases
      case 1
      then show thesis using that(1) e by simp
    next
      case 2
      then have "p \<in> set stk" "fst p = a" unfolding xy by (auto simp: find_Some_iff)
      moreover have "eq_objects h cmp a b stk = Some (Inr (snd p = b))" using e 2 unfolding xy by simp
      ultimately show thesis using that(1) by (metis prod.collapse sum.inject(2))
    next
      case 3
      then show thesis
        using that xy h e by (cases "members arr (h ! x) (h ! y)") (auto simp: arr_def)
    qed
  qed
qed

lemma us_eq_step:
  obtains r where "us_eq h (Suc n) a b stk = Some (Inr r)" "r \<longrightarrow> val_strict_eq a b \<and> same_sign_zero a b
      \<or> class_name h (unwrap h a) = class_name h (unwrap h b) \<and> eq_by_value h (unwrap h a) (unwrap h b) = Some True"
  | "class_name h (unwrap h a) = class_name h (unwrap h b)"
    "us_eq h (Suc n) a b stk = eq_objects h (us_eq h n) (unwrap h a) (unwrap h b) stk"
proof (cases "val_strict_eq a b \<or> nullish a \<or> nullish b \<or> class_name h (unwrap h a) \<noteq> class_name h (unwrap h b)")
  case True
  then have "us_eq h (Suc n) a b stk = Some (Inr (val_strict_eq a b \<and> same_sign_zero a b))" by (auto simp: Let_def)
  then show thesis by (rule that(1)) simp
next
  case False
  show thesis
  proof (cases "eq_by_value h (unwrap h a) (unwrap h b)")
    case None
    with False show thesis by (intro that(2)) (simp_all add: Let_def)
  next
    case (Some r)
    with False have "us_eq h (Suc n) a b stk = Some (Inr r)" by (simp add: Let_def)
    then show thesis by (rule that(1)) (use Some False in auto)
  qed
qed

lemma us_eq_total:
  assumes "wf_heap h"
  shows "in_heap h a \<Longrightarrow> in_heap h b \<Longrightarrow> stack_ok h stk \<Longrightarrow> length h < n + length stk \<Longrightarrow> us_eq h n a b stk \<noteq> None"
proof (induction n arbitrary: a b stk)
  case 0
  then show ?case using stack_bounded by fastforce
next
  case (Suc n)
  show ?case
  proof (rule us_eq_step [of h n a b stk])
    assume c: "class_name h (unwrap h a) = class_name h (unwrap h b)"
      and e: "us_eq h (Suc n) a b stk = eq_objects h (us_eq h n) (unwrap h a) (unwrap h b) stk"
    have i: "in_heap h (unwrap h a)" "in_heap h (unwrap h b)"
      using Suc.prems(1,2) in_heap_unwrap [OF assms] by blast+
    show ?thesis
    proof (rule eq_objects_cases [OF c i, of "us_eq h n" stk])
      fix x y ps
      assume xy: "unwrap h a = Ref x" "x < length h" "y < length h"
        and f: "find (\<lambda>p. val_strict_eq (fst p) (unwrap h a)) stk = None"
        and m: "members (class_name h (unwrap h a) = ''Array'') (h ! x) (h ! y) = Some ps"
        and r: "eq_objects h (us_eq h n) (unwrap h a) (unwrap h b) stk
          = eq_all (\<lambda>v w. us_eq h n v w ((unwrap h a, unwrap h b) # stk)) ps"
      have s: "stack_ok h ((unwrap h a, unwrap h b) # stk)"
        using Suc.prems(3) f xy by (fastforce simp: stack_ok_def find_None_iff)
      have "eq_all (\<lambda>v w. us_eq h n v w ((unwrap h a, unwrap h b) # stk)) ps \<noteq> None"
      proof (rule eq_all_total)
        fix v w assume "(v, Some w) \<in> set ps"
        then have "in_heap h v" "in_heap h w" using members_in_heap [OF assms _ _ m] xy by auto
        then show "us_eq h n v w ((unwrap h a, unwrap h b) # stk) \<noteq> None" using Suc.IH s Suc.prems(4) by simp
      qed
      then show ?thesis using e r by simp
    qed (use e in simp)
  qed simp
qed

section \<open>What a positive answer means\<close>

text \<open>Two objects of the same class and, outside arrays, compatible constructors, with the members to compare.\<close>

definition same_shape :: "jsheap \<Rightarrow> val \<Rightarrow> val \<Rightarrow> (val \<times> val option) list \<Rightarrow> bool" where
  "same_shape h a b ps \<longleftrightarrow> class_name h a = class_name h b \<and>
    (\<exists>x y oa ob1. a = Ref x \<and> b = Ref y \<and> obj_at h x = Some oa \<and> obj_at h y = Some ob1
      \<and> (class_name h a = ''Array'' \<or> \<not> ctors_differ h oa ob1)
      \<and> members (class_name h a = ''Array'') oa ob1 = Some ps)"

text \<open>
  Two values are alike when they are the same, have the same primitive value,
  or are objects of the same shape with alike members; pairs of \<^verbatim>\<open>S\<close> count as alike.
\<close>

coinductive alike_upto :: "jsheap \<Rightarrow> (val \<times> val) set \<Rightarrow> val \<Rightarrow> val \<Rightarrow> bool"
  for h :: jsheap and S :: "(val \<times> val) set" where
  alike_same: "val_strict_eq a b \<Longrightarrow> same_sign_zero a b \<Longrightarrow> alike_upto h S a b"
| alike_value: "class_name h (unwrap h a) = class_name h (unwrap h b) \<Longrightarrow>
    eq_by_value h (unwrap h a) (unwrap h b) = Some True \<Longrightarrow> alike_upto h S a b"
| alike_members: "same_shape h (unwrap h a) (unwrap h b) ps \<Longrightarrow>
    \<forall>p\<in>set ps. \<exists>w. snd p = Some w \<and> (alike_upto h S (fst p) w \<or> (unwrap h (fst p), unwrap h w) \<in> S) \<Longrightarrow>
    alike_upto h S a b"

abbreviation alike :: "jsheap \<Rightarrow> val \<Rightarrow> val \<Rightarrow> bool" where
  "alike h \<equiv> alike_upto h {}"

text \<open>A pair that is alike under the assumption that it is alike is alike.\<close>

lemma alike_accumulate:
  assumes "same_shape h a1 b1 ps"
    and "\<forall>p\<in>set ps. \<exists>w. snd p = Some w \<and> (alike_upto h (insert (a1, b1) S) (fst p) w
      \<or> (unwrap h (fst p), unwrap h w) \<in> insert (a1, b1) S)"
    and "unwrap h a = a1" "unwrap h b = b1"
  shows "alike_upto h S a b"
proof -
  define X where "X x y \<longleftrightarrow> alike_upto h (insert (a1, b1) S) x y \<or> (unwrap h x, unwrap h y) = (a1, b1)" for x y
  have conv: "\<forall>p\<in>set qs. \<exists>w. snd p = Some w \<and>
      ((X (fst p) w \<or> alike_upto h S (fst p) w) \<or> (unwrap h (fst p), unwrap h w) \<in> S)"
    if "\<forall>p\<in>set qs. \<exists>w. snd p = Some w \<and> (alike_upto h (insert (a1, b1) S) (fst p) w
      \<or> (unwrap h (fst p), unwrap h w) \<in> insert (a1, b1) S)" for qs
    using that unfolding insert_iff X_def by blast
  have "X a b" using assms(3,4) by (simp add: X_def)
  then show ?thesis
  proof (rule alike_upto.coinduct [where X = X])
    fix x y assume "X x y"
    then consider "val_strict_eq x y" "same_sign_zero x y"
      | "class_name h (unwrap h x) = class_name h (unwrap h y)" "eq_by_value h (unwrap h x) (unwrap h y) = Some True"
      | qs where "same_shape h (unwrap h x) (unwrap h y) qs" "\<forall>p\<in>set qs. \<exists>w. snd p = Some w \<and>
          ((X (fst p) w \<or> alike_upto h S (fst p) w) \<or> (unwrap h (fst p), unwrap h w) \<in> S)"
    proof (cases "alike_upto h (insert (a1, b1) S) x y")
      case True
      then show ?thesis
      proof cases
        case (alike_members ps)
        then show ?thesis using conv [OF alike_members(2)] that(3) by blast
      qed (use that in blast)+
    next
      case False
      then have "(unwrap h x, unwrap h y) = (a1, b1)" using \<open>X x y\<close> by (simp add: X_def)
      then show ?thesis using that(3) [OF _ conv [OF assms(2)]] assms(1) by simp
    qed
    then show "(\<exists>a b. x = a \<and> y = b \<and> val_strict_eq a b \<and> same_sign_zero a b) \<or>
      (\<exists>a b. x = a \<and> y = b \<and> class_name h (unwrap h a) = class_name h (unwrap h b)
        \<and> eq_by_value h (unwrap h a) (unwrap h b) = Some True) \<or>
      (\<exists>a b ps. x = a \<and> y = b \<and> same_shape h (unwrap h a) (unwrap h b) ps \<and>
        (\<forall>p\<in>set ps. \<exists>w. snd p = Some w \<and>
          ((X (fst p) w \<or> alike_upto h S (fst p) w) \<or> (unwrap h (fst p), unwrap h w) \<in> S)))"
    proof cases
      case (3 qs)
      then show ?thesis by (intro disjI2 exI [of _ x] exI [of _ y] exI [of _ qs]) simp
    qed simp_all
  qed
qed

lemma us_eq_alike:
  assumes "wf_heap h"
  shows "us_eq h n a b stk = Some (Inr True) \<Longrightarrow> in_heap h a \<Longrightarrow> in_heap h b \<Longrightarrow>
    alike_upto h (set stk) a b \<or> (unwrap h a, unwrap h b) \<in> set stk"
proof (induction n arbitrary: a b stk)
  case (Suc n)
  show ?case
  proof (rule us_eq_step [of h n a b stk])
    fix r assume "us_eq h (Suc n) a b stk = Some (Inr r)" "r \<longrightarrow> val_strict_eq a b \<and> same_sign_zero a b
      \<or> class_name h (unwrap h a) = class_name h (unwrap h b) \<and> eq_by_value h (unwrap h a) (unwrap h b) = Some True"
    then show ?thesis using Suc.prems(1) by (auto intro: alike_same alike_value)
  next
    assume c: "class_name h (unwrap h a) = class_name h (unwrap h b)"
      and e: "us_eq h (Suc n) a b stk = eq_objects h (us_eq h n) (unwrap h a) (unwrap h b) stk"
    have i: "in_heap h (unwrap h a)" "in_heap h (unwrap h b)"
      using Suc.prems(2,3) in_heap_unwrap [OF assms] by blast+
    show ?thesis
    proof (rule eq_objects_cases [OF c i, of "us_eq h n" stk])
      fix r assume "eq_objects h (us_eq h n) (unwrap h a) (unwrap h b) stk = Some r"
        "r = Inr True \<longrightarrow> (unwrap h a, unwrap h b) \<in> set stk"
      then show ?thesis using e Suc.prems(1) by simp
    next
      fix x y ps
      assume xy: "unwrap h a = Ref x" "unwrap h b = Ref y" "x < length h" "y < length h"
          "class_name h (unwrap h a) = ''Array'' \<or> \<not> ctors_differ h (h ! x) (h ! y)"
        and m: "members (class_name h (unwrap h a) = ''Array'') (h ! x) (h ! y) = Some ps"
        and r: "eq_objects h (us_eq h n) (unwrap h a) (unwrap h b) stk
          = eq_all (\<lambda>v w. us_eq h n v w ((unwrap h a, unwrap h b) # stk)) ps"
      have sh: "same_shape h (unwrap h a) (unwrap h b) ps"
        unfolding same_shape_def using c xy m by (auto simp: obj_at_def)
      have t: "eq_all (\<lambda>v w. us_eq h n v w ((unwrap h a, unwrap h b) # stk)) ps = Some (Inr True)"
        using e r Suc.prems(1) by simp
      have "\<forall>p\<in>set ps. \<exists>w. snd p = Some w \<and> (alike_upto h (insert (unwrap h a, unwrap h b) (set stk)) (fst p) w
          \<or> (unwrap h (fst p), unwrap h w) \<in> insert (unwrap h a, unwrap h b) (set stk))"
      proof
        fix p assume p: "p \<in> set ps"
        from eq_all_True [OF t p] obtain w where w: "snd p = Some w"
            "us_eq h n (fst p) w ((unwrap h a, unwrap h b) # stk) = Some (Inr True)" by blast
        have "(fst p, Some w) \<in> set ps" using p w(1) by (metis prod.collapse)
        then have "in_heap h (fst p)" "in_heap h w" using members_in_heap [OF assms _ _ m] xy by auto
        from Suc.IH [OF w(2) this] w(1) show "\<exists>w. snd p = Some w \<and>
            (alike_upto h (insert (unwrap h a, unwrap h b) (set stk)) (fst p) w
             \<or> (unwrap h (fst p), unwrap h w) \<in> insert (unwrap h a, unwrap h b) (set stk))" by simp
      qed
      with sh show ?thesis using alike_accumulate by blast
    qed
  qed
qed simp

text \<open>
  C39: On every heap, also with cycles, \<^verbatim>\<open>isEqual\<close> returns, and when it answers true the
  two values are alike: equal as primitives, or objects of the same shape whose
  members are alike, to every depth.
\<close>

theorem isEqual_sound:
  assumes "wf_heap h" "in_heap h a" "in_heap h b"
  shows "\<exists>r. isEqual h a b = Some r \<and> (r = Inr True \<longrightarrow> alike h a b)"
proof -
  have "stack_ok h []" by (simp add: stack_ok_def)
  then obtain r where "isEqual h a b = Some r"
    using us_eq_total [OF assms, of "[]" "length h + 1"] by (auto simp: isEqual_def)
  then show ?thesis using us_eq_alike [OF assms(1), of "length h + 1" a b "[]"] assms by (auto simp: isEqual_def)
qed

definition plain :: "(ustring \<times> val) list \<Rightarrow> hobj" where
  "plain ps = \<lparr> ob_class = ''Object'', ob_prim = Undefined, ob_elems = [], ob_own = ps, ob_ctor = None,
     ob_self_instance = False, ob_wrapped = None \<rparr>"

text \<open>An object that refers to itself, and two objects that refer to each other.\<close>

definition ex_heap :: jsheap where
  "ex_heap = [plain [(lit ''x'', Ref 0)], plain [(lit ''x'', Ref 2)], plain [(lit ''x'', Ref 1)]]"

theorem isEqual_sound_witness: "alike ex_heap (Ref 1) (Ref 0)"
proof -
  have "wf_heap ex_heap" by (simp add: wf_heap_def ex_heap_def plain_def in_heap_def)
  moreover have "isEqual ex_heap (Ref 1) (Ref 0) = Some (Inr True)" by code_simp
  ultimately show ?thesis using isEqual_sound [of ex_heap "Ref 1" "Ref 0"] by (simp add: in_heap_def ex_heap_def)
qed

text \<open>The comparison is reflexive, but on cycles the answer depends on the order of the arguments.\<close>

lemma us_eq_refl: "us_eq h (Suc n) v v stk = Some (Inr True)"
proof (cases "v = Number NumNaN")
  case True
  then show ?thesis
    by (simp add: num_strict_eq_def nullish_def unwrap_def class_name_def eq_by_value_def to_number_def primitive_def Let_def)
next
  case False
  then have "val_strict_eq v v" by (cases v) (simp_all add: num_strict_eq_def)
  then show ?thesis by (simp add: same_sign_zero_def split: val.split)
qed

lemma isEqual_not_symmetric:
  "isEqual ex_heap (Ref 1) (Ref 0) = Some (Inr True)" "isEqual ex_heap (Ref 0) (Ref 1) = Some (Inr False)"
  by code_simp+

text \<open>Comparing two underscore objects that wrap null raises an error.\<close>

lemma isEqual_wrapped_null:
  "isEqual [(plain [])\<lparr> ob_wrapped := Some Null \<rparr>, (plain [])\<lparr> ob_wrapped := Some Null \<rparr>] (Ref 0) (Ref 1) = Some (Inl TypeError)"
  by code_simp

end
