(* ===== verification/Spec2Isabelle.thy ===== *)
theory Spec2Isabelle
  imports Job_Flow Wc_Core TinySeg Js_Events Js_Process Mm_Props Us_Collections Us_Functions Us_Equal
begin

text \<open>
  \<^bold>\<open>A verification library for KubeMapReduce\<close>

  The repository holds a MapReduce system for Kubernetes, written in Go, and
  the documentation site that is served with it, whose search index splits
  Thai and Japanese text with two bundled JavaScript files.  The library has
  one part for each: the scheduler of the manager, which decides what runs
  when, with the path of the records through the workers, and the scripts
  \<^verbatim>\<open>wordcut.js\<close> and \<^verbatim>\<open>tinyseg.js\<close>.  Both parts share the theory \<^verbatim>\<open>Prelude\<close>: theorem collections, tables as lists of rows, the locale \<^verbatim>\<open>keyed_rows\<close>
  for updates of a table by key, the locale \<^verbatim>\<open>sorting\<close> for functions that
  sort, and the locale \<^verbatim>\<open>invariant_system\<close>, which proves an invariant of a transition system from its initial states and steps.

  \<^bold>\<open>The manager\<close> (\<^verbatim>\<open>src/manager-service/internal\<close>)

  \<^item> \<^verbatim>\<open>Job_Transitions\<close>: the states of jobs and tasks, and the table of allowed
    transitions (\<^verbatim>\<open>task_tracker.go\<close>, \<^verbatim>\<open>job_transitions.go\<close>).
  \<^item> \<^verbatim>\<open>Routing\<close>: the 32-bit FNV-1a hash, the replica that owns a job and the
    partition of a key (\<^verbatim>\<open>routing.go\<close>, \<^verbatim>\<open>map.go\<close> of the worker).
  \<^item> \<^verbatim>\<open>Events\<close>: the domain events written to the outbox (\<^verbatim>\<open>schema.go\<close>,
    \<^verbatim>\<open>event_emitter.go\<close>).
  \<^item> \<^verbatim>\<open>DDS\<close>: the tables of the schema as one record, and every query of \<^verbatim>\<open>queries.go\<close>
    that the scheduler runs as a function on it.
  \<^item> \<^verbatim>\<open>Scheduler\<close>, \<^verbatim>\<open>Task_Lifecycle\<close>: the methods of \<^verbatim>\<open>scheduler.go\<close>.  A method takes
    the in-memory state, the store, the clock and a supply of fresh identifiers,
    and returns an error or a result with the new state; one call is one
    transaction.
  \<^item> \<^verbatim>\<open>Scheduler_Inv\<close>, \<^verbatim>\<open>Scheduler_Ops\<close>, \<^verbatim>\<open>Scheduler_System\<close>: the invariant of the store, its
    preservation by every method, and the system in which all replicas and all
    workers, also stale ones, call in any order.
  \<^item> \<^verbatim>\<open>Scheduler_Progress\<close>, \<^verbatim>\<open>Scheduler_Bounds\<close>, \<^verbatim>\<open>Scheduler_Props\<close>: what single steps
    keep, and the properties C1 to C11 and C18: at most one running attempt per task,
    no reduce before all maps, job states along the state machine, tasks
    completed once, the pod quota, the bound on attempts, the behaviour of
    \<^verbatim>\<open>CompleteTask\<close> on every branch, and the end of the cleanup; and three runs in
    which the code departs from its documentation.

  \<^bold>\<open>The records of a job\<close> (\<^verbatim>\<open>src/worker-service/internal\<close>, and the shuffle server and
  \<^verbatim>\<open>buildInputSplits\<close> of the manager)

  A byte is a character; the object storage, the hash, the JSON codec and
  \<^verbatim>\<open>sort.Slice\<close> are parameters, with what is relied on as hypotheses.

  \<^item> \<^verbatim>\<open>Wk_Split\<close>: cutting an object into byte ranges and reading the records of a
    range (\<^verbatim>\<open>handlers.go\<close>, \<^verbatim>\<open>split.go\<close>, \<^verbatim>\<open>download.go\<close>): the splits deliver the object (C12)
    as long as the record that crosses the end of a split ends in its first
    chunk; of larger splits only that chunk is read (C17).
  \<^item> \<^verbatim>\<open>Wk_Merge\<close>: the multi-pass merge and the spilling sorter (\<^verbatim>\<open>merge.go\<close>, \<^verbatim>\<open>spill.go\<close>): the
    merge is a stable sort (C13), the sorter writes the sorted records within its
    memory budget.
  \<^item> \<^verbatim>\<open>Wk_Shuffle\<close>: partitions, chunks, the shuffle server and the inputs of a reduce
    task (\<^verbatim>\<open>map.go\<close>, \<^verbatim>\<open>partition_writer.go\<close>, \<^verbatim>\<open>shuffle.go\<close>, \<^verbatim>\<open>reduce.go\<close>): each reducer reads its
    records, sorted (C14), and the server stays within its limits (C15).
  \<^item> \<^verbatim>\<open>Job_Flow\<close>: the scheduler and the worker together, and a run in which the
    records of a partition are lost (C16).

  \<^bold>\<open>The scripts\<close> (\<^verbatim>\<open>src/site/assets/javascripts/lunr\<close>)

  \<^verbatim>\<open>Js_Prelude\<close> fixes the language: a string is a list of UTF-16 code units, an
  exception is a value of a sum type, and a call that may not return is an
  option.  Its locale \<^verbatim>\<open>segmenter\<close> is the contract of a tokenizer; it is interpreted
  on both segmenters.  Numbers are unbounded integers.

  \<^item> \<^verbatim>\<open>Js_Path\<close>: \<^verbatim>\<open>normalize\<close>, \<^verbatim>\<open>resolve\<close>, \<^verbatim>\<open>relative\<close> and \<^verbatim>\<open>join\<close> (module 22; C19, C20).
  \<^item> \<^verbatim>\<open>Wc_Dict\<close>, \<^verbatim>\<open>Wc_Acceptors\<close>, \<^verbatim>\<open>Wc_Core\<close>: the Thai segmenter: the dictionary with its
    binary search, the pool of acceptors, the selection of a best path and the
    cut functions (modules 1 to 8; C21 to C24).  The built-in word list is a
    parameter, since it is a file that is not part of the bundle.
  \<^item> \<^verbatim>\<open>TinySeg_Tables\<close>, \<^verbatim>\<open>TinySeg\<close>: the Japanese segmenter with its tables (C25, C26).
  \<^item> \<^verbatim>\<open>Js_Events\<close>: the event emitter (module 14; C27 to C29).
  \<^item> \<^verbatim>\<open>Js_Process\<close>: the queue behind \<^verbatim>\<open>nextTick\<close> on the timers of the browser (module 24;
    C30).
  \<^item> \<^verbatim>\<open>Js_Brace\<close>, \<^verbatim>\<open>Js_Expand\<close>: balanced matches and brace expansion (modules 10, 11
    and 13; C31 to C33).
  \<^item> \<^verbatim>\<open>Js_RegExp\<close>: the regular expressions of the language, parser and matcher.
  \<^item> \<^verbatim>\<open>Mm_Match\<close>, \<^verbatim>\<open>Mm_Parse\<close>, \<^verbatim>\<open>Mm_Core\<close>, \<^verbatim>\<open>Mm_Props\<close>: the glob matcher, from the translation
    of a path part into a regular expression to \<^verbatim>\<open>minimatch\<close> (module 20; C34 to C36).
  \<^item> \<^verbatim>\<open>Us_Arrays\<close>, \<^verbatim>\<open>Us_Collections\<close>: the array and collection functions of underscore
    (module 25; C37, C38).
  \<^item> \<^verbatim>\<open>Us_Equal\<close>: deep comparison on a heap of objects, with cycles (module 25; C39).
  \<^item> \<^verbatim>\<open>Us_Functions\<close>: throttled, debounced, counted, memoized and composed functions
    (module 25; C40).

  \<^bold>\<open>Bounds\<close>

  Recursion that is not structural is defined with a termination proof where
  the code always ends.  Elsewhere a number bounds it.  The rounds of
  \<^verbatim>\<open>balanced_range\<close> are bounded by the length of the string, and the lemma
  \<^verbatim>\<open>balanced_range_Some\<close> shows that the bound is never reached.  Nested emissions of an
  event are bounded by the number of listeners (C29), drains of the tick queue
  by the number of queued jobs (C30), the recursion of \<^verbatim>\<open>expand\<close> by the size of its
  argument on strings without periods (C32); with periods it may run forever
  (C33).  The depth of \<^verbatim>\<open>parse\<close> is bounded by the length of the pattern, which the
  lemma \<^verbatim>\<open>parse_total\<close> shows to be enough, and the depth of a comparison by the number
  of objects on the heap, which is enough because no object is compared twice
  on one path (C39).

  \<^bold>\<open>Not modelled\<close>

  On the Go side: the Kubernetes orchestrator, the object store, the relay of
  the outbox, the HTTP layer except for the splits, the gRPC transport, the
  processes and the control loop of the worker, failures of connections and
  files, the authentication service and the command line client.  They
  are I/O around the modelled decisions; the calls the scheduler makes to the
  orchestrator are recorded.  In the scripts: the assertion module, the walk of
  the file system by \<^verbatim>\<open>glob\<close> (the browser bundle has an empty file system module),
  the formatting functions of \<^verbatim>\<open>util\<close>, and of underscore the functions on objects
  except comparison, binding, and templates.  Console output of debugging
  calls is left out everywhere.
\<close>

end
